(* ===== verification/JS_Prelude.thy ===== *)
theory JS_Prelude
  imports Complex_Main "HOL-Library.Word" "HOL-Library.Sublist"
begin

text \<open>
  What every component of the model shares: the collections of rewrite rules the component
  theories add to, the error monad that stands for JavaScript's exceptions, the three truth
  values a CEL condition has, and generic facts about lists.

  A TypeScript function that can throw returns \<open>'e + 'a\<close>: \<open>Inl e\<close> is the exception, \<open>Inr v\<close>
  the value. A CEL evaluation error is not an exception but a value (the source's
  \<open>EVALUATION_ERROR\<close> symbol), so the two failures stay apart in the model as they do in the code.
\<close>

named_theorems cel_simps "unfolding rules of the CEL value functions"
named_theorems plan_simps "unfolding rules of the passes over a plan"
named_theorems kleene_simps "three-valued logic"

subsection \<open>Exceptions\<close>

definition bindE :: "'e + 'a \<Rightarrow> ('a \<Rightarrow> 'e + 'b) \<Rightarrow> 'e + 'b" where
  "bindE m f = (case m of Inl e \<Rightarrow> Inl e | Inr x \<Rightarrow> f x)"

lemma bindE_simps [simp]: "bindE (Inl e) f = Inl e" "bindE (Inr x) f = f x"
  by (simp_all add: bindE_def)

lemma bindE_cong [fundef_cong]:
  assumes "m = m'" and "\<And>x. m' = Inr x \<Longrightarrow> f x = f' x"
  shows "bindE m f = bindE m' f'"
  using assms by (cases m') (auto simp: bindE_def)

lemma bindE_eq_Inr: "bindE m f = Inr y \<longleftrightarrow> (\<exists>x. m = Inr x \<and> f x = Inr y)"
  by (cases m) auto

lemma bindE_eq_Inl: "bindE m f = Inl e \<longleftrightarrow> m = Inl e \<or> (\<exists>x. m = Inr x \<and> f x = Inl e)"
  by (cases m) auto

lemma bindE_split: "P (bindE m f) \<longleftrightarrow>
    (\<forall>e. m = Inl e \<longrightarrow> P (Inl e)) \<and> (\<forall>x. m = Inr x \<longrightarrow> P (f x))"
  by (cases m) auto

text \<open>Runs a statement for each element and stops at the first exception (a \<open>for ... of\<close> loop).\<close>

fun forE :: "('a \<Rightarrow> 'e + unit) \<Rightarrow> 'a list \<Rightarrow> 'e + unit" where
  "forE f [] = Inr ()"
| "forE f (x # xs) = bindE (f x) (\<lambda>_. forE f xs)"

lemma forE_cong [fundef_cong]:
  "xs = ys \<Longrightarrow> (\<And>x. x \<in> set ys \<Longrightarrow> f x = g x) \<Longrightarrow> forE f xs = forE g ys"
proof (induction ys arbitrary: xs)
  case (Cons y ys)
  then show ?case by (auto intro!: bindE_cong)
qed simp

lemma forE_ok: "forE f xs = Inr () \<longleftrightarrow> (\<forall>x \<in> set xs. f x = Inr ())"
  by (induction xs) (auto simp: bindE_eq_Inr)

lemma forE_Inl: "forE f xs = Inl e \<Longrightarrow> \<exists>x \<in> set xs. f x = Inl e"
  by (induction xs) (auto simp: bindE_eq_Inl)

text \<open>\<open>Array.prototype.map\<close> with a callback that may throw.\<close>

fun mapE :: "('a \<Rightarrow> 'e + 'b) \<Rightarrow> 'a list \<Rightarrow> 'e + 'b list" where
  "mapE f [] = Inr []"
| "mapE f (x # xs) = bindE (f x) (\<lambda>y. bindE (mapE f xs) (\<lambda>ys. Inr (y # ys)))"

lemma mapE_cong [fundef_cong]:
  "xs = ys \<Longrightarrow> (\<And>x. x \<in> set ys \<Longrightarrow> f x = g x) \<Longrightarrow> mapE f xs = mapE g ys"
proof (induction ys arbitrary: xs)
  case (Cons y ys)
  then show ?case by (auto intro!: bindE_cong)
qed simp

lemma mapE_ok_iff: "mapE f xs = Inr ys \<longleftrightarrow> list_all2 (\<lambda>x y. f x = Inr y) xs ys"
  by (induction xs arbitrary: ys) (auto simp: bindE_eq_Inr list_all2_Cons1)

lemma mapE_Inr_length: "mapE f xs = Inr ys \<Longrightarrow> length ys = length xs"
  by (auto simp: mapE_ok_iff dest: list_all2_lengthD)

lemma mapE_Inl: "mapE f xs = Inl e \<Longrightarrow> \<exists>x \<in> set xs. f x = Inl e"
  by (induction xs) (auto simp: bindE_eq_Inl)

subsection \<open>Indexing as JavaScript does it\<close>

text \<open>\<open>xs[i]\<close>: \<open>undefined\<close> (here \<open>None\<close>) past the end.\<close>

definition nth_opt :: "'a list \<Rightarrow> nat \<Rightarrow> 'a option" where
  "nth_opt xs i = (if i < length xs then Some (xs ! i) else None)"

lemma nth_opt_simps [simp]:
  "nth_opt [] i = None"
  "nth_opt (x # xs) 0 = Some x"
  "nth_opt (x # xs) (Suc i) = nth_opt xs i"
  by (simp_all add: nth_opt_def)

lemma nth_opt_numeral [simp]: "nth_opt (x # xs) (numeral n) = nth_opt xs (pred_numeral n)"
  by (simp add: numeral_eq_Suc)

lemma nth_opt_one [simp]: "nth_opt (x # xs) 1 = nth_opt xs 0"
  by (simp add: nth_opt_def)

lemma nth_opt_mem: "nth_opt xs i = Some x \<Longrightarrow> x \<in> set xs"
  by (auto simp: nth_opt_def split: if_splits)

lemma nth_opt_map [simp]: "nth_opt (map f xs) i = map_option f (nth_opt xs i)"
  by (simp add: nth_opt_def)

lemma nth_opt_0_None [simp]: "nth_opt xs 0 = None \<longleftrightarrow> xs = []"
  by (cases xs) auto

subsection \<open>Three truth values\<close>

text \<open>
  A CEL condition is true, false or an evaluation error; \<open>&&\<close> and \<open>||\<close> let a deciding operand
  win over an error in any position, which is Kleene's strong three-valued logic.
\<close>

datatype truth = TT | FF | EE

definition truth_of :: "bool \<Rightarrow> truth" where
  "truth_of b = (if b then TT else FF)"

fun k_not :: "truth \<Rightarrow> truth" where
  "k_not TT = FF" | "k_not FF = TT" | "k_not EE = EE"

definition k_all :: "truth list \<Rightarrow> truth" where
  "k_all ts = (if FF \<in> set ts then FF else if EE \<in> set ts then EE else TT)"

definition k_ex :: "truth list \<Rightarrow> truth" where
  "k_ex ts = (if TT \<in> set ts then TT else if EE \<in> set ts then EE else FF)"

lemma k_not_involutive [simp, kleene_simps]: "k_not (k_not t) = t"
  by (cases t) simp_all

lemma k_not_eq [simp, kleene_simps]:
  "k_not t = TT \<longleftrightarrow> t = FF" "k_not t = FF \<longleftrightarrow> t = TT" "k_not t = EE \<longleftrightarrow> t = EE"
  by (cases t; simp)+

lemma truth_of_eq [simp, kleene_simps]:
  "truth_of b = TT \<longleftrightarrow> b" "truth_of b = FF \<longleftrightarrow> \<not> b" "truth_of b \<noteq> EE"
  "k_not (truth_of b) = truth_of (\<not> b)"
  by (auto simp: truth_of_def)

lemma k_all_TT [kleene_simps]: "k_all ts = TT \<longleftrightarrow> (\<forall>t \<in> set ts. t = TT)"
  by (auto simp: k_all_def) (metis truth.exhaust)

lemma k_ex_FF [kleene_simps]: "k_ex ts = FF \<longleftrightarrow> (\<forall>t \<in> set ts. t = FF)"
  by (auto simp: k_ex_def) (metis truth.exhaust)

lemma k_all_FF [kleene_simps]: "k_all ts = FF \<longleftrightarrow> FF \<in> set ts"
  by (auto simp: k_all_def)

lemma k_ex_TT [kleene_simps]: "k_ex ts = TT \<longleftrightarrow> TT \<in> set ts"
  by (auto simp: k_ex_def)

lemma k_not_mem: "TT \<in> k_not ` A \<longleftrightarrow> FF \<in> A" "FF \<in> k_not ` A \<longleftrightarrow> TT \<in> A" "EE \<in> k_not ` A \<longleftrightarrow> EE \<in> A"
  by (force simp: image_iff eq_commute [of _ "k_not _"])+

lemma k_de_morgan [kleene_simps]:
  "k_not (k_all ts) = k_ex (map k_not ts)" "k_not (k_ex ts) = k_all (map k_not ts)"
  by (auto simp: k_all_def k_ex_def k_not_mem)

subsection \<open>Lists\<close>

lemma list_all2_map_same: "list_all2 P (map f xs) (map g xs) \<longleftrightarrow> (\<forall>x \<in> set xs. P (f x) (g x))"
  by (simp add: list_all2_map1 list_all2_map2 list.rel_refl_strong list_all2_same)

lemma size_list_member: "x \<in> set xs \<Longrightarrow> f x \<le> size_list f xs"
  by (induction xs) auto

lemma size_list_member_less: "x \<in> set xs \<Longrightarrow> f x < Suc (size_list f xs)"
  using size_list_member [of x xs f] by simp

lemma size_zip_left [termination_simp]:
  assumes "(a, b) \<in> set (zip l r)"
  shows "size a < Suc (size_list size l)"
  by (rule size_list_member_less) (rule set_zip_leftD [OF assms])

subsection \<open>Division\<close>

lemma div_succ: "0 < k \<Longrightarrow> (a + 1) div k = a div k + (if k dvd a + 1 then 1 else 0)" for a k :: int
proof -
  assume k: "0 < k"
  define q r where "q = a div k" and "r = a mod k"
  have a: "a = q * k + r" "0 \<le> r" "r < k" using k by (simp_all add: q_def r_def)
  show ?thesis
  proof (cases "r + 1 = k")
    case True
    then have "a + 1 = (q + 1) * k" using a by (simp add: algebra_simps)
    then show ?thesis using k by (simp add: q_def)
  next
    case False
    then have "r + 1 < k" using a by simp
    have e: "a + 1 = k * q + (r + 1)" using a by (simp add: algebra_simps)
    have "(a + 1) div k = q" by (rule int_div_pos_eq [OF e]) (use a \<open>r + 1 < k\<close> in simp_all)
    moreover have "(a + 1) mod k = r + 1" by (rule int_mod_pos_eq [OF e]) (use a \<open>r + 1 < k\<close> in simp_all)
    ultimately show ?thesis unfolding q_def [symmetric] dvd_eq_mod_eq_0 using \<open>0 \<le> r\<close> by simp
  qed
qed

lemma dvd_shift: "k dvd (y - c * k) \<longleftrightarrow> k dvd (y :: int)"
  using dvd_add_times_triv_right_iff [of k "y - c * k" c] by simp

lemma div_less_iff: "0 < k \<Longrightarrow> a div k < n \<longleftrightarrow> a < n * k" for a k n :: int
proof -
  assume k: "0 < k"
  define q r where "q = a div k" and "r = a mod k"
  have a: "a = q * k + r" "0 \<le> r" "r < k" using k by (simp_all add: q_def r_def)
  show ?thesis
  proof (cases "n \<le> q")
    case True
    then have "n * k \<le> q * k" using k by (intro mult_right_mono) simp_all
    then show ?thesis using True a unfolding q_def [symmetric] by linarith
  next
    case False
    then have "(q + 1) * k \<le> n * k" using k by (intro mult_right_mono) simp_all
    then have "a < n * k" using a by (simp add: distrib_right)
    then show ?thesis using False unfolding q_def [symmetric] by simp
  qed
qed

end
