(* ===== verification/JS_Number.thy ===== *)
theory JS_Number
  imports JS_Prelude "HOL-Library.Log_Nat"
begin

text \<open>
  JavaScript's \<open>number\<close>: an IEEE-754 binary64 value. A finite non-zero value and \<open>+0\<close> are the
  rational they denote, so that comparison, integrality and truncation are those of the rationals;
  \<open>-0\<close> is a value of its own, since \<open>Object.is\<close> and a division tell it from \<open>+0\<close>. Every arithmetic
  result is the exact rational result rounded to nearest, ties to even (\<open>round64\<close>).
\<close>

datatype jsnum = NaN | PInf | NInf | NegZero | Fin rat

subsection \<open>Rounding a rational to binary64\<close>

definition ilog2 :: "rat \<Rightarrow> int" where
  "ilog2 r = (let (p, q) = quotient_of r; k = bitlen p - bitlen q
              in if r < 2 powi k then k - 1 else k)"

definition round_half_even :: "rat \<Rightarrow> int" where
  "round_half_even r = (let f = \<lfloor>r\<rfloor>; d = r - of_int f
     in if d < 1 / 2 then f else if 1 / 2 < d then f + 1 else if even f then f else f + 1)"

text \<open>The exponent of the unit in the last place at \<open>r\<close>: 53 significant bits, none below \<open>2^-1074\<close>.\<close>

definition ulp_exp :: "rat \<Rightarrow> int" where
  "ulp_exp r = max (ilog2 \<bar>r\<bar> - 52) (- 1074)"

text \<open>The first magnitude past the finite doubles.\<close>

definition overflow :: rat where "overflow = 2 ^ 1024"

definition round64 :: "rat \<Rightarrow> jsnum" where
  "round64 r =
     (if r = 0 then Fin 0
      else let q = ulp_exp r; n = round_half_even (r / 2 powi q); v = of_int n * 2 powi q
           in if n = 0 then (if r < 0 then NegZero else Fin 0)
              else if overflow \<le> v then PInf
              else if v \<le> - overflow then NInf
              else Fin v)"

definition representable :: "rat \<Rightarrow> bool" where
  "representable r \<longleftrightarrow>
     (\<exists>m e. r = of_int m * 2 powi e \<and> \<bar>m\<bar> < 2 ^ 53 \<and> - 1074 \<le> e \<and> \<bar>r\<bar> < overflow)"

subsection \<open>Operators of the language and of \<open>Number\<close>, \<open>Math\<close> and \<open>BigInt\<close>\<close>

fun is_nan :: "jsnum \<Rightarrow> bool" where
  "is_nan NaN = True" | "is_nan _ = False"

fun is_finite :: "jsnum \<Rightarrow> bool" where
  "is_finite NegZero = True" | "is_finite (Fin r) = True" | "is_finite _ = False"

fun num_val :: "jsnum \<Rightarrow> rat" where
  "num_val (Fin r) = r" | "num_val _ = 0"

fun num_negative :: "jsnum \<Rightarrow> bool" where
  "num_negative NInf = True" | "num_negative NegZero = True"
| "num_negative (Fin r) = (r < 0)" | "num_negative _ = False"

fun is_zero :: "jsnum \<Rightarrow> bool" where
  "is_zero NegZero = True" | "is_zero (Fin r) = (r = 0)" | "is_zero _ = False"

fun num_lt :: "jsnum \<Rightarrow> jsnum \<Rightarrow> bool" where
  "num_lt NaN _ = False" | "num_lt _ NaN = False"
| "num_lt _ NInf = False" | "num_lt NInf _ = True"
| "num_lt PInf _ = False" | "num_lt _ PInf = True"
| "num_lt a b = (num_val a < num_val b)"

definition num_le :: "jsnum \<Rightarrow> jsnum \<Rightarrow> bool" where
  "num_le a b \<longleftrightarrow> \<not> is_nan a \<and> \<not> is_nan b \<and> \<not> num_lt b a"

fun is_integer :: "jsnum \<Rightarrow> bool" where
  "is_integer NegZero = True" | "is_integer (Fin r) = (of_int \<lfloor>r\<rfloor> = r)" | "is_integer _ = False"

definition max_safe :: int where "max_safe = 2 ^ 53 - 1"

definition is_safe_integer :: "jsnum \<Rightarrow> bool" where
  "is_safe_integer x \<longleftrightarrow> is_integer x \<and> \<bar>num_val x\<bar> \<le> of_int max_safe"

text \<open>\<open>Math.trunc\<close>, then \<open>BigInt\<close>: the integer part of a finite number.\<close>

definition rat_trunc :: "rat \<Rightarrow> int" where
  "rat_trunc r = (if 0 \<le> r then \<lfloor>r\<rfloor> else - \<lfloor>- r\<rfloor>)"

definition num_trunc :: "jsnum \<Rightarrow> int" where
  "num_trunc x = rat_trunc (num_val x)"

text \<open>\<open>Number(n)\<close> of a bigint rounds to nearest.\<close>

definition num_of_int :: "int \<Rightarrow> jsnum" where
  "num_of_int n = round64 (of_int n)"

definition signed_zero :: "bool \<Rightarrow> jsnum" where
  "signed_zero neg = (if neg then NegZero else Fin 0)"

definition signed_inf :: "bool \<Rightarrow> jsnum" where
  "signed_inf neg = (if neg then NInf else PInf)"

fun num_uminus :: "jsnum \<Rightarrow> jsnum" where
  "num_uminus NaN = NaN" | "num_uminus PInf = NInf" | "num_uminus NInf = PInf"
| "num_uminus NegZero = Fin 0"
| "num_uminus (Fin r) = (if r = 0 then NegZero else Fin (- r))"

fun num_add :: "jsnum \<Rightarrow> jsnum \<Rightarrow> jsnum" where
  "num_add NaN _ = NaN" | "num_add _ NaN = NaN"
| "num_add PInf NInf = NaN" | "num_add NInf PInf = NaN"
| "num_add PInf _ = PInf" | "num_add _ PInf = PInf"
| "num_add NInf _ = NInf" | "num_add _ NInf = NInf"
| "num_add NegZero NegZero = NegZero"
| "num_add a b = round64 (num_val a + num_val b)"

definition num_sub :: "jsnum \<Rightarrow> jsnum \<Rightarrow> jsnum" where
  "num_sub a b = num_add a (num_uminus b)"

definition num_mul :: "jsnum \<Rightarrow> jsnum \<Rightarrow> jsnum" where
  "num_mul a b =
     (let neg = (num_negative a \<noteq> num_negative b) in
      if is_nan a \<or> is_nan b then NaN
      else if \<not> is_finite a \<or> \<not> is_finite b then
        (if is_zero a \<or> is_zero b then NaN else signed_inf neg)
      else if is_zero a \<or> is_zero b then signed_zero neg
      else round64 (num_val a * num_val b))"

definition num_div :: "jsnum \<Rightarrow> jsnum \<Rightarrow> jsnum" where
  "num_div a b =
     (let neg = (num_negative a \<noteq> num_negative b) in
      if is_nan a \<or> is_nan b then NaN
      else if \<not> is_finite a then (if is_finite b then signed_inf neg else NaN)
      else if \<not> is_finite b then signed_zero neg
      else if is_zero b then (if is_zero a then NaN else signed_inf neg)
      else if is_zero a then signed_zero neg
      else round64 (num_val a / num_val b))"

text \<open>
  \<open>%\<close>: the remainder of the division truncated toward zero. It is exact, and takes the sign of the
  dividend; \<open>undefined\<close> cases (an infinite dividend, a zero divisor) are \<open>NaN\<close>.
\<close>

definition num_mod :: "jsnum \<Rightarrow> jsnum \<Rightarrow> jsnum" where
  "num_mod a b =
     (if is_nan a \<or> is_nan b \<or> \<not> is_finite a \<or> is_zero b then NaN
      else if \<not> is_finite b \<or> is_zero a then a
      else let r = num_val a - of_int (rat_trunc (num_val a / num_val b)) * num_val b
           in if r = 0 then signed_zero (num_negative a) else Fin r)"

subsection \<open>Ordering\<close>

lemma num_lt_Fin [simp]: "num_lt (Fin a) (Fin b) \<longleftrightarrow> a < b"
  by simp

lemma num_lt_irrefl [simp]: "\<not> num_lt a a"
  by (cases a) simp_all

lemma num_lt_trans: "num_lt a b \<Longrightarrow> num_lt b c \<Longrightarrow> num_lt a c"
  by (cases a; cases b; cases c; simp)

lemma num_lt_asym: "num_lt a b \<Longrightarrow> \<not> num_lt b a"
  by (cases a; cases b; simp)

lemma num_lt_nan [simp]: "is_nan a \<Longrightarrow> \<not> num_lt a b" "is_nan b \<Longrightarrow> \<not> num_lt a b"
  by (cases a; simp) (cases a; cases b; simp)

lemma num_incomparable_trans:
  assumes "\<not> num_lt a b" "\<not> num_lt b a" "\<not> num_lt b c" "\<not> num_lt c b"
    and "\<not> is_nan a" "\<not> is_nan b" "\<not> is_nan c"
  shows "\<not> num_lt a c \<and> \<not> num_lt c a"
  using assms by (cases a; cases b; cases c; auto)

lemma num_lt_trans_incomparable:
  assumes "num_lt a b" "\<not> num_lt b c" "\<not> num_lt c b" "\<not> is_nan c"
  shows "num_lt a c"
  using assms by (cases a; cases b; cases c; auto)

subsection \<open>Rounding: correct, in the format, exact where it can be\<close>

lemma ilog2_bounds:
  assumes "0 < r"
  shows "2 powi ilog2 r \<le> r" "r < 2 powi (ilog2 r + 1)"
proof -
  obtain p q where pq: "quotient_of r = (p, q)" by fastforce
  have q: "0 < q" using pq by (rule quotient_of_denom_pos)
  have r: "r = of_int p / of_int q" using pq by (rule quotient_of_div)
  have p: "0 < p" using assms q by (simp add: r zero_less_divide_iff)
  define bp bq where "bp = bitlen p" and "bq = bitlen q"
  have b0: "1 \<le> bp" "1 \<le> bq" using p q
    unfolding bp_def bq_def by (metis bitlen_nonneg bitlen_eq_zero_iff linorder_not_le not_less zless_add1_eq add_0)+
  have pi: "2 ^ nat (bp - 1) \<le> p" "p < 2 ^ nat bp" and qi: "2 ^ nat (bq - 1) \<le> q" "q < 2 ^ nat bq"
    using bitlen_bounds [OF p] bitlen_bounds [OF q] by (auto simp: bp_def bq_def)
  have conv: "(2::rat) powi k = of_int (2 ^ nat k)" if "0 \<le> k" for k
    using that by (simp add: power_int_def)
  have pr: "(2::rat) powi (bp - 1) \<le> of_int p" "of_int p < (2::rat) powi bp"
    using pi b0 by (simp_all only: conv of_int_le_iff of_int_less_iff)
  have qr: "(2::rat) powi (bq - 1) \<le> of_int q" "of_int q < (2::rat) powi bq"
    using qi b0 by (simp_all only: conv of_int_le_iff of_int_less_iff)
  have lo: "2 powi (bp - bq - 1) \<le> r"
  proof -
    have "(2::rat) powi (bp - bq - 1) * of_int q \<le> 2 powi (bp - bq - 1) * 2 powi bq"
      using qr by simp
    also have "\<dots> = 2 powi (bp - 1)" by (simp flip: power_int_add)
    also have "\<dots> \<le> of_int p" by (rule pr)
    finally show ?thesis using q by (simp add: r field_simps)
  qed
  have hi: "r < 2 powi (bp - bq + 1)"
  proof -
    have "(of_int p :: rat) < 2 powi bp" by (rule pr)
    also have "(2::rat) powi bp = 2 powi (bp - bq + 1) * 2 powi (bq - 1)" by (simp flip: power_int_add)
    also have "\<dots> \<le> 2 powi (bp - bq + 1) * of_int q" using qr by simp
    finally show ?thesis using q by (simp add: r field_simps)
  qed
  have il: "ilog2 r = (if r < 2 powi (bp - bq) then bp - bq - 1 else bp - bq)"
    by (simp add: ilog2_def pq Let_def bp_def bq_def)
  show "2 powi ilog2 r \<le> r" "r < 2 powi (ilog2 r + 1)" using lo hi by (auto simp: il)
qed

lemma p2_less [simp]: "(2::rat) powi a < 2 powi b \<longleftrightarrow> a < b"
  by (metis linorder_neqE not_less_iff_gr_or_eq one_less_numeral_iff power_int_strict_increasing semiring_norm(76))

lemma p2_le [simp]: "(2::rat) powi a \<le> 2 powi b \<longleftrightarrow> a \<le> b"
  by (metis linorder_not_le p2_less)

lemma ilog2_unique:
  assumes "2 powi k \<le> r" "r < 2 powi (k + 1)"
  shows "ilog2 r = k"
proof -
  have "0 < r" using assms(1) by (meson less_le_trans zero_less_numeral zero_less_power_int)
  note b = ilog2_bounds [OF this]
  have "(2::rat) powi k < 2 powi (ilog2 r + 1)" "(2::rat) powi ilog2 r < 2 powi (k + 1)"
    using assms b by linarith+
  then have "k < ilog2 r + 1" "ilog2 r < k + 1" by (simp_all only: p2_less)
  then show ?thesis by simp
qed

lemma ilog2_less: "0 < r \<Longrightarrow> r < 2 powi k \<Longrightarrow> ilog2 r < k"
  using ilog2_bounds(1) [of r] by (metis le_less_trans p2_less)

lemma ilog2_ge: "2 powi k \<le> r \<Longrightarrow> k \<le> ilog2 r"
proof -
  assume k: "2 powi k \<le> r"
  then have "0 < r" by (meson less_le_trans zero_less_numeral zero_less_power_int)
  then have "2 powi k < (2::rat) powi (ilog2 r + 1)" using k ilog2_bounds(2) by (meson le_less_trans)
  then show ?thesis by (simp only: p2_less)
qed

lemma round_half_even_ge: "of_int n \<le> r \<Longrightarrow> n \<le> round_half_even r"
proof -
  assume "of_int n \<le> r"
  then have "n \<le> \<lfloor>r\<rfloor>" by (simp add: le_floor_iff)
  then show ?thesis by (auto simp: round_half_even_def Let_def)
qed

lemma round_half_even_le: "r \<le> of_int n \<Longrightarrow> round_half_even r \<le> n"
  by (simp add: round_half_even_def Let_def) linarith

lemma round_half_even_near: "\<bar>of_int (round_half_even r) - r\<bar> \<le> 1 / 2"
proof -
  have "of_int \<lfloor>r\<rfloor> \<le> r" "r < of_int \<lfloor>r\<rfloor> + 1" by linarith+
  then show ?thesis unfolding round_half_even_def Let_def abs_if by (simp split: if_split) linarith
qed

lemma round_half_even_int [simp]: "round_half_even (of_int n) = n"
  by (simp add: round_half_even_def Let_def)

lemma round64_exact:
  assumes "r = of_int m * 2 powi e" "\<bar>m\<bar> < 2 ^ 53" "- 1074 \<le> e" "\<bar>r\<bar> < overflow"
  shows "round64 r = Fin r"
proof (cases "r = 0")
  case False
  have "\<bar>r\<bar> < 2 ^ 53 * 2 powi e"
    using assms(2) by (simp add: assms(1) abs_mult flip: of_int_abs)
  also have "(2::rat) ^ 53 * 2 powi e = 2 powi (e + 53)"
    by (simp add: power_int_add)
  finally have "ilog2 \<bar>r\<bar> < e + 53" using False by (intro ilog2_less) auto
  then have q: "ulp_exp r \<le> e" using assms(3) by (simp add: ulp_exp_def)
  define n where "n = m * 2 ^ nat (e - ulp_exp r)"
  have n: "r / 2 powi ulp_exp r = of_int n"
  proof -
    have "(2::rat) ^ nat (e - ulp_exp r) = 2 powi (e - ulp_exp r)" using q by (simp add: power_int_def)
    then show ?thesis by (simp add: assms(1) n_def power_int_diff)
  qed
  then have v: "of_int n * 2 powi ulp_exp r = r" by (simp add: field_simps)
  have "n \<noteq> 0" using v False by auto
  moreover have "\<not> r \<le> - overflow" "\<not> overflow \<le> r" using assms(4) by (auto simp: abs_if split: if_splits)
  ultimately show ?thesis using False by (simp add: round64_def Let_def n v)
qed (simp add: round64_def)

lemma round64_int_exact: "\<bar>n\<bar> < 2 ^ 53 \<Longrightarrow> num_of_int n = Fin (of_int n)"
  unfolding num_of_int_def
proof (rule round64_exact [of _ n 0])
  assume n: "\<bar>n\<bar> < 2 ^ 53"
  have "\<bar>of_int n :: rat\<bar> < 2 ^ 53" using n by (simp flip: of_int_abs)
  also have "(2::rat) ^ 53 < overflow" by (simp add: overflow_def)
  finally show "\<bar>of_int n :: rat\<bar> < overflow" .
qed simp_all

text \<open>Rounding stays in the format: 53 bits, and below the overflow threshold.\<close>

lemma ulp_exp_bound: "r \<noteq> 0 \<Longrightarrow> \<bar>r / 2 powi ulp_exp r\<bar> < 2 ^ 53"
proof -
  assume "r \<noteq> 0"
  then have "\<bar>r\<bar> < 2 powi (ilog2 \<bar>r\<bar> + 1)" by (intro ilog2_bounds) simp
  also have "\<dots> \<le> 2 powi (ulp_exp r + 53)" by (simp add: ulp_exp_def)
  also have "\<dots> = 2 ^ 53 * 2 powi ulp_exp r" by (simp add: power_int_add)
  finally show ?thesis by (simp add: abs_divide field_simps)
qed

lemma round64_representable: "round64 r = Fin v \<Longrightarrow> representable v"
proof -
  assume v: "round64 r = Fin v"
  define q n where "q = ulp_exp r" and "n = round_half_even (r / 2 powi q)"
  show ?thesis
  proof (cases "v = 0")
    case True
    then show ?thesis unfolding representable_def by (intro exI [of _ 0]) (simp add: overflow_def)
  next
    case False
    then have r: "r \<noteq> 0" using v by (auto simp: round64_def)
    have vn: "v = of_int n * 2 powi q" "\<bar>v\<bar> < overflow"
      using v r False unfolding round64_def by (auto simp: Let_def q_def [symmetric] n_def [symmetric] split: if_splits)
    have q: "- 1074 \<le> q" by (simp add: q_def ulp_exp_def)
    have b: "\<bar>r / 2 powi q\<bar> < 2 ^ 53" unfolding q_def by (rule ulp_exp_bound [OF r])
    then have b': "r / 2 powi q \<le> of_int (2 ^ 53)" "of_int (- (2 ^ 53)) \<le> r / 2 powi q"
      by (simp_all only: abs_less_iff) (simp_all add: less_imp_le)
    have "n \<le> 2 ^ 53" unfolding n_def using b' by (intro round_half_even_le)
    moreover have "- (2 ^ 53) \<le> n" unfolding n_def using b' by (intro round_half_even_ge)
    ultimately consider "\<bar>n\<bar> < 2 ^ 53" | "n = 2 ^ 53" | "n = - (2 ^ 53)" by linarith
    then have "\<exists>m e. v = of_int m * 2 powi e \<and> \<bar>m\<bar> < 2 ^ 53 \<and> - 1074 \<le> e"
    proof cases
      case 1
      with vn(1) q show ?thesis by blast
    next
      case 2
      have "v = of_int (2 ^ 52) * 2 powi (q + 1)" unfolding vn(1) 2 by (simp add: power_int_add)
      moreover have "\<bar>2 ^ 52 :: int\<bar> < 2 ^ 53" by simp
      ultimately show ?thesis using q by fastforce
    next
      case 3
      have "v = of_int (- (2 ^ 52)) * 2 powi (q + 1)" unfolding vn(1) 3 by (simp add: power_int_add)
      moreover have "\<bar>- (2 ^ 52) :: int\<bar> < 2 ^ 53" by simp
      ultimately show ?thesis using q by fastforce
    qed
    then show ?thesis using vn(2) unfolding representable_def by blast
  qed
qed

lemma representable_round64: "representable r \<Longrightarrow> round64 r = Fin r"
  by (auto simp: representable_def intro: round64_exact)

lemma round64_large:
  assumes "2 ^ 53 \<le> \<bar>r\<bar>"
  shows "\<not> is_safe_integer (round64 r)"
proof -
  define q n where "q = ulp_exp r" and "n = round_half_even (r / 2 powi q)"
  have r: "r \<noteq> 0" using assms by auto
  have "(2::rat) powi 53 \<le> \<bar>r\<bar>" using assms by simp
  then have il: "53 \<le> ilog2 \<bar>r\<bar>" by (rule ilog2_ge)
  then have q: "q = ilog2 \<bar>r\<bar> - 52" by (simp add: q_def ulp_exp_def)
  have "(2::rat) ^ 52 * 2 powi q = 2 powi (ilog2 \<bar>r\<bar>)" by (simp add: q power_int_diff)
  also have "\<dots> \<le> \<bar>r\<bar>" using r by (intro ilog2_bounds) simp
  finally have x: "2 ^ 52 \<le> \<bar>r / 2 powi q\<bar>" by (simp add: abs_divide field_simps)
  have n: "2 ^ 52 \<le> \<bar>n\<bar>"
  proof (cases "0 \<le> r")
    case True
    then have "2 ^ 52 \<le> n" unfolding n_def using x by (intro round_half_even_ge) simp
    then show ?thesis by simp
  next
    case False
    then have "n \<le> - (2 ^ 52)" unfolding n_def using x
      by (intro round_half_even_le) (simp add: abs_if divide_less_0_iff split: if_splits)
    then show ?thesis by simp
  qed
  then have n0: "n \<noteq> 0" by auto
  have "(2::rat) ^ 53 = 2 ^ 52 * 2 powi 1" by simp
  also have "\<dots> \<le> of_int \<bar>n\<bar> * 2 powi q"
  proof (rule mult_mono)
    show "(2::rat) ^ 52 \<le> of_int \<bar>n\<bar>" using n by (metis of_int_le_iff of_int_numeral of_int_power)
    show "(2::rat) powi 1 \<le> 2 powi q" using il by (simp only: p2_le q)
  qed simp_all
  also have "\<dots> = \<bar>of_int n * 2 powi q\<bar>" by (simp add: abs_mult)
  finally have "\<not> \<bar>of_int n * 2 powi q\<bar> \<le> (of_int max_safe :: rat)" by (simp add: max_safe_def)
  then show ?thesis using r n0
    by (simp add: round64_def Let_def flip: q_def) (simp add: is_safe_integer_def flip: n_def)
qed

definition wf_num :: "jsnum \<Rightarrow> bool" where
  "wf_num x \<longleftrightarrow> (\<forall>r. x = Fin r \<longrightarrow> representable r)"

lemma wf_round64 [simp]: "wf_num (round64 r)"
  by (auto simp: wf_num_def intro: round64_representable)

lemma representable_uminus: "representable r \<Longrightarrow> representable (- r)"
proof -
  assume "representable r"
  then obtain m e where "r = of_int m * 2 powi e" "\<bar>m\<bar> < 2 ^ 53" "- 1074 \<le> e" "\<bar>r\<bar> < overflow"
    by (auto simp: representable_def)
  then show ?thesis unfolding representable_def
    by (intro exI [of _ "- m"] exI [of _ e]) (simp only: of_int_minus mult_minus_left abs_minus_cancel)
qed

lemma representable_0 [simp]: "representable 0"
  unfolding representable_def by (intro exI [of _ 0]) (simp add: overflow_def)

lemma wf_num_simps [simp]: "wf_num NaN" "wf_num PInf" "wf_num NInf" "wf_num NegZero"
  "wf_num (Fin r) \<longleftrightarrow> representable r"
  by (auto simp: wf_num_def)

lemma wf_num_uminus: "wf_num a \<Longrightarrow> wf_num (num_uminus a)"
  by (cases a) (auto intro: representable_uminus)

lemma wf_num_add: "wf_num a \<Longrightarrow> wf_num b \<Longrightarrow> wf_num (num_add a b)"
  by (cases a; cases b) auto

lemma wf_num_sub: "wf_num a \<Longrightarrow> wf_num b \<Longrightarrow> wf_num (num_sub a b)"
  by (simp add: num_sub_def wf_num_add wf_num_uminus)

lemma wf_num_mul: "wf_num (num_mul a b)"
  by (simp add: num_mul_def Let_def signed_inf_def signed_zero_def)

lemma wf_num_div: "wf_num (num_div a b)"
  by (simp add: num_div_def Let_def signed_inf_def signed_zero_def)

lemma num_uminus_uminus [simp]: "num_uminus (num_uminus a) = a"
  by (cases a) auto

lemma num_add_commute: "num_add a b = num_add b a"
  by (cases a; cases b) (simp_all add: add.commute)

subsection \<open>Signs\<close>

lemma round64_not_negative: "0 \<le> r \<Longrightarrow> \<not> num_negative (round64 r)"
proof -
  assume r: "0 \<le> r"
  have "0 \<le> round_half_even (r / 2 powi ulp_exp r)"
    using r by (auto simp: round_half_even_def Let_def)
  moreover have "(0::rat) < overflow" by (simp add: overflow_def)
  moreover define v where "v = of_int (round_half_even (r / 2 powi ulp_exp r)) * (2 powi ulp_exp r :: rat)"
  ultimately have "0 \<le> v" "0 < overflow" by (simp_all add: v_def)
  then have "0 \<le> v" "\<not> v \<le> - overflow" by linarith+
  then show ?thesis using r by (auto simp: round64_def Let_def v_def [symmetric])
qed

lemma num_val_nonneg: "\<not> num_negative x \<Longrightarrow> 0 \<le> num_val x"
  by (cases x) auto

lemma num_trunc_nonneg: "\<not> num_negative x \<Longrightarrow> 0 \<le> num_trunc x"
  by (cases x) (auto simp: num_trunc_def rat_trunc_def)

lemma num_mul_nonneg:
  assumes "\<not> num_negative x" "\<not> num_negative y"
  shows "\<not> num_negative (num_mul x y)"
  using assms round64_not_negative [of "num_val x * num_val y"] num_val_nonneg [of x] num_val_nonneg [of y]
  by (simp add: num_mul_def signed_inf_def signed_zero_def)

lemma num_div_nonneg:
  assumes "\<not> num_negative x" "\<not> num_negative y"
  shows "\<not> num_negative (num_div x y)"
  using assms round64_not_negative [of "num_val x / num_val y"] num_val_nonneg [of x] num_val_nonneg [of y]
  by (simp add: num_div_def signed_inf_def signed_zero_def)

end
