(* ===== verification/JS_String.thy ===== *)
theory JS_String
  imports JS_Prelude "HOL-Library.List_Lexorder"
begin

text \<open>
  JavaScript's strings: sequences of UTF-16 code units. Every method the sources call is a function
  on those lists; \<open>js\<close> makes a literal. \<open>Array.from\<close> and \<open>codePointAt\<close> read code points,
  pairing a high surrogate with the low one after it.
\<close>

type_synonym code_unit = "16 word"
type_synonym jstring = "code_unit list"

definition js :: "string \<Rightarrow> jstring" where
  "js s = map of_char s"

subsection \<open>Code points\<close>

definition is_high :: "code_unit \<Rightarrow> bool" where
  "is_high u \<longleftrightarrow> 0xD800 \<le> unat u \<and> unat u \<le> 0xDBFF"

definition is_low :: "code_unit \<Rightarrow> bool" where
  "is_low u \<longleftrightarrow> 0xDC00 \<le> unat u \<and> unat u \<le> 0xDFFF"

definition astral :: "code_unit \<Rightarrow> code_unit \<Rightarrow> nat" where
  "astral u v = 0x10000 + (unat u - 0xD800) * 0x400 + (unat v - 0xDC00)"

text \<open>\<open>s.codePointAt(0)\<close>, for a non-empty \<open>s\<close>.\<close>

fun code_point_at0 :: "jstring \<Rightarrow> nat" where
  "code_point_at0 [] = 0"
| "code_point_at0 [u] = unat u"
| "code_point_at0 (u # v # us) = (if is_high u \<and> is_low v then astral u v else unat u)"

text \<open>\<open>Array.from(s)\<close>: one string per code point.\<close>

fun array_from :: "jstring \<Rightarrow> jstring list" where
  "array_from [] = []"
| "array_from [u] = [[u]]"
| "array_from (u # v # us) =
     (if is_high u \<and> is_low v then [u, v] # array_from us else [u] # array_from (v # us))"

definition code_points :: "jstring \<Rightarrow> nat list" where
  "code_points s = map code_point_at0 (array_from s)"

lemma code_points_simps [simp]:
  "code_points [] = []"
  "code_points [u] = [unat u]"
  "code_points (u # v # us) =
     (if is_high u \<and> is_low v then astral u v # code_points us else unat u # code_points (v # us))"
  by (simp_all add: code_points_def)

lemma concat_array_from [simp]: "concat (array_from s) = s"
  by (induction s rule: array_from.induct) auto

lemma array_from_nonempty: "x \<in> set (array_from s) \<Longrightarrow> x \<noteq> []"
  by (induction s rule: array_from.induct) (auto split: if_splits)

lemma unat16: "unat (u :: 16 word) < 65536"
  using unsigned_less [of u] by simp

lemma astral_range: "is_high u \<Longrightarrow> is_low v \<Longrightarrow> 65535 < astral u v \<and> astral u v < 1114112"
  unfolding is_high_def is_low_def astral_def by linarith

lemma radix_inject:
  fixes h l h' l' :: nat
  assumes "h * b + l = h' * b + l'" "l < b" "l' < b"
  shows "h = h' \<and> l = l'"
proof -
  have "(h * b + l) div b = h" "(h' * b + l') div b = h'" using assms(2,3) by simp_all
  then show ?thesis using assms(1) by simp
qed

lemma astral_inject:
  assumes "is_high u" "is_low v" "is_high u'" "is_low v'" "astral u v = astral u' v'"
  shows "u = u' \<and> v = v'"
proof -
  have "unat v - 0xDC00 < 1024" "unat v' - 0xDC00 < 1024"
    using assms unfolding is_low_def by linarith+
  moreover have "(unat u - 0xD800) * 1024 + (unat v - 0xDC00) = (unat u' - 0xD800) * 1024 + (unat v' - 0xDC00)"
    using assms(5) by (simp add: astral_def)
  ultimately have "unat u - 0xD800 = unat u' - 0xD800" "unat v - 0xDC00 = unat v' - 0xDC00"
    by (blast dest: radix_inject)+
  then have "unat u = unat u'" "unat v = unat v'"
    using assms unfolding is_high_def is_low_def by linarith+
  then show ?thesis by (simp add: word_unat_eq_iff)
qed

lemma code_points_range: "x \<in> set (code_points s) \<Longrightarrow> x < 1114112"
  by (induction s rule: array_from.induct)
    (auto simp: astral_range split: if_splits intro: less_trans [OF unat16])

text \<open>Decoding loses nothing: two strings with the same code points are equal.\<close>

lemma code_points_Cons_unit:
  "code_points (u # us) = x # xs \<Longrightarrow> x < 65536 \<Longrightarrow> x = unat u \<and> xs = code_points us"
  by (cases us) (auto split: if_splits dest: astral_range)

lemma code_points_Cons_astral:
  "code_points (u # us) = x # xs \<Longrightarrow> 65535 < x \<Longrightarrow>
     \<exists>v ws. us = v # ws \<and> is_high u \<and> is_low v \<and> x = astral u v \<and> xs = code_points ws"
  using unat16 [of u] by (cases us) (auto split: if_splits)

lemma code_points_eq_Nil [simp]: "code_points s = [] \<longleftrightarrow> s = []"
  by (cases s rule: array_from.cases) auto

lemma code_points_inject: "code_points s = code_points t \<longleftrightarrow> s = t"
proof
  show "code_points s = code_points t \<Longrightarrow> s = t"
  proof (induction "length s" arbitrary: s t rule: less_induct)
    case less
    show ?case
    proof (cases s)
      case Nil
      then show ?thesis using less.prems by (metis code_points_eq_Nil)
    next
      case (Cons u us)
      then obtain x xs where x: "code_points s = x # xs" by (metis code_points_eq_Nil list.exhaust list.distinct(1))
      then obtain u' us' where t: "t = u' # us'" using less.prems by (cases t) auto
      show ?thesis
      proof (cases "x < 65536")
        case True
        then have "x = unat u \<and> xs = code_points us" "x = unat u' \<and> xs = code_points us'"
          using x less.prems code_points_Cons_unit unfolding Cons t by metis+
        then show ?thesis using less.hyps [of us us'] Cons t by (simp add: word_unat_eq_iff)
      next
        case False
        then have big: "65535 < x" by simp
        obtain v ws where 1: "us = v # ws" "is_high u" "is_low v" "x = astral u v" "xs = code_points ws"
          using code_points_Cons_astral [OF x [unfolded Cons] big] by blast
        obtain v' ws' where 2: "us' = v' # ws'" "is_high u'" "is_low v'" "x = astral u' v'" "xs = code_points ws'"
          using code_points_Cons_astral [OF x [unfolded less.prems t] big] by blast
        have "u = u' \<and> v = v'" using 1 2 astral_inject by metis
        moreover have "ws = ws'" using less.hyps [of ws ws'] 1 2 Cons by simp
        ultimately show ?thesis using 1 2 Cons t by simp
      qed
    qed
  qed
qed simp

lemma code_point_at0_Cons: "code_points (u # us) = code_point_at0 (u # us) #
    code_points (drop (if 0xffff < code_point_at0 (u # us) then 2 else 1) (u # us))"
  using unat16 [of u] by (cases us) (auto dest: astral_range)

subsection \<open>Splitting and searching\<close>

text \<open>\<open>s.split(sep)\<close> for a non-empty separator: leftmost occurrences, \<open>cur\<close> the piece so far.\<close>

function split_loop :: "jstring \<Rightarrow> jstring \<Rightarrow> jstring \<Rightarrow> jstring list" where
  "split_loop sep cur [] = [cur]"
| "split_loop sep cur (c # cs) =
     (if sep \<noteq> [] \<and> prefix sep (c # cs)
      then cur # split_loop sep [] (drop (length sep) (c # cs))
      else split_loop sep (cur @ [c]) cs)"
  by pat_completeness auto
termination
  by (relation "measure (\<lambda>(sep, cur, s). length s)") auto

definition js_split :: "jstring \<Rightarrow> jstring \<Rightarrow> jstring list" where
  "js_split sep s = split_loop sep [] s"

fun js_join :: "jstring \<Rightarrow> jstring list \<Rightarrow> jstring" where
  "js_join sep [] = []"
| "js_join sep [p] = p"
| "js_join sep (p # q # ps) = p @ sep @ js_join sep (q # ps)"

lemma split_loop_nonempty [simp]: "split_loop sep cur s \<noteq> []"
  by (induction sep cur s rule: split_loop.induct) auto

lemma join_split_loop: "js_join sep (split_loop sep cur s) = cur @ s"
proof (induction sep cur s rule: split_loop.induct)
  case (2 sep cur c cs)
  show ?case
  proof (cases "sep \<noteq> [] \<and> prefix sep (c # cs)")
    case True
    then obtain zs where zs: "c # cs = sep @ zs" by (auto elim: prefixE)
    obtain q qs where q: "split_loop sep [] (drop (length sep) (c # cs)) = q # qs"
      by (meson list.exhaust split_loop_nonempty)
    have "split_loop sep cur (c # cs) = cur # q # qs" using True q by simp
    moreover have "js_join sep (q # qs) = zs" using 2(1) [OF True] zs q by simp
    ultimately show ?thesis using zs by simp
  next
    case False
    then show ?thesis using 2(2) [OF False] by auto
  qed
qed simp

lemma join_split: "js_join sep (js_split sep s) = s"
  by (simp add: js_split_def join_split_loop)

lemma split_loop_single:
  "split_loop [d] cur s = (cur @ takeWhile (\<lambda>c. c \<noteq> d) s) #
     (case dropWhile (\<lambda>c. c \<noteq> d) s of [] \<Rightarrow> [] | _ # r \<Rightarrow> split_loop [d] [] r)"
  by (induction s arbitrary: cur) auto

lemma js_split_hd: "hd (js_split [d] s) = takeWhile (\<lambda>c. c \<noteq> d) s"
  unfolding js_split_def by (subst split_loop_single) simp

lemma js_split_nonempty [simp]: "js_split sep s \<noteq> []"
  by (simp add: js_split_def)

definition dot :: code_unit where "dot = 46"

text \<open>\<open>value.replace(/[a-z]/g, ...)\<close>: the 26 ASCII letters folded, every other code unit kept.\<close>

definition upper_ascii :: "jstring \<Rightarrow> jstring" where
  "upper_ascii s = map (\<lambda>c. if 97 \<le> unat c \<and> unat c \<le> 122 then c - 32 else c) s"

subsection \<open>Decimal digits\<close>

definition is_digit :: "code_unit \<Rightarrow> bool" where
  "is_digit c \<longleftrightarrow> 48 \<le> unat c \<and> unat c \<le> 57"

definition digit_val :: "code_unit \<Rightarrow> nat" where
  "digit_val c = unat c - 48"

definition digits_val :: "jstring \<Rightarrow> nat" where
  "digits_val s = foldl (\<lambda>n c. 10 * n + digit_val c) 0 s"

definition digit_char :: "nat \<Rightarrow> code_unit" where
  "digit_char d = of_nat (48 + d)"

fun nat_to_string :: "nat \<Rightarrow> jstring" where
  "nat_to_string n = (if n < 10 then [digit_char n] else nat_to_string (n div 10) @ [digit_char (n mod 10)])"

declare nat_to_string.simps [simp del]

text \<open>\<open>n.toString()\<close> of a bigint.\<close>

definition int_to_string :: "int \<Rightarrow> jstring" where
  "int_to_string n = (if n < 0 then 45 # nat_to_string (nat (- n)) else nat_to_string (nat n))"

lemma unat_digit_char: "d < 10 \<Longrightarrow> unat (digit_char d) = 48 + d"
  unfolding digit_char_def by (subst unat_of_nat) simp

lemma digit_char_digit [simp]: "d < 10 \<Longrightarrow> is_digit (digit_char d)"
  by (simp add: is_digit_def unat_digit_char)

lemma digit_val_char [simp]: "d < 10 \<Longrightarrow> digit_val (digit_char d) = d"
  by (simp add: digit_val_def unat_digit_char)

lemma digits_val_snoc: "digits_val (s @ [c]) = 10 * digits_val s + digit_val c"
  by (simp add: digits_val_def)

lemma digits_val_Nil [simp]: "digits_val [] = 0"
  by (simp add: digits_val_def)

lemma nat_to_string_digits: "c \<in> set (nat_to_string n) \<Longrightarrow> is_digit c"
proof (induction n rule: nat_to_string.induct)
  case (1 n)
  then show ?case by (subst (asm) nat_to_string.simps) (auto split: if_splits)
qed

lemma nat_to_string_nonempty [simp]: "nat_to_string n \<noteq> []"
  by (subst nat_to_string.simps) simp

lemma digits_val_to_string [simp]: "digits_val (nat_to_string n) = n"
proof (induction n rule: nat_to_string.induct)
  case (1 n)
  show ?case
  proof (cases "n < 10")
    case True
    then show ?thesis by (subst nat_to_string.simps) (simp add: digits_val_def)
  next
    case False
    then show ?thesis using 1 by (subst nat_to_string.simps) (simp add: digits_val_snoc)
  qed
qed

lemma digits_val_fold: "foldl (\<lambda>n c. 10 * n + digit_val c) w s = w * 10 ^ length s + digits_val s"
proof (induction s arbitrary: w)
  case (Cons c s)
  have "digits_val (c # s) = digit_val c * 10 ^ length s + digits_val s"
    using Cons.IH [of "digit_val c"] by (simp add: digits_val_def)
  then show ?case using Cons.IH [of "10 * w + digit_val c"] by (simp add: algebra_simps)
qed simp

lemma digits_val_Cons: "digits_val (c # s) = digit_val c * 10 ^ length s + digits_val s"
  using digits_val_fold [of "digit_val c" s] by (simp add: digits_val_def)

subsection \<open>Substrings\<close>

definition startsWith :: "jstring \<Rightarrow> jstring \<Rightarrow> bool" where
  "startsWith s p \<longleftrightarrow> prefix p s"

definition endsWith :: "jstring \<Rightarrow> jstring \<Rightarrow> bool" where
  "endsWith s p \<longleftrightarrow> suffix p s"

fun js_includes :: "jstring \<Rightarrow> jstring \<Rightarrow> bool" where
  "js_includes [] p = (p = [])"
| "js_includes (c # s) p = (prefix p (c # s) \<or> js_includes s p)"

lemma js_includes_iff: "js_includes s p \<longleftrightarrow> (\<exists>u v. s = u @ p @ v)"
proof (induction s)
  case (Cons c s)
  have "(\<exists>u v. c # s = u @ p @ v) \<longleftrightarrow> prefix p (c # s) \<or> (\<exists>u v. s = u @ p @ v)"
    by (auto simp: prefix_def Cons_eq_append_conv)
  then show ?case using Cons.IH by simp
qed simp

end
