(* ===== verification/JS_Value.thy ===== *)
theory JS_Value
  imports JS_Number JS_String
begin

text \<open>
  The values the evaluators pass around (\<open>unknown\<close> in the sources), the plan a Cerbos client hands
  to an adapter, and the property access both share. A record is the list of its own properties in
  the order \<open>Object.keys\<close> enumerates them. Reference identity of arrays and records is not modelled:
  no source mutates one it did not just build, and only \<open>Object.is\<close> could tell two copies apart.
\<close>

datatype jsval =
    VError                               \<comment> \<open>the symbol \<open>EVALUATION_ERROR\<close>\<close>
  | VNull
  | VBool bool
  | VNum jsnum
  | VBig int                             \<comment> \<open>a \<open>bigint\<close>\<close>
  | VStr jstring
  | VArr "jsval list"
  | VObj "(jstring \<times> jsval) list"       \<comment> \<open>a plain object\<close>
  | VDur int                             \<comment> \<open>\<open>CelDuration\<close>, in nanoseconds\<close>
  | VTime int                            \<comment> \<open>\<open>CelTimestamp\<close> (chromadb only), in nanoseconds\<close>
  | VHier "jstring list"                 \<comment> \<open>\<open>Hierarchy\<close> / \<open>CelHierarchy\<close>\<close>

abbreviation VInt :: "int \<Rightarrow> jsval" where
  "VInt n \<equiv> VNum (Fin (of_int n))"

text \<open>
  \<open>PlanExpressionOperand\<close>: the three operand shapes are disjoint, told apart by the property they
  carry (\<open>value\<close>, \<open>name\<close>, \<open>operator\<close>); \<open>Malformed\<close> is an object with none of them.
\<close>

datatype operand =
    Value jsval
  | Variable jstring
  | Expression string "operand list"
  | Malformed

fun isValue :: "operand \<Rightarrow> bool" where "isValue (Value _) = True" | "isValue _ = False"
fun isVariable :: "operand \<Rightarrow> bool" where "isVariable (Variable _) = True" | "isVariable _ = False"
fun isExpression :: "operand \<Rightarrow> bool" where "isExpression (Expression _ _) = True" | "isExpression _ = False"

fun subOperands :: "operand \<Rightarrow> operand list" where
  "subOperands (Expression _ args) = args"
| "subOperands _ = []"

datatype plan =
    AlwaysAllowed
  | AlwaysDenied
  | Conditional operand
  | UnknownKind

lemma size_operand_member: "x \<in> set args \<Longrightarrow> size x < size (Expression op args)"
  by (simp add: size_list_member_less [of x args size, simplified] less_Suc_eq_le size_list_member)

lemma size_sub_operand: "x \<in> set (subOperands y) \<Longrightarrow> size x < size y"
  by (cases y) (auto dest: size_operand_member)

subsection \<open>Records\<close>

text \<open>
  Own properties are enumerated array indices first, ascending, then the rest in insertion order;
  writing a fresh property keeps that order.
\<close>

definition index_key :: "jstring \<Rightarrow> nat option" where
  "index_key k = (if k \<noteq> [] \<and> list_all is_digit k \<and> nat_to_string (digits_val k) = k
                     \<and> digits_val k < 2 ^ 32 - 1
                  then Some (digits_val k) else None)"

fun insert_index :: "nat \<Rightarrow> jstring \<times> 'a \<Rightarrow> (jstring \<times> 'a) list \<Rightarrow> (jstring \<times> 'a) list" where
  "insert_index i kv [] = [kv]"
| "insert_index i kv ((k, v) # xs) =
     (case index_key k of
        Some j \<Rightarrow> if j < i then (k, v) # insert_index i kv xs else kv # (k, v) # xs
      | None \<Rightarrow> kv # (k, v) # xs)"

text \<open>\<open>obj[k] = v\<close> for a key \<open>obj\<close> does not have.\<close>

definition add_property :: "jstring \<Rightarrow> 'a \<Rightarrow> (jstring \<times> 'a) list \<Rightarrow> (jstring \<times> 'a) list" where
  "add_property k v xs = (case index_key k of Some i \<Rightarrow> insert_index i (k, v) xs | None \<Rightarrow> xs @ [(k, v)])"

lemma set_insert_index [simp]: "set (insert_index i kv xs) = insert kv (set xs)"
  by (induction i kv xs rule: insert_index.induct) (auto split: option.splits)

lemma set_add_property [simp]: "set (add_property k v xs) = insert (k, v) (set xs)"
  by (auto simp: add_property_def split: option.splits)

lemma distinct_insert_index:
  "fst kv \<notin> fst ` set xs \<Longrightarrow> distinct (map fst xs) \<Longrightarrow> distinct (map fst (insert_index i kv xs))"
  by (induction i kv xs rule: insert_index.induct) (auto split: option.splits)

lemma distinct_add_property:
  "k \<notin> fst ` set xs \<Longrightarrow> distinct (map fst xs) \<Longrightarrow> distinct (map fst (add_property k v xs))"
  by (auto simp: add_property_def distinct_insert_index split: option.splits)

text \<open>A record the adapter can meet: its keys are distinct, at every level.\<close>

fun wf_val :: "jsval \<Rightarrow> bool" where
  "wf_val (VArr xs) = list_all wf_val xs"
| "wf_val (VObj kvs) = (distinct (map fst kvs) \<and> list_all (\<lambda>(k, v). wf_val v) kvs)"
| "wf_val _ = True"

text \<open>No \<open>NaN\<close> at any level: JSON has none.\<close>

fun nan_free :: "jsval \<Rightarrow> bool" where
  "nan_free (VNum x) = (\<not> is_nan x)"
| "nan_free (VArr xs) = list_all nan_free xs"
| "nan_free (VObj kvs) = list_all (\<lambda>(k, v). nan_free v) kvs"
| "nan_free _ = True"

text \<open>
  What \<open>JSON.stringify\<close> writes: no symbol, no bigint, no instance of the evaluators' own classes, no
  \<open>NaN\<close> or infinity, and no negative zero.
\<close>

fun json :: "jsval \<Rightarrow> bool" where
  "json VNull = True"
| "json (VBool _) = True"
| "json (VNum x) = (is_finite x \<and> x \<noteq> NegZero)"
| "json (VStr _) = True"
| "json (VArr xs) = list_all json xs"
| "json (VObj kvs) = (distinct (map fst kvs) \<and> list_all (\<lambda>(k, v). json v) kvs)"
| "json _ = False"

lemma json_nan_free: "json v \<Longrightarrow> nan_free v"
proof (induction v rule: json.induct)
  case (3 x)
  then show ?case by (cases x) auto
qed (auto simp: list_all_iff)

lemma json_wf: "json v \<Longrightarrow> wf_val v"
  by (induction v rule: json.induct) (auto simp: list_all_iff)

lemma json_not_error [simp]: "json v \<Longrightarrow> v \<noteq> VError"
  by auto

end
