(* ===== verification/Convex_Cel.thy ===== *)
theory Convex_Cel
  imports JS_Value
begin

text \<open>
  convex/src/cel.ts, first part: the evaluation error, equality and ordering of CEL values, the
  code-point order of strings, and hierarchies. Every function is total: a value CEL would raise on
  comes back as \<open>VError\<close>.
\<close>

datatype cmp_op = Eq | Ne | Lt | Le | Gt | Ge

definition isEvaluationError :: "jsval \<Rightarrow> bool" where
  "isEvaluationError v \<longleftrightarrow> v = VError"

fun asBoolean :: "jsval \<Rightarrow> jsval" where
  "asBoolean (VBool b) = VBool b"
| "asBoolean _ = VError"

fun isRecord :: "jsval \<Rightarrow> bool" where
  "isRecord (VObj _) = True"
| "isRecord _ = False"

text \<open>Reads a dotted path; an absent key at any level is CEL's missing-attribute error.\<close>

fun read_parts :: "jsval \<Rightarrow> jstring list \<Rightarrow> jsval" where
  "read_parts current [] = current"
| "read_parts (VObj kvs) (part # parts) =
     (case map_of kvs part of Some v \<Rightarrow> read_parts v parts | None \<Rightarrow> VError)"
| "read_parts _ (part # parts) = VError"

definition getNestedValue :: "jsval \<Rightarrow> jstring \<Rightarrow> jsval" where
  "getNestedValue obj path = read_parts obj (js_split [dot] path)"

subsection \<open>Hierarchies\<close>

definition isSegmentPrefix :: "jstring list \<Rightarrow> jstring list \<Rightarrow> bool" where
  "isSegmentPrefix prefix_of of_segments =
     list_all (\<lambda>(index, segment). nth_opt of_segments index = Some segment) (enumerate 0 prefix_of)"

definition splitHierarchy :: "jstring \<Rightarrow> jstring \<Rightarrow> jstring list" where
  "splitHierarchy val delimiter = (if delimiter = [] then array_from val else js_split delimiter val)"

definition isStrictAncestor :: "jstring list \<Rightarrow> jstring list \<Rightarrow> bool" where
  "isStrictAncestor ancestor descendent \<longleftrightarrow>
     length descendent > length ancestor \<and> isSegmentPrefix ancestor descendent"

definition hierarchiesOverlap :: "jstring list \<Rightarrow> jstring list \<Rightarrow> bool" where
  "hierarchiesOverlap left right =
     (if length left \<le> length right then isSegmentPrefix left right else isSegmentPrefix right left)"

subsection \<open>Equality\<close>

text \<open>
  A number or a bigint as the exact value JavaScript compares: a bigint and a number compare
  mathematically, with no rounding.
\<close>

fun isNumeric :: "jsval \<Rightarrow> bool" where
  "isNumeric (VNum _) = True"
| "isNumeric (VBig _) = True"
| "isNumeric _ = False"

fun exact :: "jsval \<Rightarrow> jsnum" where
  "exact (VNum x) = x"
| "exact (VBig n) = Fin (of_int n)"
| "exact _ = NaN"

text \<open>
  The comparison of two values of which the left is no hierarchy, duration, array or record:
  numbers exactly, anything else by \<open>Object.is\<close>.
\<close>

definition scalarEqual :: "jsval \<Rightarrow> jsval \<Rightarrow> bool" where
  "scalarEqual l r =
     (if isNumeric l \<and> isNumeric r
      then \<not> is_nan (exact l) \<and> \<not> is_nan (exact r) \<and>
           \<not> (num_lt (exact l) (exact r) \<or> num_lt (exact r) (exact l))
      else l = r)"

fun valuesEqual :: "jsval \<Rightarrow> jsval \<Rightarrow> bool" where
  "valuesEqual (VHier l) right =
     (case right of VHier r \<Rightarrow> length l = length r \<and> isSegmentPrefix l r | _ \<Rightarrow> False)"
| "valuesEqual (VDur l) right = (case right of VDur r \<Rightarrow> l = r | _ \<Rightarrow> False)"
| "valuesEqual (VArr l) right =
     (case right of
        VArr r \<Rightarrow> length l = length r \<and> list_all (\<lambda>(a, b). valuesEqual a b) (zip l r)
      | _ \<Rightarrow> False)"
| "valuesEqual (VObj l) right =
     (case right of
        VObj r \<Rightarrow> sort (map fst l) = sort (map fst r) \<and>
          list_all (\<lambda>(k, v). case map_of r k of Some w \<Rightarrow> valuesEqual v w | None \<Rightarrow> False) l
      | _ \<Rightarrow> False)"
| "valuesEqual left right = scalarEqual left right"

subsection \<open>Ordering\<close>

text \<open>
  Negative, zero or positive as \<open>a\<close> orders before, with or after \<open>b\<close> by code point. The loop's two
  indices advance by one code point each, so the model recurses on the unread suffixes.
\<close>

function compareCodePoints :: "jstring \<Rightarrow> jstring \<Rightarrow> int" where
  "compareCodePoints a b =
     (if a = [] \<or> b = [] then of_bool (a \<noteq> []) - of_bool (b \<noteq> [])
      else let x = code_point_at0 a; y = code_point_at0 b
           in if x \<noteq> y then (if x < y then - 1 else 1)
              else compareCodePoints (drop (if 0xffff < x then 2 else 1) a)
                                     (drop (if 0xffff < y then 2 else 1) b))"
  by pat_completeness auto
termination
  by (relation "measure (\<lambda>(a, b). length a)") auto

declare compareCodePoints.simps [simp del]

definition bool_num :: "bool \<Rightarrow> jsnum" where
  "bool_num b = (if b then Fin 1 else Fin 0)"

text \<open>The pair \<open>(a, b)\<close> the final \<open>switch\<close> compares; \<open>None\<close> where CEL has no ordering.\<close>

definition ordering_keys :: "jsval \<Rightarrow> jsval \<Rightarrow> (jsnum \<times> jsnum) option" where
  "ordering_keys left right =
     (if isNumeric left \<and> isNumeric right then Some (exact left, exact right)
      else case left of
        VStr l \<Rightarrow>
          (case right of VStr r \<Rightarrow> Some (Fin (of_int (compareCodePoints l r)), Fin 0) | _ \<Rightarrow> None)
      | VBool l \<Rightarrow> (case right of VBool r \<Rightarrow> Some (bool_num l, bool_num r) | _ \<Rightarrow> None)
      | VDur l \<Rightarrow>
          (case right of VDur r \<Rightarrow> Some (Fin (of_int l), Fin (of_int r)) | _ \<Rightarrow> None)
      | _ \<Rightarrow> None)"

fun holds :: "cmp_op \<Rightarrow> jsnum \<Rightarrow> jsnum \<Rightarrow> bool" where
  "holds Lt a b = num_lt a b"
| "holds Le a b = num_le a b"
| "holds Gt a b = num_lt b a"
| "holds Ge a b = num_le b a"
| "holds Eq a b = False"
| "holds Ne a b = False"

fun isNaNValue :: "jsval \<Rightarrow> bool" where
  "isNaNValue (VNum x) = is_nan x"
| "isNaNValue _ = False"

definition compareValues :: "cmp_op \<Rightarrow> jsval \<Rightarrow> jsval \<Rightarrow> jsval" where
  "compareValues operator left right =
     (if isEvaluationError left \<or> isEvaluationError right then VError
      else if operator = Eq \<or> operator = Ne then
        (let equal = valuesEqual left right in VBool (if operator = Eq then equal else \<not> equal))
      else if isNaNValue left \<or> isNaNValue right then VBool False
      else case ordering_keys left right of
             None \<Rightarrow> VError
           | Some (a, b) \<Rightarrow> VBool (holds operator a b))"

subsection \<open>Verdicts\<close>

text \<open>What a value means as a condition.\<close>

fun verdict :: "jsval \<Rightarrow> truth" where
  "verdict (VBool b) = truth_of b"
| "verdict _ = EE"

fun of_truth :: "truth \<Rightarrow> jsval" where
  "of_truth TT = VBool True" | "of_truth FF = VBool False" | "of_truth EE = VError"

lemma verdict_of_truth [simp]: "verdict (of_truth t) = t"
  by (cases t) simp_all

lemma isEvaluationError_simps [simp]: "isEvaluationError VError" "\<not> isEvaluationError (VBool b)"
  by (simp_all add: isEvaluationError_def)

lemma asBoolean_verdict: "asBoolean v = of_truth (verdict v)"
  by (cases v) (auto simp: truth_of_def)

lemma of_truth_eq [simp]:
  "of_truth t = VBool b \<longleftrightarrow> t = truth_of b" "isEvaluationError (of_truth t) \<longleftrightarrow> t = EE"
  "of_truth t = VError \<longleftrightarrow> t = EE"
  by (cases t; cases b; simp add: isEvaluationError_def truth_of_def)+

subsection \<open>Facts about equality\<close>

lemma isSegmentPrefix_iff: "isSegmentPrefix p s \<longleftrightarrow> prefix p s"
proof -
  have "list_all (\<lambda>(i, x). nth_opt (s0 @ s) i = Some x) (enumerate (length s0) p) \<longleftrightarrow> prefix p s" for s0
  proof (induction p arbitrary: s0 s)
    case (Cons x p)
    show ?case
    proof (cases s)
      case (Cons y ys)
      have "nth_opt (s0 @ s) (length s0) = Some y" by (simp add: nth_opt_def Cons)
      moreover have "list_all (\<lambda>(i, x). nth_opt (s0 @ s) i = Some x) (enumerate (Suc (length s0)) p) \<longleftrightarrow> prefix p ys"
        using Cons.IH [of "s0 @ [y]" ys] by (simp add: Cons)
      ultimately show ?thesis by (auto simp: Cons)
    qed (simp add: nth_opt_def)
  qed simp
  from this [of "[]"] show ?thesis by (simp add: isSegmentPrefix_def)
qed

lemma valuesEqual_VHier [simp]: "valuesEqual (VHier a) (VHier b) \<longleftrightarrow> a = b"
  by (auto simp: isSegmentPrefix_iff elim: prefixE)

lemma valuesEqual_VArr: "valuesEqual (VArr xs) (VArr ys) \<longleftrightarrow> list_all2 valuesEqual xs ys"
  by (simp add: list_all2_iff list_all_iff)

lemma valuesEqual_refl: "wf_val v \<Longrightarrow> nan_free v \<Longrightarrow> valuesEqual v v"
proof (induction v rule: wf_val.induct)
  case (1 xs)
  then show ?case by (auto simp: valuesEqual_VArr list_all_iff list_all2_same simp del: valuesEqual.simps)
next
  case (2 kvs)
  then show ?case by (fastforce simp: list_all_iff)
qed (auto simp: scalarEqual_def isSegmentPrefix_iff)

lemma valuesEqual_numeric: "isNumeric l \<Longrightarrow> valuesEqual l r = scalarEqual l r"
  by (cases l) auto

lemma sort_keys_set: "sort (xs :: jstring list) = sort ys \<Longrightarrow> set xs = set ys"
  by (metis set_sort)

lemma valuesEqual_VObj_D:
  assumes "valuesEqual (VObj l) (VObj r)" "(k, v) \<in> set l"
  obtains w where "map_of r k = Some w" "valuesEqual v w"
  using assms by (fastforce simp: list_all_iff split: option.splits)

lemma valuesEqual_shape:
  "valuesEqual (VArr l) c \<Longrightarrow> \<exists>s. c = VArr s"
  "valuesEqual (VObj kvs) c \<Longrightarrow> \<exists>t. c = VObj t"
  by (auto split: jsval.splits)

lemma valuesEqual_sym: "valuesEqual l r \<Longrightarrow> wf_val l \<Longrightarrow> wf_val r \<Longrightarrow> valuesEqual r l"
proof (induction l r rule: valuesEqual.induct)
  case (3 l right)
  obtain r where right: "right = VArr r" using valuesEqual_shape(1) [OF 3(2)] by blast
  have eq: "list_all2 valuesEqual l r" using 3(2) unfolding right valuesEqual_VArr .
  then have len: "length l = length r" by (rule list_all2_lengthD)
  have "list_all2 valuesEqual r l"
  proof (rule list_all2_all_nthI)
    fix n assume n: "n < length r"
    then have "(l ! n, r ! n) \<in> set (zip l r)" using len by (auto simp: in_set_zip)
    from 3(1) [OF right this refl] show "valuesEqual (r ! n) (l ! n)"
      using eq n len 3(3,4) by (auto simp: right list_all2_conv_all_nth list_all_length)
  qed (simp add: len)
  then show ?case unfolding right valuesEqual_VArr .
next
  case (4 l right)
  obtain r where right: "right = VObj r" using valuesEqual_shape(2) [OF 4(2)] by blast
  have srt: "sort (map fst r) = sort (map fst l)" using 4(2) by (simp add: right)
  have keys: "set (map fst r) = set (map fst l)" by (rule sort_keys_set [OF srt])
  have "\<exists>v. map_of l k = Some v \<and> valuesEqual w v" if kw: "(k, w) \<in> set r" for k w
  proof -
    from kw keys have "k \<in> set (map fst l)" by force
    then obtain v where v: "map_of l k = Some v" "(k, v) \<in> set l"
      by (metis map_of_SomeD map_of_eq_None_iff not_Some_eq set_map)
    have w: "map_of r k = Some w" using kw 4(4) by (simp add: right)
    have "valuesEqual v w" using valuesEqual_VObj_D [OF 4(2) [unfolded right] v(2)] w by auto
    moreover have "wf_val v" "wf_val w" using 4(3,4) v(2) kw by (auto simp: right list_all_iff)
    ultimately show ?thesis using 4(1) [OF right v(2) refl w] v(1) by blast
  qed
  then show ?case using srt by (fastforce simp: right list_all_iff)
qed (auto simp: scalarEqual_def valuesEqual_numeric isSegmentPrefix_iff
      elim!: prefixE split: jsval.splits if_splits)

lemma scalarEqual_numeric: "scalarEqual l r \<Longrightarrow> isNumeric l = isNumeric r"
  by (auto simp: scalarEqual_def split: if_splits)

lemma scalarEqual_trans: "scalarEqual a b \<Longrightarrow> scalarEqual b c \<Longrightarrow> scalarEqual a c"
  using num_incomparable_trans [of "exact a" "exact b" "exact c"]
  by (auto simp: scalarEqual_def split: if_splits)

lemma scalarEqual_valuesEqual_trans:
  assumes "scalarEqual a b" "valuesEqual b c"
  shows "scalarEqual a c \<or> a = b"
proof (cases "isNumeric b")
  case True
  then show ?thesis using assms scalarEqual_trans valuesEqual_numeric by blast
next
  case False
  then show ?thesis using assms scalarEqual_numeric [OF assms(1)] by (simp add: scalarEqual_def)
qed

lemma valuesEqual_trans: "valuesEqual a b \<Longrightarrow> valuesEqual b c \<Longrightarrow> valuesEqual a c"
proof (induction a b arbitrary: c rule: valuesEqual.induct)
  case (3 l right)
  obtain r where right: "right = VArr r" using valuesEqual_shape(1) [OF 3(2)] by blast
  obtain s where c: "c = VArr s" using valuesEqual_shape(1) [OF 3(3) [unfolded right]] by blast
  have eq: "list_all2 valuesEqual l r" "list_all2 valuesEqual r s"
    using 3(2,3) unfolding right c valuesEqual_VArr .
  have "list_all2 valuesEqual l s"
  proof (rule list_all2_all_nthI)
    show len: "length l = length s" using eq [THEN list_all2_lengthD] by simp
    fix n assume n: "n < length l"
    have "(l ! n, r ! n) \<in> set (zip l r)" using n eq(1) [THEN list_all2_lengthD] by (metis in_set_zip fst_conv snd_conv)
    from 3(1) [OF right this refl] show "valuesEqual (l ! n) (s ! n)"
      using eq n len by (auto simp: list_all2_conv_all_nth)
  qed
  then show ?case unfolding c valuesEqual_VArr .
next
  case (4 l right)
  obtain r where right: "right = VObj r" using valuesEqual_shape(2) [OF 4(2)] by blast
  obtain s where c: "c = VObj s" using valuesEqual_shape(2) [OF 4(3) [unfolded right]] by blast
  have srt: "sort (map fst l) = sort (map fst s)" using 4(2,3) by (simp add: right c)
  have "\<exists>u. map_of s k = Some u \<and> valuesEqual v u" if kv: "(k, v) \<in> set l" for k v
  proof -
    obtain w where w: "map_of r k = Some w" "valuesEqual v w"
      using valuesEqual_VObj_D [OF 4(2) [unfolded right] kv] .
    obtain u where u: "map_of s k = Some u" "valuesEqual w u"
      using valuesEqual_VObj_D [OF 4(3) [unfolded right c] map_of_SomeD [OF w(1)]] .
    show ?thesis using 4(1) [OF right kv refl w(1) w(2) u(2)] u(1) by blast
  qed
  then show ?case using srt by (fastforce simp: c list_all_iff)
next
  case (1 l right)
  then show ?case by (auto simp: isSegmentPrefix_iff elim!: prefixE split: jsval.splits)
next
  case (2 l right)
  then show ?case by (auto split: jsval.splits)
qed (auto dest: scalarEqual_valuesEqual_trans)

subsection \<open>Facts about ordering\<close>

lemma Nil_less_code_points: "[] < code_points s \<longleftrightarrow> s \<noteq> []"
  by (cases "code_points s") auto

lemma compareCodePoints_spec:
  "compareCodePoints a b =
     (if code_points a < code_points b then - 1 else if code_points b < code_points a then 1 else 0)"
proof (induction a b rule: compareCodePoints.induct)
  case (1 a b)
  show ?case
  proof (cases "a = [] \<or> b = []")
    case True
    then show ?thesis by (subst compareCodePoints.simps) (auto simp: Nil_less_code_points dest: sym)
  next
    case False
    then obtain u us v vs where ab: "a = u # us" "b = v # vs" by (meson neq_Nil_conv)
    define x y where "x = code_point_at0 a" and "y = code_point_at0 b"
    define a' b' where "a' = drop (if 0xffff < x then 2 else 1) a" and "b' = drop (if 0xffff < y then 2 else 1) b"
    have cp: "code_points a = x # code_points a'" "code_points b = y # code_points b'"
      unfolding a'_def b'_def x_def y_def unfolding ab by (rule code_point_at0_Cons)+
    have eq: "compareCodePoints a b = (if x \<noteq> y then (if x < y then - 1 else 1) else compareCodePoints a' b')"
      using False by (subst compareCodePoints.simps) (simp add: Let_def x_def y_def a'_def b'_def)
    show ?thesis
    proof (cases "x = y")
      case True
      then show ?thesis using 1 [OF False x_def y_def] eq unfolding a'_def [symmetric] b'_def [symmetric] cp by simp
    next
      case neq: False
      then show ?thesis using eq unfolding cp by auto
    qed
  qed
qed

lemma compareCodePoints_less: "compareCodePoints a b < 0 \<longleftrightarrow> code_points a < code_points b"
  by (simp add: compareCodePoints_spec)

lemma compareCodePoints_zero: "compareCodePoints a b = 0 \<longleftrightarrow> a = b"
  unfolding compareCodePoints_spec by (metis code_points_inject less_irrefl linorder_neqE neg_equal_0_iff_equal zero_neq_one)

lemma compareCodePoints_flip: "compareCodePoints b a = - compareCodePoints a b"
  by (simp add: compareCodePoints_spec) (meson order_less_asym)

text \<open>The UTF-8 encoding of a code point, which is what cel-go compares byte by byte.\<close>

definition utf8 :: "nat \<Rightarrow> nat list" where
  "utf8 c =
     (if c < 0x80 then [c]
      else if c < 0x800 then [0xC0 + c div 64, 0x80 + c mod 64]
      else if c < 0x10000 then [0xE0 + c div 4096, 0x80 + c div 64 mod 64, 0x80 + c mod 64]
      else [0xF0 + c div 262144, 0x80 + c div 4096 mod 64, 0x80 + c div 64 mod 64, 0x80 + c mod 64])"

definition utf8_bytes :: "jstring \<Rightarrow> nat list" where
  "utf8_bytes s = concat (map utf8 (code_points s))"

lemma digit_split:
  "x < y \<Longrightarrow> x div m < y div m \<or> x div m = y div m \<and> x mod m < y mod (m :: nat)"
  by (metis add_less_cancel_left div_le_mono div_mult_mod_eq le_neq_implies_less less_imp_le)

lemma utf8_less:
  assumes "x < y" "y < 1114112"
  shows "utf8 x @ p < utf8 y @ q"
proof -
  define x1 y1 x2 y2 where d: "x1 = x div 64" "y1 = y div 64" "x2 = x1 div 64" "y2 = y1 div 64"
  define x3 y3 where d3: "x3 = x2 div 64" "y3 = y2 div 64"
  have e: "x div 4096 = x2" "y div 4096 = y2" "x div 262144 = x3" "y div 262144 = y3"
    by (simp_all add: d d3 div_mult2_eq [symmetric])
  have s1: "x1 < y1 \<or> x1 = y1 \<and> x mod 64 < y mod 64" unfolding d by (rule digit_split [OF assms(1)])
  have s2: "x1 < y1 \<Longrightarrow> x2 < y2 \<or> x2 = y2 \<and> x1 mod 64 < y1 mod 64" unfolding d by (rule digit_split)
  have s3: "x2 < y2 \<Longrightarrow> x3 < y3 \<or> x3 = y3 \<and> x2 mod 64 < y2 mod 64" unfolding d3 by (rule digit_split)
  have eq: "x1 = y1 \<Longrightarrow> x2 = y2" "x2 = y2 \<Longrightarrow> x3 = y3" by (simp_all add: d(3,4) d3)
  have lo: "x < 0x800 \<Longrightarrow> x1 < 32" "x < 0x10000 \<Longrightarrow> x2 < 16" by (simp_all add: d)
  have m: "x1 mod 64 = x div 64 mod 64" "y1 mod 64 = y div 64 mod 64"
    "x2 mod 64 = x div 4096 mod 64" "y2 mod 64 = y div 4096 mod 64" by (simp_all only: d e)
  consider (one) "x < 0x80" | (two) "0x80 \<le> x" "x < 0x800" | (three) "0x800 \<le> x" "x < 0x10000"
    | (four) "0x10000 \<le> x" by linarith
  then show ?thesis
  proof cases
    case one
    then show ?thesis using assms(1) by (simp add: utf8_def)
  next
    case two
    then show ?thesis using assms(1) lo s1 by (cases "y < 0x800") (auto simp: utf8_def simp flip: d)
  next
    case three
    then have ux: "utf8 x = [0xE0 + x2, 0x80 + x1 mod 64, 0x80 + x mod 64]"
      unfolding m by (simp add: utf8_def e)
    show ?thesis
    proof (cases "y < 0x10000")
      case True
      then have uy: "utf8 y = [0xE0 + y2, 0x80 + y1 mod 64, 0x80 + y mod 64]"
        unfolding m using three assms(1) by (simp add: utf8_def e)
      show ?thesis unfolding ux uy using s1 s2 eq by auto
    next
      case False
      then have "utf8 y = [0xF0 + y3, 0x80 + y2 mod 64, 0x80 + y1 mod 64, 0x80 + y mod 64]"
        unfolding m by (simp add: utf8_def e)
      then show ?thesis unfolding ux using lo(2) three by simp
    qed
  next
    case four
    then have ux: "utf8 x = [0xF0 + x3, 0x80 + x2 mod 64, 0x80 + x1 mod 64, 0x80 + x mod 64]"
      and uy: "utf8 y = [0xF0 + y3, 0x80 + y2 mod 64, 0x80 + y1 mod 64, 0x80 + y mod 64]"
      unfolding m using assms(1) by (simp_all add: utf8_def e)
    show ?thesis unfolding ux uy using s1 s2 s3 eq by auto
  qed
qed

lemma append_less_cancel: "u @ p < u @ q \<longleftrightarrow> p < (q :: nat list)"
  by (induction u) auto

lemma utf8_nonempty [simp]: "utf8 x \<noteq> []"
  by (simp add: utf8_def)

lemma utf8_list_less:
  "xs < ys \<Longrightarrow> \<forall>y \<in> set ys. y < 1114112 \<Longrightarrow> concat (map utf8 xs) < concat (map utf8 ys)"
proof (induction xs arbitrary: ys)
  case Nil
  then obtain y zs where "ys = y # zs" by (cases ys) auto
  then show ?case by (cases "utf8 y") auto
next
  case (Cons x xs)
  then obtain y zs where ys: "ys = y # zs" by (cases ys) auto
  then consider "x < y" | "x = y" "xs < zs" using Cons.prems(1) by auto
  then show ?case
  proof cases
    case 1
    then show ?thesis using Cons.prems(2) ys by (auto intro: utf8_less)
  next
    case 2
    then show ?thesis using Cons ys by (simp add: append_less_cancel)
  qed
qed

lemma utf8_bytes_less: "utf8_bytes a < utf8_bytes b \<longleftrightarrow> code_points a < code_points b"
proof
  have le: "code_points a < code_points b \<Longrightarrow> utf8_bytes a < utf8_bytes b" for a b
    unfolding utf8_bytes_def by (rule utf8_list_less) (auto dest: code_points_range)
  show "code_points a < code_points b \<Longrightarrow> utf8_bytes a < utf8_bytes b" by (rule le)
  assume l: "utf8_bytes a < utf8_bytes b"
  show "code_points a < code_points b"
  proof (rule ccontr)
    assume "\<not> code_points a < code_points b"
    then have "code_points b < code_points a \<or> utf8_bytes a = utf8_bytes b"
      unfolding utf8_bytes_def by (metis linorder_neqE)
    then show False using l le [of b a] by auto
  qed
qed



text \<open>C20. The order of strings is the one cel-go uses: \<open>compareCodePoints\<close> is negative exactly when
  the UTF-8 bytes of its first argument come first, zero exactly on equal strings, and changes its
  sign when its arguments are exchanged.\<close>

theorem compareCodePoints_is_utf8_order:
  "(compareCodePoints a b < 0) = (utf8_bytes a < utf8_bytes b) \<and>
   (compareCodePoints a b = 0) = (a = b) \<and> compareCodePoints b a = - compareCodePoints a b"
  by (intro conjI compareCodePoints_flip) (simp_all only: compareCodePoints_less utf8_bytes_less compareCodePoints_zero)

lemma ordering_keysE:
  assumes "ordering_keys l r = Some (a, b)"
  obtains (num) "isNumeric l" "isNumeric r" "a = exact l" "b = exact r"
  | (str) s t where "l = VStr s" "r = VStr t" "a = Fin (of_int (compareCodePoints s t))" "b = Fin 0"
  | (bool) x y where "l = VBool x" "r = VBool y" "a = bool_num x" "b = bool_num y"
  | (dur) m n where "l = VDur m" "r = VDur n" "a = Fin (of_int m)" "b = Fin (of_int n)"
proof (cases "isNumeric l \<and> isNumeric r")
  case True
  then show ?thesis using assms num by (simp add: ordering_keys_def)
next
  case False
  then consider x where "l = VStr x" | x where "l = VBool x" | x where "l = VDur x"
    using assms by (cases l) (auto simp: ordering_keys_def)
  then show ?thesis
  proof cases
    case 1
    then show ?thesis using assms str by (cases r) (auto simp: ordering_keys_def)
  next
    case 2
    then show ?thesis using assms bool by (cases r) (auto simp: ordering_keys_def)
  next
    case 3
    then show ?thesis using assms dur by (cases r) (auto simp: ordering_keys_def)
  qed
qed

lemma bool_num_simps [simp]: "\<not> is_nan (bool_num b)" "num_lt (bool_num x) (bool_num y) \<longleftrightarrow> \<not> x \<and> y"
  by (simp_all add: bool_num_def)

lemma exact_nan: "nan_free v \<Longrightarrow> isNumeric v \<Longrightarrow> \<not> is_nan (exact v)"
  by (cases v) auto

lemma ordering_keys_nan_free:
  "ordering_keys l r = Some (a, b) \<Longrightarrow> nan_free l \<Longrightarrow> nan_free r \<Longrightarrow> \<not> is_nan a \<and> \<not> is_nan b"
  by (elim ordering_keysE) (auto simp: exact_nan)

lemma ordering_keys_equal:
  assumes "ordering_keys l r = Some (a, b)" "nan_free l" "nan_free r"
  shows "valuesEqual l r \<longleftrightarrow> \<not> num_lt a b \<and> \<not> num_lt b a"
  using assms(1)
proof (cases rule: ordering_keysE)
  case num
  then show ?thesis using assms by (simp add: valuesEqual_numeric scalarEqual_def exact_nan)
next
  case (str s t)
  then show ?thesis using compareCodePoints_zero [of s t] by (auto simp: scalarEqual_def)
qed (auto simp: scalarEqual_def)



text \<open>C22. Cerbos's hierarchy relations: a strict ancestor is a proper prefix segment by segment, two
  hierarchies overlap exactly when they are equal or one is a strict ancestor of the other, and
  no hierarchy is its own ancestor.\<close>

theorem hierarchy_relations:
  "isStrictAncestor a d = strict_prefix a d \<and>
   hierarchiesOverlap a d = (a = d \<or> isStrictAncestor a d \<or> isStrictAncestor d a) \<and>
   \<not> isStrictAncestor a a"
proof -
  have 1: "isStrictAncestor x y = strict_prefix x y" for x y
    by (auto simp: isStrictAncestor_def isSegmentPrefix_iff strict_prefix_def elim: prefixE dest: prefix_length_le)
  have "length a \<le> length d \<Longrightarrow> \<not> strict_prefix d a" "length d < length a \<Longrightarrow> \<not> prefix a d"
    by (auto dest: prefix_length_less prefix_length_le)
  then show ?thesis
    by (auto simp: 1 hierarchiesOverlap_def isSegmentPrefix_iff strict_prefix_def)
qed

end
