(* ===== verification/Convex_Errors.thy ===== *)
theory Convex_Errors
  imports JS_Value
begin

text \<open>
  convex/src/errors.ts. The adapter's refusal type \<open>UnsupportedQueryPlanError\<close> carries, in place of
  its message, one constructor per throw site; the two failures that are deliberately not refusals
  stay plain errors; and a \<open>TypeError\<close> is one JavaScript itself raises.
\<close>

datatype refusal =
    InvalidStructure
  | UnknownOperator string
  | SetFieldOutsideStruct
  | MissingOperand string string      \<comment> \<open>operator and the operand's role\<close>
  | ExpectedLambda
  | LambdaTwoVariables
  | LambdaArity
  | LambdaVariable
  | LambdaEvaluated
  | MacroVariables string nat
  | IndeterminateZeroDivisor
  | NestedDivision
  | ModuloType
  | UntypedStringConstant
  | PatternOutsideSubset
  | MapEntry
  | ListValuedCondition string
  | NullOperand string
  | ComparisonOperands string
  | MembershipOperands
  | BareValue
  | InvalidPlan

datatype error =
    UnsupportedQueryPlanError refusal
  | UnmappedReference jstring         \<comment> \<open>\<open>Error("No mapper entry for ...")\<close>\<close>
  | PostFilterNotAllowed              \<comment> \<open>\<open>Error\<close>: the caller has not opted in\<close>
  | TypeError                         \<comment> \<open>raised by the language\<close>

abbreviation refuse :: "refusal \<Rightarrow> error + 'a" where
  "refuse r \<equiv> Inl (UnsupportedQueryPlanError r)"

text \<open>
  Names every plain object inherits from \<open>Object.prototype\<close>: reading one through \<open>obj[name]\<close> yields a
  function or an object, not \<open>undefined\<close>.
\<close>

definition object_prototype_names :: "jstring list" where
  "object_prototype_names = map js
     [''constructor'', ''__defineGetter__'', ''__defineSetter__'', ''hasOwnProperty'',
      ''__lookupGetter__'', ''__lookupSetter__'', ''isPrototypeOf'', ''propertyIsEnumerable'',
      ''toString'', ''valueOf'', ''__proto__'', ''toLocaleString'']"

end
