(* ===== verification/Convex_Time.thy ===== *)
theory Convex_Time
  imports Convex_Cel Convex_Errors "HOL-Library.Monad_Syntax"
begin

text \<open>
  convex/src/cel.ts, second part: RFC 3339 timestamps as nanoseconds since the epoch, Go durations as
  int64 nanoseconds, and \<open>timeSince\<close>.
\<close>

subsection \<open>Matching the RFC 3339 pattern\<close>

text \<open>
  \<open>RFC3339_TIMESTAMP\<close>: every piece of the pattern has a fixed length or is followed by a character
  outside its class, so the match never backtracks and is read left to right.
\<close>

fun take_digits :: "nat \<Rightarrow> jstring \<Rightarrow> (jstring \<times> jstring) option" where
  "take_digits 0 s = Some ([], s)"
| "take_digits (Suc n) [] = None"
| "take_digits (Suc n) (c # s) =
     (if is_digit c then map_option (\<lambda>(d, r). (c # d, r)) (take_digits n s) else None)"

fun expect :: "code_unit \<Rightarrow> jstring \<Rightarrow> jstring option" where
  "expect c [] = None"
| "expect c (x # s) = (if x = c then Some s else None)"

record rfc3339 =
  yearPart :: jstring
  monthPart :: jstring
  dayPart :: jstring
  hourPart :: jstring
  minutePart :: jstring
  secondPart :: jstring
  fractionPart :: "jstring option"
  zonePart :: "(bool \<times> jstring \<times> jstring) option"   \<comment> \<open>\<open>None\<close> is \<open>Z\<close>; else (sign is \<open>+\<close>, hours, minutes)\<close>

definition match_fraction :: "jstring \<Rightarrow> (jstring option \<times> jstring) option" where
  "match_fraction s =
     (case expect 46 s of
        None \<Rightarrow> Some (None, s)
      | Some r \<Rightarrow> let d = takeWhile is_digit r
                  in if 1 \<le> length d \<and> length d \<le> 9 then Some (Some d, dropWhile is_digit r) else None)"

definition match_zone :: "jstring \<Rightarrow> (bool \<times> jstring \<times> jstring) option option" where
  "match_zone s =
     (if s = [90] then Some None
      else case s of
        sign # r \<Rightarrow>
          if sign = 43 \<or> sign = 45 then
            do { (h, r) \<leftarrow> take_digits 2 r; r \<leftarrow> expect 58 r; (m, r) \<leftarrow> take_digits 2 r;
                 if r = [] then Some (Some (sign = 43, h, m)) else None }
          else None
      | [] \<Rightarrow> None)"

definition match_rfc3339 :: "jstring \<Rightarrow> rfc3339 option" where
  "match_rfc3339 s =
     do { (y, s) \<leftarrow> take_digits 4 s; s \<leftarrow> expect 45 s;
          (mo, s) \<leftarrow> take_digits 2 s; s \<leftarrow> expect 45 s;
          (d, s) \<leftarrow> take_digits 2 s; s \<leftarrow> expect 84 s;
          (h, s) \<leftarrow> take_digits 2 s; s \<leftarrow> expect 58 s;
          (mi, s) \<leftarrow> take_digits 2 s; s \<leftarrow> expect 58 s;
          (sec, s) \<leftarrow> take_digits 2 s;
          (fr, s) \<leftarrow> match_fraction s;
          z \<leftarrow> match_zone s;
          Some \<lparr>yearPart = y, monthPart = mo, dayPart = d, hourPart = h, minutePart = mi,
                secondPart = sec, fractionPart = fr, zonePart = z\<rparr> }"

subsection \<open>The calendar\<close>

definition isLeapYear :: "int \<Rightarrow> bool" where
  "isLeapYear year \<longleftrightarrow> year mod 4 = 0 \<and> (year mod 100 \<noteq> 0 \<or> year mod 400 = 0)"

definition daysInMonth :: "int \<Rightarrow> int \<Rightarrow> int" where
  "daysInMonth year month =
     (let days = [31, if isLeapYear year then 29 else 28, 31, 30, 31, 30, 31, 31, 30, 31, 30, 31]
      in case nth_opt days (nat (month - 1)) of Some d \<Rightarrow> d | None \<Rightarrow> 0)"

text \<open>
  \<open>Date\<close>: the ECMAScript day number of a date (0 is 1970-01-01), and the time value in milliseconds
  \<open>setUTCFullYear\<close> and \<open>setUTCHours\<close> leave; \<open>None\<close> is the invalid date past 8.64e15 ms.
\<close>

definition day_from_year :: "int \<Rightarrow> int" where
  "day_from_year y = 365 * (y - 1970) + (y - 1969) div 4 - (y - 1901) div 100 + (y - 1601) div 400"

definition month_offset :: "int \<Rightarrow> int \<Rightarrow> int" where
  "month_offset year month =
     [0, 31, 59, 90, 120, 151, 181, 212, 243, 273, 304, 334] ! nat (month - 1)
       + (if isLeapYear year \<and> 2 < month then 1 else 0)"

definition make_day :: "int \<Rightarrow> int \<Rightarrow> int \<Rightarrow> int" where
  "make_day year month day = day_from_year year + month_offset year month + (day - 1)"

definition date_millis :: "int \<Rightarrow> int \<Rightarrow> int \<Rightarrow> int \<Rightarrow> int \<Rightarrow> int \<Rightarrow> int option" where
  "date_millis year month day hour minute second =
     (let t = make_day year month day * 86400000 + hour * 3600000 + minute * 60000 + second * 1000
      in if \<bar>t\<bar> \<le> 8640000000000000 then Some t else None)"

definition MIN_TIMESTAMP_NANOS :: int where "MIN_TIMESTAMP_NANOS = - 62135596800000000000"
definition MAX_TIMESTAMP_NANOS :: int where "MAX_TIMESTAMP_NANOS = 253402300799999999999"

definition zone_offset_minutes :: "(bool \<times> jstring \<times> jstring) option \<Rightarrow> int option" where
  "zone_offset_minutes z =
     (case z of
        None \<Rightarrow> Some 0
      | Some (positive, h, m) \<Rightarrow>
          let offsetHour = int (digits_val h); offsetMinute = int (digits_val m)
          in if offsetHour > 23 \<or> offsetMinute > 59 then None
             else Some ((offsetHour * 60 + offsetMinute) * (if positive then 1 else - 1)))"

definition fraction_nanos :: "jstring option \<Rightarrow> int" where
  "fraction_nanos f =
     (let t = (case f of None \<Rightarrow> [] | Some d \<Rightarrow> d)
      in int (digits_val (t @ replicate (9 - length t) 48)))"

definition parseRfc3339Timestamp :: "jstring \<Rightarrow> jsval" where
  "parseRfc3339Timestamp val =
     (case match_rfc3339 val of
        None \<Rightarrow> VError
      | Some m \<Rightarrow>
          let year = int (digits_val (yearPart m)); month = int (digits_val (monthPart m));
              day = int (digits_val (dayPart m)); hour = int (digits_val (hourPart m));
              minute = int (digits_val (minutePart m)); second = int (digits_val (secondPart m))
          in if year < 1 \<or> year > 9999 \<or> month < 1 \<or> month > 12 \<or> day < 1 \<or>
                day > daysInMonth year month \<or> hour > 23 \<or> minute > 59 \<or> second > 59
             then VError
             else case zone_offset_minutes (zonePart m) of
               None \<Rightarrow> VError
             | Some offsetMinutes \<Rightarrow>
                 (case date_millis year month day hour minute second of
                    None \<Rightarrow> VError
                  | Some t \<Rightarrow>
                      let epochMillis = t - offsetMinutes * 60000;
                          timestampNanos = epochMillis * 1000000 + fraction_nanos (fractionPart m)
                      in if timestampNanos < MIN_TIMESTAMP_NANOS \<or> timestampNanos > MAX_TIMESTAMP_NANOS
                         then VError else VBig timestampNanos))"

subsection \<open>Durations\<close>

definition INT64_MIN :: int where "INT64_MIN = - (2 ^ 63)"
definition INT64_MAX :: int where "INT64_MAX = 2 ^ 63 - 1"
definition TWO_TO_63 :: int where "TWO_TO_63 = 2 ^ 63"

definition DURATION_UNITS :: "(jstring \<times> int) list" where
  "DURATION_UNITS =
     [(js ''ns'', 1), (js ''us'', 1000), ([0xb5, 115], 1000), ([0x3bc, 115], 1000),
      (js ''ms'', 1000000), (js ''s'', 1000000000), (js ''m'', 60000000000),
      (js ''h'', 3600000000000)]"

text \<open>The digits before the point: \<open>None\<close> once the value exceeds \<open>2^63\<close>.\<close>

fun scan_whole :: "int \<Rightarrow> jstring \<Rightarrow> (int \<times> jstring) option" where
  "scan_whole whole [] = Some (whole, [])"
| "scan_whole whole (c # s) =
     (if is_digit c then
        if whole > TWO_TO_63 div 10 then None
        else let whole' = whole * 10 + int (digit_val c)
             in if whole' > TWO_TO_63 then None else scan_whole whole' s
      else Some (whole, c # s))"

text \<open>The digits after it: past int64 precision they are dropped. \<open>scale\<close> is a double, as in Go.\<close>

fun scan_fraction :: "int \<Rightarrow> jsnum \<Rightarrow> bool \<Rightarrow> jstring \<Rightarrow> int \<times> jsnum \<times> jstring" where
  "scan_fraction fraction scale overflowed [] = (fraction, scale, [])"
| "scan_fraction fraction scale overflowed (c # s) =
     (if is_digit c then
        if overflowed \<or> fraction > INT64_MAX div 10 then scan_fraction fraction scale True s
        else let next = fraction * 10 + int (digit_val c)
             in if next > TWO_TO_63 then scan_fraction fraction scale True s
                else scan_fraction next (num_mul scale (Fin 10)) False s
      else (fraction, scale, c # s))"

definition unit_char :: "code_unit \<Rightarrow> bool" where
  "unit_char c \<longleftrightarrow> \<not> (c = 46 \<or> is_digit c)"

text \<open>
  One number with its unit: the value it adds and the rest of the input. \<open>Inr None\<close> is the evaluation
  error. \<open>DURATION_UNITS\<close> is a plain object read with \<open>[...]\<close>, so a unit spelled like an inherited
  property is not \<open>undefined\<close>, and the bigint division by it throws.
\<close>

definition parse_component :: "jstring \<Rightarrow> error + (int \<times> jstring) option" where
  "parse_component s =
     (if \<not> (take 1 s = [46] \<or> (\<exists>c. take 1 s = [c] \<and> is_digit c)) then Inr None
      else case scan_whole 0 s of
        None \<Rightarrow> Inr None
      | Some (whole, s1) \<Rightarrow>
          let sawWhole = (s1 \<noteq> s);
              (fraction, scale, s2) =
                (case expect 46 s1 of None \<Rightarrow> (0, Fin 1, s1) | Some r \<Rightarrow> scan_fraction 0 (Fin 1) False r);
              sawFraction = (case expect 46 s1 of None \<Rightarrow> False | Some r \<Rightarrow> s2 \<noteq> r);
              name = takeWhile unit_char s2; s3 = dropWhile unit_char s2
          in if \<not> sawWhole \<and> \<not> sawFraction then Inr None
             else if name = [] then Inr None
             else case map_of DURATION_UNITS name of
               None \<Rightarrow> if name \<in> set object_prototype_names then Inl TypeError else Inr None
             | Some unit \<Rightarrow>
                 if whole > TWO_TO_63 div unit then Inr None
                 else let val = whole * unit +
                            (if fraction > 0
                             then num_trunc (num_mul (num_of_int fraction) (num_div (num_of_int unit) scale))
                             else 0)
                      in if fraction > 0 \<and> val > TWO_TO_63 then Inr None else Inr (Some (val, s3)))"

lemma scan_whole_length: "scan_whole w s = Some (w', r) \<Longrightarrow> length r \<le> length s"
  by (induction w s rule: scan_whole.induct) (auto simp: Let_def split: if_splits)

lemma scan_fraction_length: "scan_fraction f sc ov s = (f', sc', r) \<Longrightarrow> length r \<le> length s"
  by (induction f sc ov s rule: scan_fraction.induct) (auto simp: Let_def split: if_splits)

lemma length_dropWhile_less: "takeWhile P s \<noteq> [] \<Longrightarrow> length (dropWhile P s) < length s"
  by (cases s) (auto simp: less_Suc_eq_le length_dropWhile_le split: if_splits)

lemma expect_length: "expect c s = Some r \<Longrightarrow> length r < length s"
  by (cases s) (auto split: if_splits)

lemma parse_component_length:
  assumes "parse_component s = Inr (Some (v, r))"
  shows "length r < length s"
proof -
  obtain whole s1 where w: "scan_whole 0 s = Some (whole, s1)"
    using assms by (auto simp: parse_component_def split: if_splits option.splits)
  define t where "t = (case expect 46 s1 of None \<Rightarrow> (0, Fin 1, s1) | Some r \<Rightarrow> scan_fraction 0 (Fin 1) False r)"
  obtain f sc s2 where t2: "t = (f, sc, s2)" by (cases t)
  have "length s2 \<le> length s1"
    using t2 scan_fraction_length expect_length unfolding t_def
    by (fastforce split: option.splits)
  moreover have "length s1 \<le> length s" using scan_whole_length [OF w] .
  moreover have "r = dropWhile unit_char s2" "takeWhile unit_char s2 \<noteq> []"
    using assms w t2 unfolding parse_component_def
    by (auto simp: Let_def t_def [symmetric] split: if_splits option.splits)
  ultimately show ?thesis using length_dropWhile_less by fastforce
qed

text \<open>The loop over the components, \<open>total\<close> so far.\<close>

function parse_components :: "int \<Rightarrow> jstring \<Rightarrow> error + int option" where
  "parse_components sum_so_far s =
     (if s = [] then Inr (Some sum_so_far)
      else case parse_component s of
        Inl e \<Rightarrow> Inl e
      | Inr None \<Rightarrow> Inr None
      | Inr (Some (v, r)) \<Rightarrow>
          if sum_so_far + v > TWO_TO_63 then Inr None else parse_components (sum_so_far + v) r)"
  by pat_completeness auto
termination
  by (relation "measure (\<lambda>(sum_so_far, s). length s)") (auto dest: parse_component_length)

declare parse_components.simps [simp del]

definition parseCelDuration :: "jstring \<Rightarrow> error + jsval" where
  "parseCelDuration input =
     (let negative = (take 1 input = [45]);
          s = (if negative \<or> take 1 input = [43] then drop 1 input else input)
      in if s = [48] then Inr (VDur 0)
         else if s = [] then Inr VError
         else bindE (parse_components 0 s) (\<lambda>r.
           case r of
             None \<Rightarrow> Inr VError
           | Some sum_so_far \<Rightarrow>
               if negative then Inr (VDur (- sum_so_far))
               else Inr (if sum_so_far > INT64_MAX then VError else VDur sum_so_far)))"

definition inInt64 :: "int \<Rightarrow> bool" where
  "inInt64 nanos \<longleftrightarrow> nanos \<ge> INT64_MIN \<and> nanos \<le> INT64_MAX"

definition checkedDuration :: "int \<Rightarrow> jsval" where
  "checkedDuration nanos = (if inInt64 nanos then VDur nanos else VError)"

definition checkedTimestamp :: "int \<Rightarrow> jsval" where
  "checkedTimestamp nanos =
     (if nanos < MIN_TIMESTAMP_NANOS \<or> nanos > MAX_TIMESTAMP_NANOS then VError else VBig nanos)"

definition timeSince :: "int \<Rightarrow> int \<Rightarrow> jsval" where
  "timeSince nowNanos timestamp =
     (let nanos = nowNanos - timestamp
      in VDur (if nanos > INT64_MAX then INT64_MAX else if nanos < INT64_MIN then INT64_MIN else nanos))"

subsection \<open>The calendar counts days\<close>

definition next_day :: "int \<times> int \<times> int \<Rightarrow> int \<times> int \<times> int" where
  "next_day = (\<lambda>(y, m, d).
     if d < daysInMonth y m then (y, m, d + 1) else if m < 12 then (y, m + 1, 1) else (y + 1, 1, 1))"

lemma leap_sum:
  fixes y A B C :: int
  assumes "p \<Longrightarrow> q" "r \<Longrightarrow> p"
  shows "365 * (y + 1 - 1970) + (A + (if q then 1 else 0)) - (B + (if p then 1 else 0)) +
      (C + (if r then 1 else 0)) =
    365 * (y - 1970) + A - B + C + (if q \<and> (\<not> p \<or> r) then 366 else 365)"
  by (cases p; cases q; cases r) (use assms in simp_all)

lemma day_from_year_Suc: "day_from_year (y + 1) = day_from_year y + (if isLeapYear y then 366 else 365)"
proof -
  have 4: "(y + 1 - 1969) div 4 = (y - 1969) div 4 + (if 4 dvd y then 1 else 0)"
    using div_succ [of 4 "y - 1969"] dvd_shift [of 4 y 492] by (simp add: algebra_simps)
  have 100: "(y + 1 - 1901) div 100 = (y - 1901) div 100 + (if 100 dvd y then 1 else 0)"
    using div_succ [of 100 "y - 1901"] dvd_shift [of 100 y 19] by (simp add: algebra_simps)
  have 400: "(y + 1 - 1601) div 400 = (y - 1601) div 400 + (if 400 dvd y then 1 else 0)"
    using div_succ [of 400 "y - 1601"] dvd_shift [of 400 y 4] by (simp add: algebra_simps)
  have "100 dvd y \<Longrightarrow> 4 dvd y" "400 dvd y \<Longrightarrow> 100 dvd y"
    by (rule dvd_trans [of 4 100 y], simp, assumption, rule dvd_trans [of 100 400 y], simp, assumption)
  then show ?thesis
    unfolding day_from_year_def 4 100 400 isLeapYear_def mod_eq_0_iff_dvd by (rule leap_sum)
qed

lemma day_from_year_mono: "a \<le> b \<Longrightarrow> day_from_year a \<le> day_from_year b"
proof (induction b rule: int_ge_induct)
  case (step b)
  then show ?case using day_from_year_Suc [of b] by (simp split: if_splits)
qed simp

lemma month_cases:
  fixes m :: int
  assumes "1 \<le> m" "m \<le> 12"
  obtains "m = 1" | "m = 2" | "m = 3" | "m = 4" | "m = 5" | "m = 6" | "m = 7" | "m = 8" | "m = 9"
    | "m = 10" | "m = 11" | "m = 12"
proof -
  have "m = 1 \<or> m = 2 \<or> m = 3 \<or> m = 4 \<or> m = 5 \<or> m = 6 \<or> m = 7 \<or> m = 8 \<or> m = 9 \<or> m = 10 \<or> m = 11 \<or> m = 12"
    using assms by presburger
  then show ?thesis using that by blast
qed

lemma month_offset_Suc:
  "1 \<le> m \<Longrightarrow> m < 12 \<Longrightarrow> month_offset y (m + 1) = month_offset y m + daysInMonth y m"
  by (rule month_cases [of m]) (auto simp: month_offset_def daysInMonth_def Let_def)

lemma daysInMonth_12: "daysInMonth y 12 = 31" "month_offset y 12 = (if isLeapYear y then 335 else 334)"
  "month_offset y 1 = 0"
  by (simp_all add: daysInMonth_def month_offset_def Let_def)

lemma make_day_next:
  assumes "1 \<le> m" "m \<le> 12" "d \<le> daysInMonth y m"
  shows "(\<lambda>(y, m, d). make_day y m d) (next_day (y, m, d)) = make_day y m d + 1"
proof (cases "d < daysInMonth y m")
  case True
  then show ?thesis by (simp add: next_day_def make_day_def)
next
  case False
  then have d: "d = daysInMonth y m" using assms by simp
  show ?thesis
  proof (cases "m < 12")
    case True
    then show ?thesis using d assms by (simp add: next_day_def make_day_def month_offset_Suc)
  next
    case False
    then have "m = 12" using assms by simp
    then show ?thesis using d by (simp add: next_day_def make_day_def daysInMonth_12 day_from_year_Suc)
  qed
qed

subsection \<open>Rendering\<close>

fun pad_digits :: "nat \<Rightarrow> nat \<Rightarrow> jstring" where
  "pad_digits 0 n = []"
| "pad_digits (Suc k) n = pad_digits k (n div 10) @ [digit_char (n mod 10)]"

lemma length_pad [simp]: "length (pad_digits k n) = k"
  by (induction k arbitrary: n) auto

lemma pad_is_digit: "c \<in> set (pad_digits k n) \<Longrightarrow> is_digit c"
  by (induction k arbitrary: n) auto

lemma digits_val_pad: "n < 10 ^ k \<Longrightarrow> digits_val (pad_digits k n) = n"
  by (induction k arbitrary: n) (auto simp: digits_val_snoc less_mult_imp_div_less mult.commute)

lemma take_digits_append: "list_all is_digit d \<Longrightarrow> take_digits (length d) (d @ s) = Some (d, s)"
  by (induction d) auto

lemma take_digits_pad [simp]: "take_digits k (pad_digits k n @ s) = Some (pad_digits k n, s)"
  using take_digits_append [of "pad_digits k n" s] pad_is_digit by (force simp: list_all_iff)

definition render_utc :: "nat \<Rightarrow> nat \<Rightarrow> nat \<Rightarrow> nat \<Rightarrow> nat \<Rightarrow> nat \<Rightarrow> nat \<Rightarrow> jstring" where
  "render_utc y mo d h mi sec nanos =
     pad_digits 4 y @ 45 # pad_digits 2 mo @ 45 # pad_digits 2 d @ 84 # pad_digits 2 h @ 58 #
     pad_digits 2 mi @ 58 # pad_digits 2 sec @ 46 # pad_digits 9 nanos @ [90]"

lemma match_fraction_pad: "match_fraction (46 # pad_digits 9 n @ [90]) = Some (Some (pad_digits 9 n), [90])"
proof -
  have "takeWhile is_digit (pad_digits 9 n @ [90]) = pad_digits 9 n"
    "dropWhile is_digit (pad_digits 9 n @ [90]) = [90]"
    using pad_is_digit by (simp_all add: takeWhile_append2 dropWhile_append2 is_digit_def)
  then show ?thesis by (simp add: match_fraction_def)
qed

lemma match_render:
  "match_rfc3339 (render_utc y mo d h mi sec n) =
     Some \<lparr>yearPart = pad_digits 4 y, monthPart = pad_digits 2 mo, dayPart = pad_digits 2 d,
           hourPart = pad_digits 2 h, minutePart = pad_digits 2 mi, secondPart = pad_digits 2 sec,
           fractionPart = Some (pad_digits 9 n), zonePart = None\<rparr>"
  by (simp add: match_rfc3339_def render_utc_def match_fraction_pad match_zone_def)

lemma make_day_bounds:
  assumes "1 \<le> y" "y \<le> 9999" "1 \<le> mo" "mo \<le> 12" "1 \<le> d" "d \<le> daysInMonth y mo"
  shows "- 719162 \<le> make_day y mo d \<and> make_day y mo d \<le> 2932896"
proof -
  have m0: "0 \<le> month_offset y mo"
    by (rule month_cases [OF assms(3,4)]) (simp_all add: month_offset_def)
  have "month_offset y mo + daysInMonth y mo \<le> (if isLeapYear y then 366 else 365)"
    by (rule month_cases [OF assms(3,4)]) (simp_all add: month_offset_def daysInMonth_def Let_def)
  then have m: "0 \<le> month_offset y mo" "month_offset y mo + d \<le> (if isLeapYear y then 366 else 365)"
    using assms(6) m0 by simp_all
  have "day_from_year y + (if isLeapYear y then 366 else 365) \<le> day_from_year 10000"
    unfolding day_from_year_Suc [symmetric] using assms(2) by (intro day_from_year_mono) simp
  moreover have "day_from_year 1 \<le> day_from_year y" using assms(1) by (rule day_from_year_mono)
  moreover have "day_from_year 1 = - 719162" "day_from_year 10000 = 2932897"
    by (simp_all add: day_from_year_def)
  ultimately show ?thesis using m assms(5) by (simp add: make_day_def)
qed

lemma parse_render:
  assumes "1 \<le> y" "y \<le> 9999" "1 \<le> mo" "mo \<le> 12" "1 \<le> d" "int d \<le> daysInMonth y mo"
    "h \<le> 23" "mi \<le> 59" "sec \<le> 59" "n < 10 ^ 9"
  shows "parseRfc3339Timestamp (render_utc y mo d h mi sec n) =
    VBig ((make_day y mo d * 86400 + int (h * 3600 + mi * 60 + sec)) * 1000000000 + int n)"
proof -
  have d: "d \<le> 31"
    using assms(6) by - (rule month_cases [of "int mo"], use assms in \<open>auto simp: daysInMonth_def Let_def split: if_splits\<close>)
  have b: "- 719162 \<le> make_day y mo d" "make_day y mo d \<le> 2932896"
    using make_day_bounds [of "int y" "int mo" "int d"] assms by simp_all
  have v: "digits_val (pad_digits 4 y) = y" "digits_val (pad_digits 2 mo) = mo" "digits_val (pad_digits 2 d) = d"
    "digits_val (pad_digits 2 h) = h" "digits_val (pad_digits 2 mi) = mi" "digits_val (pad_digits 2 sec) = sec"
    "digits_val (pad_digits 9 n) = n"
    using assms d by (simp_all add: digits_val_pad)
  define t where "t = make_day y mo d * 86400000 + int h * 3600000 + int mi * 60000 + int sec * 1000"
  have t: "- 62135596800000 \<le> t" "t \<le> 253402300799000" using b assms by (simp_all add: t_def)
  then have m: "date_millis y mo d h mi sec = Some t"
    by (simp add: date_millis_def t_def [symmetric] Let_def)
  have f: "fraction_nanos (Some (pad_digits 9 n)) = n" by (simp add: fraction_nanos_def v)
  have r: "MIN_TIMESTAMP_NANOS \<le> t * 1000000 + int n" "t * 1000000 + int n \<le> MAX_TIMESTAMP_NANOS"
    using t assms(10) by (simp_all add: MIN_TIMESTAMP_NANOS_def MAX_TIMESTAMP_NANOS_def)
  have "parseRfc3339Timestamp (render_utc y mo d h mi sec n) = VBig (t * 1000000 + int n)"
    unfolding parseRfc3339Timestamp_def match_render option.simps Let_def rfc3339.simps v
    using assms r by (simp add: m f zone_offset_minutes_def)
  then show ?thesis by (simp add: t_def algebra_simps)
qed

subsection \<open>Durations\<close>

lemma scan_whole_digits:
  assumes "list_all is_digit ds" "\<And>c r. rest = c # r \<Longrightarrow> \<not> is_digit c" "0 \<le> w"
  shows "scan_whole w (ds @ rest) =
    (let v = w * 10 ^ length ds + int (digits_val ds) in
     if v > TWO_TO_63 \<and> ds \<noteq> [] then None else Some (v, rest))"
  using assms(1,3)
proof (induction ds arbitrary: w)
  case Nil
  then show ?case using assms(2) by (cases rest) auto
next
  case (Cons c ds)
  define v where "v = w * 10 + int (digit_val c)"
  have total: "w * 10 ^ length (c # ds) + int (digits_val (c # ds)) = v * 10 ^ length ds + int (digits_val ds)"
    by (simp add: v_def digits_val_Cons algebra_simps)
  have le: "v \<le> v * 10 ^ length ds" using Cons.prems by (simp add: v_def mult_le_cancel_left1)
  have big: "w > TWO_TO_63 div 10 \<Longrightarrow> v > TWO_TO_63" by (simp add: v_def TWO_TO_63_def)
  show ?case
  proof (cases "v > TWO_TO_63")
    case True
    then show ?thesis using Cons.prems le unfolding total by (simp add: Let_def v_def [symmetric])
  next
    case False
    then have "scan_whole w ((c # ds) @ rest) = scan_whole v (ds @ rest)"
      using Cons.prems big by (auto simp add: Let_def v_def [symmetric])
    also have "\<dots> = (let u = v * 10 ^ length ds + int (digits_val ds) in
        if u > TWO_TO_63 \<and> ds \<noteq> [] then None else Some (u, rest))"
      using Cons.prems by (intro Cons.IH) (auto simp: v_def)
    finally show ?thesis unfolding total using False by (cases ds) (auto simp: Let_def)
  qed
qed

lemma units_shape: "(u, k) \<in> set DURATION_UNITS \<Longrightarrow>
    0 < k \<and> map_of DURATION_UNITS u = Some k \<and> list_all unit_char u \<and> u \<noteq> [] \<and> \<not> is_digit (hd u) \<and> hd u \<noteq> 46"
  by (auto simp: DURATION_UNITS_def js_def unit_char_def is_digit_def)

lemma parse_component_unit:
  assumes "(u, k) \<in> set DURATION_UNITS"
  shows "parse_component (nat_to_string n @ u) =
    (if int n * k > TWO_TO_63 then Inr None else Inr (Some (int n * k, [])))"
proof -
  note u = units_shape [OF assms]
  obtain c r where s: "nat_to_string n = c # r" by (cases "nat_to_string n") simp_all
  have d: "list_all is_digit (nat_to_string n)"
    using nat_to_string_digits by (auto simp: list_all_iff)
  then have c: "is_digit c" using s by simp
  have nn: "nat_to_string n @ u \<noteq> u" by simp
  have e: "expect 46 u = None" using u by (cases u) auto
  have t: "takeWhile unit_char u = u" "dropWhile unit_char u = []"
    using u by (simp_all add: list_all_iff)
  have w: "scan_whole 0 (nat_to_string n @ u) = (if int n > TWO_TO_63 then None else Some (int n, u))"
    by (subst scan_whole_digits [OF d]) (use u in \<open>auto simp: Let_def\<close>)
  have k: "TWO_TO_63 div k < int n \<longleftrightarrow> TWO_TO_63 < int n * k"
    using u by (intro div_less_iff) simp
  have b: "int n > TWO_TO_63 \<Longrightarrow> int n * k > TWO_TO_63"
    using u mult_left_mono [of 1 k "int n"] by simp
  show ?thesis
    unfolding parse_component_def w using c u nn b by (auto simp: s e t k Let_def)
qed

lemma parseCelDuration_units:
  assumes "(u, k) \<in> set DURATION_UNITS"
  shows "parseCelDuration ((if neg then [45] else []) @ nat_to_string n @ u) =
    Inr (checkedDuration ((if neg then - 1 else 1) * (int n * k)))"
proof -
  note u = units_shape [OF assms]
  obtain c r where s: "nat_to_string n = c # r" by (cases "nat_to_string n") simp_all
  have "is_digit c" using s nat_to_string_digits [of c n] by simp
  then have c: "c \<noteq> 45" "c \<noteq> 43" by (auto simp: is_digit_def)
  have k0: "0 \<le> int n * k" using u by simp
  have ne: "nat_to_string n @ u \<noteq> []" "nat_to_string n @ u \<noteq> [48]"
    using u s by (auto simp: append_eq_Cons_conv Cons_eq_append_conv)
  have p: "parse_components 0 (nat_to_string n @ u) =
      (if int n * k > TWO_TO_63 then Inr None else Inr (Some (int n * k)))"
    using ne by (subst parse_components.simps)
      (simp add: parse_component_unit [OF assms] parse_components.simps [of _ "[]"])
  have m: "\<not> int n * k > TWO_TO_63 \<Longrightarrow> inInt64 (- (int n * k))"
    "\<not> int n * k > TWO_TO_63 \<Longrightarrow> inInt64 (int n * k) \<longleftrightarrow> \<not> int n * k > INT64_MAX"
    "int n * k > TWO_TO_63 \<Longrightarrow> \<not> inInt64 (int n * k) \<and> \<not> inInt64 (- (int n * k))"
    using k0 by (auto simp: inInt64_def INT64_MIN_def INT64_MAX_def TWO_TO_63_def)
  show ?thesis
    using p m ne c s by (cases neg) (auto simp: parseCelDuration_def Let_def checkedDuration_def)
qed


lemma scan_fraction_nonneg:
  "scan_fraction f sc ov s = (f', sc', r) \<Longrightarrow> \<not> num_negative sc \<Longrightarrow> \<not> num_negative sc'"
  by (induction f sc ov s rule: scan_fraction.induct)
    (auto simp: Let_def num_mul_nonneg split: if_splits)

lemma scan_whole_nonneg: "scan_whole w s = Some (w', r) \<Longrightarrow> 0 \<le> w \<Longrightarrow> 0 \<le> w'"
  by (induction w s rule: scan_whole.induct) (auto simp: Let_def split: if_splits)

lemma DURATION_UNITS_pos: "map_of DURATION_UNITS u = Some k \<Longrightarrow> 0 < k"
  using units_shape map_of_SomeD by metis

lemma parse_component_nonneg:
  assumes "parse_component s = Inr (Some (v, r))"
  shows "0 \<le> v"
proof -
  obtain whole s1 where w: "scan_whole 0 s = Some (whole, s1)"
    using assms by (auto simp: parse_component_def split: if_splits option.splits)
  define t where "t = (case expect 46 s1 of None \<Rightarrow> (0, Fin 1, s1) | Some r \<Rightarrow> scan_fraction 0 (Fin 1) False r)"
  obtain f sc s2 where t2: "t = (f, sc, s2)" by (cases t)
  have sc: "\<not> num_negative sc"
    using t2 scan_fraction_nonneg unfolding t_def by (fastforce split: option.splits)
  have whole: "0 \<le> whole" using scan_whole_nonneg [OF w] by simp
  obtain k where k: "map_of DURATION_UNITS (takeWhile unit_char s2) = Some k"
    and v: "v = whole * k + (if f > 0 then num_trunc (num_mul (num_of_int f) (num_div (num_of_int k) sc)) else 0)"
    using assms w t2 unfolding parse_component_def
    by (auto simp: Let_def t_def [symmetric] split: if_splits option.splits)
  have "0 < k" using DURATION_UNITS_pos [OF k] .
  then have "0 < f \<Longrightarrow> 0 \<le> num_trunc (num_mul (num_of_int f) (num_div (num_of_int k) sc))"
    using sc by (intro num_trunc_nonneg num_mul_nonneg num_div_nonneg) (simp_all add: num_of_int_def round64_not_negative)
  then show ?thesis using whole \<open>0 < k\<close> by (simp add: v)
qed

lemma parse_components_range:
  "parse_components t s = Inr (Some n) \<Longrightarrow> 0 \<le> t \<Longrightarrow> t \<le> TWO_TO_63 \<Longrightarrow> 0 \<le> n \<and> n \<le> TWO_TO_63"
proof (induction t s rule: parse_components.induct)
  case (1 t s)
  show ?case
  proof (cases "s = []")
    case True
    then show ?thesis using 1(2-4) by (simp add: parse_components.simps)
  next
    case False
    then obtain v r where p: "parse_component s = Inr (Some (v, r))" "\<not> t + v > TWO_TO_63"
      and n: "parse_components (t + v) r = Inr (Some n)"
      using 1(2) by (subst (asm) parse_components.simps) (auto split: if_splits sum.splits option.splits)
    show ?thesis using 1(3) p(2) parse_component_nonneg [OF p(1)] by (intro 1(1) [OF False p(1) _ _ p(2) n]) auto
  qed
qed

lemma parseCelDuration_range:
  assumes "parseCelDuration s = Inr v"
  shows "v = VError \<or> (\<exists>n. v = VDur n \<and> inInt64 n)"
proof -
  have r: "0 \<le> n \<and> n \<le> TWO_TO_63" if "parse_components 0 s' = Inr (Some n)" for s' n
    using parse_components_range [OF that] by (simp add: TWO_TO_63_def)
  then have p: "inInt64 (- n)" "\<not> n > INT64_MAX \<Longrightarrow> inInt64 n" if "parse_components 0 s' = Inr (Some n)" for s' n
    using r [OF that] by (auto simp: inInt64_def INT64_MIN_def INT64_MAX_def TWO_TO_63_def)
  have z: "inInt64 0" by (simp add: inInt64_def INT64_MIN_def INT64_MAX_def)
  show ?thesis using assms p z
    by (auto simp: parseCelDuration_def Let_def bindE_eq_Inr split: if_splits option.splits)
qed


lemma parse_component_Inl: "parse_component s = Inl e \<Longrightarrow> e = TypeError"
  by (auto simp: parse_component_def Let_def split: if_splits option.splits prod.splits)

lemma parse_components_Inl: "parse_components t s = Inl e \<Longrightarrow> e = TypeError"
proof (induction t s rule: parse_components.induct)
  case (1 t s)
  then show ?case
    by (subst (asm) (2) parse_components.simps) (auto split: if_splits sum.splits option.splits dest: parse_component_Inl)
qed

lemma parseCelDuration_Inl: "parseCelDuration s = Inl e \<Longrightarrow> e = TypeError"
  by (auto simp: parseCelDuration_def Let_def bindE_eq_Inl split: if_splits option.splits dest: parse_components_Inl)

subsection \<open>Properties\<close>

text \<open>
  C26. The day number the \<open>Date\<close> setters compute advances by one from each date of the calendar to the
  next one, over month ends, leap days and year ends, for every month and year.
\<close>

theorem make_day_successor:
  assumes "1 \<le> m" "m \<le> 12" "d \<le> daysInMonth y m"
  shows "(\<lambda>(y, m, d). make_day y m d) (next_day (y, m, d)) = make_day y m d + 1"
  using assms by (rule make_day_next)

lemma make_day_successor_witness: "make_day 2000 3 1 = make_day 2000 2 29 + 1"
  using make_day_successor [of 2 29 2000] by (simp add: daysInMonth_def isLeapYear_def next_day_def)

text \<open>
  C25. Parsing inverts rendering: the RFC 3339 text of a valid UTC date and time with nanoseconds is read
  as the number of nanoseconds since the epoch, exactly.
\<close>

theorem timestamp_roundtrip:
  assumes "1 \<le> y" "y \<le> 9999" "1 \<le> mo" "mo \<le> 12" "1 \<le> d" "int d \<le> daysInMonth y mo"
    "h \<le> 23" "mi \<le> 59" "sec \<le> 59" "n < 10 ^ 9"
  shows "parseRfc3339Timestamp (render_utc y mo d h mi sec n) =
    VBig ((make_day y mo d * 86400 + int (h * 3600 + mi * 60 + sec)) * 1000000000 + int n)"
  using assms by (rule parse_render)

lemma timestamp_roundtrip_witness:
  "parseRfc3339Timestamp (render_utc 1970 1 2 0 0 1 5) = VBig 86401000000005"
  using timestamp_roundtrip [of 1970 1 2 0 0 1 5]
  by (simp add: daysInMonth_def make_day_def day_from_year_def month_offset_def)

text \<open>
  C27. Whatever the text, a parsed timestamp lies within the years 1 to 9999, and the difference of two
  instants is clamped to int64 nanoseconds.
\<close>

theorem timestamp_bounds:
  "(case parseRfc3339Timestamp s of
      VBig n \<Rightarrow> MIN_TIMESTAMP_NANOS \<le> n \<and> n \<le> MAX_TIMESTAMP_NANOS
    | v \<Rightarrow> v = VError) \<and>
   timeSince now t = VDur (max INT64_MIN (min INT64_MAX (now - t)))"
proof -
  have "parseRfc3339Timestamp s = VError \<or>
    (\<exists>n. parseRfc3339Timestamp s = VBig n \<and> MIN_TIMESTAMP_NANOS \<le> n \<and> n \<le> MAX_TIMESTAMP_NANOS)"
    by (auto simp: parseRfc3339Timestamp_def Let_def split: option.splits)
  then show ?thesis
    by (auto simp: timeSince_def Let_def max_def min_def INT64_MIN_def INT64_MAX_def)
qed

text \<open>
  C28. A duration of one component is the exact product of its digits and its unit, negated when signed,
  and is the evaluation error exactly when that product leaves int64.
\<close>

theorem duration_units_exact:
  assumes "(u, k) \<in> set DURATION_UNITS"
  shows "parseCelDuration ((if neg then [45] else []) @ nat_to_string n @ u) =
    Inr (checkedDuration ((if neg then - 1 else 1) * (int n * k)))"
  using assms by (rule parseCelDuration_units)

lemma duration_units_exact_witness:
  "parseCelDuration (45 # nat_to_string 90 @ js ''m'') = Inr (VDur (- 5400000000000))"
  using duration_units_exact [of "js ''m''" 60000000000 True 90]
  by (simp add: DURATION_UNITS_def checkedDuration_def inInt64_def INT64_MIN_def INT64_MAX_def)

text \<open>
  C29. Whatever the text, a parsed duration is the evaluation error or lies within int64 nanoseconds; the
  only exception the parser can raise is the \<open>TypeError\<close> of an inherited unit name.
\<close>

theorem duration_bounds:
  "case parseCelDuration s of
     Inl e \<Rightarrow> e = TypeError
   | Inr v \<Rightarrow> v = VError \<or> (\<exists>n. v = VDur n \<and> inInt64 n)"
  using parseCelDuration_range [of s] parseCelDuration_Inl [of s] by (auto split: sum.splits)

text \<open>
  A unit spelled like a property every object inherits gets past the \<open>undefined\<close> check of
  \<open>DURATION_UNITS[unit]\<close>, and a stored string such as \<open>1constructor\<close> makes the parser throw.
\<close>

lemma inherited_unit_throws: "parseCelDuration (js ''1constructor'') = Inl TypeError"
  by (subst parseCelDuration_def, subst parse_components.simps, subst parse_component_def) (simp add: js_def TWO_TO_63_def is_digit_def unit_char_def DURATION_UNITS_def object_prototype_names_def digit_val_def)

end
