(* ===== verification/Convex_Convert.thy ===== *)
theory Convex_Convert
  imports Convex_Time "HOL-Library.Signed_Division"
begin

text \<open>
  convex/src/cel.ts, last part: the conversions \<open>string()\<close>, \<open>double()\<close> and \<open>int()\<close>, and int arithmetic.
  A conversion to text needs the shortest decimal that reads back as the number, which the language
  provides as \<open>toExponential()\<close>; it is modelled from its specification.
\<close>

subsection \<open>Decimal text of a double\<close>

text \<open>The decimal exponent of a positive rational: \<open>10^e \<le> r < 10^(e+1)\<close>.\<close>

definition ilog10 :: "rat \<Rightarrow> int" where
  "ilog10 r = (let (p, q) = quotient_of r; k = int (floorlog 10 (nat p)) - int (floorlog 10 (nat q))
               in if r < 10 powi k then k - 1 else k)"

text \<open>
  The digit counts \<open>1 .. 17\<close> are tried in order; at each one the two decimals next to \<open>x\<close> are the
  candidates, the closer one first. Seventeen digits always read back (\<open>shortest_reads_back\<close>).
\<close>

definition decimal_candidates :: "rat \<Rightarrow> int \<Rightarrow> nat \<Rightarrow> int list" where
  "decimal_candidates x e f =
     (let s = 10 powi (e - int f); lo = \<lfloor>x / s\<rfloor>
      in if x - of_int lo * s \<le> of_int (lo + 1) * s - x then [lo, lo + 1] else [lo + 1, lo])"

fun shortest_from :: "nat \<Rightarrow> nat \<Rightarrow> rat \<Rightarrow> int \<Rightarrow> int \<times> nat" where
  "shortest_from 0 f x e = (hd (decimal_candidates x e f), f)"
| "shortest_from (Suc k) f x e =
     (case filter (\<lambda>n. round64 (of_int n * 10 powi (e - int f)) = Fin x) (decimal_candidates x e f) of
        n # _ \<Rightarrow> (n, f)
      | [] \<Rightarrow> shortest_from k (Suc f) x e)"

text \<open>
  The digits and the exponent of \<open>Math.abs(value).toExponential()\<close>; a candidate that rounded up to the
  next power of ten is that power's single digit.
\<close>

definition to_exponential :: "rat \<Rightarrow> jstring \<times> int" where
  "to_exponential x =
     (let e = ilog10 x; (n, f) = shortest_from 16 0 x e
      in if n = 10 ^ Suc f then ([49], e + 1) else (nat_to_string (nat n), e))"

definition formatGoDouble :: "jsnum \<Rightarrow> jstring" where
  "formatGoDouble val =
     (if is_nan val then js ''NaN''
      else if \<not> is_finite val then (if num_lt (Fin 0) val then js ''+Inf'' else js ''-Inf'')
      else let sign = (if num_lt val (Fin 0) \<or> val = NegZero then [45] else [])
           in if is_zero val then sign @ [48]
              else let (digits, exponent) = to_exponential \<bar>num_val val\<bar>
                   in if exponent < - 4 \<or> exponent \<ge> 6 then
                        let fraction = (if length digits > 1 then dot # drop 1 digits else []);
                            text = nat_to_string (nat \<bar>exponent\<bar>);
                            magnitude = replicate (2 - length text) 48 @ text
                        in sign @ take 1 digits @ fraction @ [101] @ (if exponent < 0 then [45] else [43])
                             @ magnitude
                      else let pointAt = exponent + 1
                        in if pointAt \<le> 0 then sign @ [48, dot] @ replicate (nat (- pointAt)) 48 @ digits
                           else if pointAt \<ge> int (length digits)
                           then sign @ digits @ replicate (nat pointAt - length digits) 48
                           else sign @ take (nat pointAt) digits @ dot # drop (nat pointAt) digits)"

definition convertToString :: "jsval \<Rightarrow> bool \<Rightarrow> jsval" where
  "convertToString val int_flag =
     (case val of
        VStr s \<Rightarrow> VStr s
      | VBool b \<Rightarrow> VStr (if b then js ''true'' else js ''false'')
      | VBig n \<Rightarrow> VStr (int_to_string n)
      | VNum x \<Rightarrow> VStr (if int_flag \<and> is_integer x then int_to_string (num_trunc x) else formatGoDouble x)
      | _ \<Rightarrow> VError)"

subsection \<open>Reading numbers\<close>

definition strip_sign :: "jstring \<Rightarrow> bool \<times> jstring" where
  "strip_sign s =
     (if take 1 s = [45] then (True, drop 1 s) else if take 1 s = [43] then (False, drop 1 s) else (False, s))"

definition all_digits :: "jstring \<Rightarrow> bool" where
  "all_digits s \<longleftrightarrow> s \<noteq> [] \<and> list_all is_digit s"

text \<open>\<open>CEL_DOUBLE_STRING\<close>: the sign, the digits on both sides of the point, and the exponent.\<close>

definition CEL_DOUBLE_STRING :: "jstring \<Rightarrow> (bool \<times> jstring \<times> jstring \<times> int) option" where
  "CEL_DOUBLE_STRING s =
     (let (neg, r) = strip_sign s;
          whole = takeWhile is_digit r; r1 = dropWhile is_digit r;
          (fraction, r2) = (case expect dot r1 of
              None \<Rightarrow> ([], r1) | Some r' \<Rightarrow> (takeWhile is_digit r', dropWhile is_digit r'))
      in if whole = [] \<and> fraction = [] then None
         else case r2 of
           [] \<Rightarrow> Some (neg, whole, fraction, 0)
         | c # r3 \<Rightarrow>
             let (neg_e, e) = strip_sign r3
             in if (c = 101 \<or> c = 69) \<and> all_digits e
                then Some (neg, whole, fraction, (if neg_e then - 1 else 1) * int (digits_val e))
                else None)"

text \<open>\<open>Number(text)\<close> of a text of that shape: its exact value rounded once, the sign kept on a zero.\<close>

definition number_of_decimal :: "bool \<times> jstring \<times> jstring \<times> int \<Rightarrow> jsnum" where
  "number_of_decimal = (\<lambda>(neg, whole, fraction, e).
     let x = round64 (of_nat (digits_val (whole @ fraction)) * 10 powi (e - int (length fraction)))
     in if neg then num_uminus x else x)"

definition convertToDouble :: "jsval \<Rightarrow> jsval" where
  "convertToDouble val =
     (case val of
        VNum x \<Rightarrow> if is_finite x then VNum x else VError
      | VBig n \<Rightarrow> VNum (num_of_int n)
      | VStr s \<Rightarrow>
          (case CEL_DOUBLE_STRING s of
             None \<Rightarrow> VError
           | Some d \<Rightarrow> let converted = number_of_decimal d
                       in if is_finite converted then VNum converted else VError)
      | _ \<Rightarrow> VError)"

definition celInt :: "int \<Rightarrow> jsval" where
  "celInt val =
     (if val < INT64_MIN \<or> val > INT64_MAX then VError
      else let asNumber = num_of_int val
           in if is_safe_integer asNumber then VNum asNumber else VBig val)"

text \<open>\<open>CEL_INT_STRING\<close> and \<open>BigInt(text)\<close>.\<close>

definition CEL_INT_STRING :: "jstring \<Rightarrow> int option" where
  "CEL_INT_STRING s =
     (let (neg, r) = strip_sign s
      in if all_digits r then Some ((if neg then - 1 else 1) * int (digits_val r)) else None)"

definition convertToInt :: "jsval \<Rightarrow> jsval" where
  "convertToInt val =
     (case val of
        VBig n \<Rightarrow> celInt n
      | VNum x \<Rightarrow>
          if \<not> is_finite x \<or> num_le x (Fin (- (2 ^ 63))) \<or> num_le (Fin (2 ^ 63)) x then VError
          else celInt (num_trunc x)
      | VStr s \<Rightarrow> (case CEL_INT_STRING s of None \<Rightarrow> VError | Some n \<Rightarrow> celInt n)
      | _ \<Rightarrow> VError)"

subsection \<open>Int arithmetic\<close>

definition toBigInt :: "jsval \<Rightarrow> int option" where
  "toBigInt val =
     (case val of
        VBig n \<Rightarrow> Some n
      | VNum x \<Rightarrow> if is_integer x then Some (num_trunc x) else None
      | _ \<Rightarrow> None)"

datatype arithmeticOperator = Add | Sub | Mult | Div | Mod

definition intArithmetic :: "arithmeticOperator \<Rightarrow> jsval \<Rightarrow> jsval \<Rightarrow> jsval" where
  "intArithmetic operator left right =
     (case (toBigInt left, toBigInt right) of
        (Some a, Some b) \<Rightarrow>
          (case operator of
             Add \<Rightarrow> celInt (a + b)
           | Sub \<Rightarrow> celInt (a - b)
           | Mult \<Rightarrow> celInt (a * b)
           | Div \<Rightarrow> if b = 0 then VError else celInt (a sdiv b)
           | Mod \<Rightarrow> if b = 0 then VError else celInt (a smod b))
      | _ \<Rightarrow> VError)"

subsection \<open>Properties\<close>

lemma rat_trunc_of_int [simp]: "rat_trunc (of_int n) = n"
  by (simp add: rat_trunc_def flip: of_int_minus)

lemma num_of_int_small: "\<bar>n\<bar> \<le> max_safe \<Longrightarrow> num_of_int n = Fin (of_int n)"
  by (rule round64_int_exact) (simp add: max_safe_def)

lemma celInt_form:
  "celInt n = (if \<not> inInt64 n then VError else if \<bar>n\<bar> \<le> max_safe then VInt n else VBig n)"
proof (cases "\<bar>n\<bar> \<le> max_safe")
  case True
  then show ?thesis
    by (auto simp: celInt_def inInt64_def num_of_int_small is_safe_integer_def Let_def not_le simp flip: of_int_abs)
next
  case False
  then have "\<not> is_safe_integer (num_of_int n)"
    unfolding num_of_int_def by (intro round64_large) (simp add: max_safe_def flip: of_int_abs)
  then show ?thesis using False by (auto simp: celInt_def inInt64_def Let_def)
qed

lemma toBigInt_celInt: "toBigInt (celInt n) = (if inInt64 n then Some n else None)"
  by (simp add: celInt_form toBigInt_def num_trunc_def)

lemma celInt_eq_VError [simp]: "celInt n = VError \<longleftrightarrow> \<not> inInt64 n"
  by (simp add: celInt_form)

lemma sdiv_smod_law:
  fixes a b :: int
  assumes "b \<noteq> 0"
  shows "a = (a sdiv b) * b + a smod b" "\<bar>a smod b\<bar> < \<bar>b\<bar>" "0 \<le> a * (a smod b)"
proof -
  have q: "a sdiv b = sgn a * sgn b * (\<bar>a\<bar> div \<bar>b\<bar>)"
    by (simp add: signed_divide_int_def)
  have m: "a smod b = sgn a * (\<bar>a\<bar> mod \<bar>b\<bar>)" by (simp add: signed_modulo_int_def)
  have "(a sdiv b) * b = sgn a * (\<bar>a\<bar> div \<bar>b\<bar>) * (sgn b * b)" by (simp add: q)
  also have "sgn b * b = \<bar>b\<bar>" by (simp add: abs_sgn mult.commute)
  finally have "(a sdiv b) * b + a smod b = sgn a * (\<bar>a\<bar> div \<bar>b\<bar> * \<bar>b\<bar> + \<bar>a\<bar> mod \<bar>b\<bar>)"
    by (simp only: m distrib_left mult.assoc)
  also have "\<dots> = a" by (simp only: div_mult_mod_eq sgn_mult_abs)
  finally show "a = (a sdiv b) * b + a smod b" by simp
  show "\<bar>a smod b\<bar> < \<bar>b\<bar>" using assms by (auto simp: m abs_mult sgn_if)
  have "a * (a smod b) = \<bar>a\<bar> * (\<bar>a\<bar> mod \<bar>b\<bar>)" by (simp add: m abs_sgn algebra_simps)
  then show "0 \<le> a * (a smod b)" using assms by simp
qed

lemma sdiv_in_int64:
  assumes "inInt64 a" "b \<noteq> 0"
  shows "inInt64 (a sdiv b) \<longleftrightarrow> \<not> (a = INT64_MIN \<and> b = - 1)"
proof (cases "\<bar>b\<bar> = 1")
  case True
  then have "b = 1 \<or> b = - 1" by linarith
  then show ?thesis using assms by (auto simp: signed_divide_int_def sgn_mult_abs inInt64_def INT64_MIN_def INT64_MAX_def)
next
  case False
  then have "\<bar>a\<bar> div \<bar>b\<bar> \<le> \<bar>a\<bar> div 2" using assms by (intro zdiv_mono2) simp_all
  moreover have "\<bar>a\<bar> \<le> 2 ^ 63"
    using assms by (auto simp: inInt64_def INT64_MIN_def INT64_MAX_def abs_le_iff)
  ultimately have "\<bar>a\<bar> div \<bar>b\<bar> \<le> 2 ^ 62" by simp
  moreover have "\<bar>a sdiv b\<bar> \<le> \<bar>a\<bar> div \<bar>b\<bar>"
  proof -
    have "0 \<le> \<bar>a\<bar> div \<bar>b\<bar>" by (simp add: div_int_pos_iff)
    then show ?thesis by (auto simp: signed_divide_int_def sgn_if)
  qed
  ultimately show ?thesis using False by (auto simp: inInt64_def INT64_MIN_def INT64_MAX_def)
qed

lemma smod_in_int64: "inInt64 a \<Longrightarrow> inInt64 (a smod b)"
proof -
  assume a: "inInt64 a"
  have "\<bar>a\<bar> mod \<bar>b\<bar> \<le> \<bar>a\<bar>" by (simp add: zmod_le_nonneg_dividend)
  moreover have "0 \<le> \<bar>a\<bar> mod \<bar>b\<bar>" by (cases "b = 0") simp_all
  ultimately show ?thesis using a
    by (auto simp: signed_modulo_int_def sgn_if inInt64_def INT64_MIN_def INT64_MAX_def)
qed

lemma strip_sign_digits: "all_digits s \<Longrightarrow> strip_sign s = (False, s)"
  by (cases s) (auto simp: strip_sign_def all_digits_def is_digit_def)

lemma all_digits_nat_to_string [simp]: "all_digits (nat_to_string n)"
  using nat_to_string_digits by (auto simp: all_digits_def list_all_iff)

lemma CEL_INT_STRING_int: "CEL_INT_STRING (int_to_string n) = Some n"
  by (simp add: CEL_INT_STRING_def int_to_string_def strip_sign_digits)
    (simp add: strip_sign_def)

text \<open>
  C30. An int is carried canonically and without loss: as a number exactly when it is a safe integer, as a
  bigint up to the int64 bounds, as the evaluation error past them; and the evaluator reads back the
  int it stored.
\<close>

theorem celInt_canonical:
  "celInt n = (if \<not> inInt64 n then VError else if \<bar>n\<bar> \<le> max_safe then VInt n else VBig n) \<and>
   toBigInt (celInt n) = (if inInt64 n then Some n else None)"
  using celInt_form [of n] toBigInt_celInt [of n] by (rule conjI)

text \<open>
  C31. Int division and remainder satisfy the law of truncated division, and over int64 operands each is an
  error exactly for a zero divisor or, for the quotient, the one overflow \<open>INT64_MIN / -1\<close>.
\<close>

theorem intArithmetic_division:
  assumes "toBigInt l = Some a" "toBigInt r = Some b" "inInt64 a"
  shows "(intArithmetic Div l r = VError \<longleftrightarrow> b = 0 \<or> (a = INT64_MIN \<and> b = - 1)) \<and>
    (intArithmetic Mod l r = VError \<longleftrightarrow> b = 0) \<and>
    (b \<noteq> 0 \<longrightarrow> (\<exists>q m. intArithmetic Div l r = celInt q \<and> intArithmetic Mod l r = celInt m \<and>
       a = q * b + m \<and> \<bar>m\<bar> < \<bar>b\<bar> \<and> 0 \<le> a * m))"
proof (cases "b = 0")
  case True
  then show ?thesis using assms by (simp add: intArithmetic_def)
next
  case False
  note law = sdiv_smod_law [OF False, of a]
  have "intArithmetic Div l r = celInt (a sdiv b)" "intArithmetic Mod l r = celInt (a smod b)"
    using assms False by (simp_all add: intArithmetic_def)
  then show ?thesis using False law sdiv_in_int64 [OF assms(3) False] smod_in_int64 [OF assms(3)] by auto
qed

lemma intArithmetic_division_witness: "intArithmetic Div (VInt (- 7)) (VInt 2) = VError \<longleftrightarrow> False"
  using intArithmetic_division [of "VInt (- 7)" "- 7" "VInt 2" 2]
  by (simp add: toBigInt_def num_trunc_def rat_trunc_def inInt64_def INT64_MIN_def INT64_MAX_def)

text \<open>
  C32. \<open>int(string(n))\<close> is \<open>n\<close> for every int, whichever way it is carried.
\<close>

theorem int_text_roundtrip:
  assumes "inInt64 n"
  shows "convertToString (celInt n) True = VStr (int_to_string n) \<and>
    convertToInt (convertToString (celInt n) True) = celInt n"
proof -
  have "convertToString (celInt n) True = VStr (int_to_string n)"
    using assms by (simp add: celInt_form convertToString_def num_trunc_def)
  then show ?thesis by (simp add: convertToInt_def CEL_INT_STRING_int)
qed

lemma int_text_roundtrip_witness:
  "convertToInt (convertToString (celInt (- (2 ^ 60))) True) = celInt (- (2 ^ 60))"
proof -
  have "inInt64 (- (2 ^ 60))" by (simp add: inInt64_def INT64_MIN_def INT64_MAX_def)
  from int_text_roundtrip [OF this] show ?thesis by (rule conjunct2)
qed

end
