(* ===== verification/Convex_Regex.thy ===== *)
theory Convex_Regex
  imports JS_String
begin

text \<open>
  convex/src/regex.ts: the subset of RE2 the post-filter answers with plain string comparisons.
  \<open>SAFE_REGEX_PATTERN\<close> is matched from the left: none of \<open>^\<close>, \<open>.\<close>, \<open>*\<close>, \<open>$\<close> belongs to the literal's
  character class, so its lazy group extends over exactly the class's characters.
\<close>

record SafeRegexPattern =
  literalText :: jstring
  anchoredStart :: bool
  anchoredEnd :: bool
  trailingWildcard :: bool

text \<open>\<open>[A-Za-z0-9 _:/-]\<close>\<close>

definition literal_char :: "code_unit \<Rightarrow> bool" where
  "literal_char c \<longleftrightarrow>
     (65 \<le> unat c \<and> unat c \<le> 90) \<or> (97 \<le> unat c \<and> unat c \<le> 122) \<or> is_digit c \<or> c = 32 \<or> c = 95 \<or> c = 58 \<or>
     c = 47 \<or> c = 45"

definition parseSafeRegexPattern :: "jstring \<Rightarrow> SafeRegexPattern option" where
  "parseSafeRegexPattern pattern =
     (let caret = (take 1 pattern = [94]);
          r = (if caret then drop 1 pattern else pattern);
          lit = takeWhile literal_char r; r1 = dropWhile literal_char r;
          wild = (take 2 r1 = [dot, 42]);
          r2 = (if wild then drop 2 r1 else r1)
      in if lit = [] \<or> \<not> (r2 = [] \<or> r2 = [36]) then None
         else if wild \<and> r2 = [36] then None
         else Some \<lparr>literalText = lit, anchoredStart = caret, anchoredEnd = (r2 = [36]), trailingWildcard = wild\<rparr>)"

definition matchesSafeRegexPattern :: "jstring \<Rightarrow> SafeRegexPattern \<Rightarrow> bool" where
  "matchesSafeRegexPattern receiver pattern =
     (if anchoredStart pattern \<and> anchoredEnd pattern then receiver = literalText pattern
      else if anchoredStart pattern then startsWith receiver (literalText pattern)
      else if anchoredEnd pattern then endsWith receiver (literalText pattern)
      else js_includes receiver (literalText pattern))"

subsection \<open>Properties\<close>

text \<open>
  What RE2 means by the pattern: the text of the regular expression, and its unanchored search over the
  receiver. \<open>.\<close> matches any character except a newline; the other characters of a literal are
  themselves.
\<close>

definition pattern_text :: "bool \<Rightarrow> jstring \<Rightarrow> bool \<Rightarrow> bool \<Rightarrow> jstring" where
  "pattern_text caret lit star dollar =
     (if caret then [94] else []) @ lit @ (if star then [dot, 42] else []) @ (if dollar then [36] else [])"

definition re2_search :: "bool \<Rightarrow> jstring \<Rightarrow> bool \<Rightarrow> bool \<Rightarrow> jstring \<Rightarrow> bool" where
  "re2_search caret lit star dollar s \<longleftrightarrow>
     (\<exists>before run after. s = before @ lit @ run @ after \<and>
        (if star then 10 \<notin> set run else run = []) \<and>
        (caret \<longrightarrow> before = []) \<and> (dollar \<longrightarrow> after = []))"

lemma literal_char_simps [simp]:
  "\<not> literal_char 94" "\<not> literal_char 46" "\<not> literal_char 42" "\<not> literal_char 36"
  by (simp_all add: literal_char_def is_digit_def)

lemma parse_pattern_text:
  assumes "lit \<noteq> []" "list_all literal_char lit" "\<not> (star \<and> dollar)"
  shows "parseSafeRegexPattern (pattern_text caret lit star dollar) =
    Some \<lparr>literalText = lit, anchoredStart = caret, anchoredEnd = dollar, trailingWildcard = star\<rparr>"
proof -
  obtain c l where l: "lit = c # l" using assms(1) by (cases lit) auto
  then have c: "c \<noteq> 94" using assms(2) by auto
  have "takeWhile literal_char (lit @ t) = lit" "dropWhile literal_char (lit @ t) = t"
    if "t = [] \<or> t = [36] \<or> t = [dot, 42]" for t
    using assms(2) that by (auto simp: list_all_iff takeWhile_append2 dropWhile_append2 dot_def)
  note tw = this [of "[]"] this [of "[36]"] this [of "[dot, 42]"]
  have "dropWhile literal_char l = []" "takeWhile literal_char l = l" using assms(2) l by (auto simp: list_all_iff)
  note tw = tw this
  show ?thesis
    using assms tw c l
    by (cases caret; cases star; cases dollar) (auto simp: parseSafeRegexPattern_def pattern_text_def Let_def dot_def
          simp del: dropWhile_eq_Nil_conv takeWhile_eq_all_conv)
qed

lemma parse_pattern_text_only:
  assumes "parseSafeRegexPattern p = Some r"
  shows "p = pattern_text (anchoredStart r) (literalText r) (trailingWildcard r) (anchoredEnd r)"
    "literalText r \<noteq> []" "list_all literal_char (literalText r)" "\<not> (trailingWildcard r \<and> anchoredEnd r)"
proof -
  define q where "q = (if take 1 p = [94] then drop 1 p else p)"
  define r1 where "r1 = dropWhile literal_char q"
  have p: "p = (if take 1 p = [94] then [94] else []) @ q"
    by (cases p) (auto simp: q_def)
  have q: "q = takeWhile literal_char q @ r1" by (simp add: r1_def)
  have r1: "r1 = (if take 2 r1 = [dot, 42] then [dot, 42] else []) @ (if take 2 r1 = [dot, 42] then drop 2 r1 else r1)"
    by (cases r1; cases "tl r1") auto
  have l: "list_all literal_char (takeWhile literal_char q)" by (auto simp: list_all_iff dest: set_takeWhileD)
  show "p = pattern_text (anchoredStart r) (literalText r) (trailingWildcard r) (anchoredEnd r)"
    "literalText r \<noteq> []" "list_all literal_char (literalText r)" "\<not> (trailingWildcard r \<and> anchoredEnd r)"
    using assms p q r1 l unfolding parseSafeRegexPattern_def Let_def q_def [symmetric] r1_def [symmetric] pattern_text_def
    by (auto split: if_splits)
qed

text \<open>
  C23. The accepted patterns are exactly those of the documented subset: an optional caret, a non-empty
  literal of plain characters, and at most one of a trailing wildcard and a dollar.
\<close>

theorem regex_subset_exact:
  "parseSafeRegexPattern p = Some r \<longleftrightarrow>
   (p = pattern_text (anchoredStart r) (literalText r) (trailingWildcard r) (anchoredEnd r) \<and>
    literalText r \<noteq> [] \<and> list_all literal_char (literalText r) \<and> \<not> (trailingWildcard r \<and> anchoredEnd r))"
  using parse_pattern_text [of "literalText r" "trailingWildcard r" "anchoredEnd r" "anchoredStart r"]
    parse_pattern_text_only [of p r] by auto

text \<open>
  C24. Comparing strings answers every accepted pattern as RE2's search does, over every receiver.
\<close>

theorem regex_matches_re2:
  assumes "parseSafeRegexPattern p = Some r"
  shows "matchesSafeRegexPattern s r \<longleftrightarrow>
    re2_search (anchoredStart r) (literalText r) (trailingWildcard r) (anchoredEnd r) s"
proof -
  have star: "(\<exists>run after. t = literalText r @ run @ after \<and> 10 \<notin> set run) \<longleftrightarrow> (\<exists>after. t = literalText r @ after)" for t
    by (metis append_Nil empty_iff empty_set append.assoc)
  have "\<not> (trailingWildcard r \<and> anchoredEnd r)" using parse_pattern_text_only(4) [OF assms] .
  then show ?thesis
    by (cases "anchoredStart r"; cases "anchoredEnd r"; cases "trailingWildcard r")
      (auto simp: matchesSafeRegexPattern_def re2_search_def startsWith_def endsWith_def js_includes_iff
        prefix_def suffix_def, (metis append_Nil empty_iff empty_set append.assoc)+)
qed

lemma regex_matches_re2_witness:
  "matchesSafeRegexPattern (js ''a b'') \<lparr>literalText = js ''b'', anchoredStart = False, anchoredEnd = True, trailingWildcard = False\<rparr>
   \<longleftrightarrow> re2_search False (js ''b'') False True (js ''a b'')"
  using regex_matches_re2 [of "js ''b$''" "\<lparr>literalText = js ''b'', anchoredStart = False, anchoredEnd = True, trailingWildcard = False\<rparr>" "js ''a b''"]
  by (simp add: parseSafeRegexPattern_def js_def literal_char_def is_digit_def)

end
