(* ===== verification/Convex_Operands.thy ===== *)
theory Convex_Operands
  imports Convex_Errors
begin

text \<open>
  convex/src/operands.ts and the mapper types of convex/src/index.ts: reading plan nodes and the
  caller's mapper.
\<close>

record MapperConfig =
  fieldName :: "jstring option"
  nullable :: "bool option"

text \<open>A mapper record is its own properties; a mapper function is the caller's.\<close>

datatype mapper =
    MapperRecord "(jstring \<times> MapperConfig) list"
  | MapperFunction "jstring \<Rightarrow> MapperConfig option"

text \<open>
  \<open>mapper[reference]\<close> also finds what every object inherits; such a value has neither a \<open>field\<close> nor a
  \<open>nullable\<close> property.
\<close>

definition inherited_config :: MapperConfig where
  "inherited_config = \<lparr>fieldName = None, nullable = None\<rparr>"

fun mapperConfig :: "jstring \<Rightarrow> mapper \<Rightarrow> MapperConfig option" where
  "mapperConfig reference (MapperFunction f) = f reference"
| "mapperConfig reference (MapperRecord entries) =
     (case map_of entries reference of
        Some config \<Rightarrow> Some config
      | None \<Rightarrow> if reference \<in> set object_prototype_names then Some inherited_config else None)"

definition isMappedReference :: "jstring \<Rightarrow> mapper \<Rightarrow> bool" where
  "isMappedReference reference mapper \<longleftrightarrow> mapperConfig reference mapper \<noteq> None"

definition resolveField :: "jstring \<Rightarrow> mapper \<Rightarrow> jstring" where
  "resolveField reference mapper =
     (case Option.bind (mapperConfig reference mapper) fieldName of Some f \<Rightarrow> f | None \<Rightarrow> reference)"

definition nullableByDefault :: "MapperConfig \<Rightarrow> MapperConfig" where
  "nullableByDefault config =
     config\<lparr>nullable := Some (case nullable config of Some b \<Rightarrow> b | None \<Rightarrow> True)\<rparr>"

fun withOmittedNullDefault :: "mapper \<Rightarrow> mapper" where
  "withOmittedNullDefault (MapperFunction f) = MapperFunction (\<lambda>key. map_option nullableByDefault (f key))"
| "withOmittedNullDefault (MapperRecord entries) =
     MapperRecord (map (\<lambda>(key, config). (key, nullableByDefault config)) entries)"

definition isNullableField :: "jstring \<Rightarrow> mapper \<Rightarrow> bool" where
  "isNullableField reference mapper =
     (case Option.bind (mapperConfig reference mapper) nullable of Some b \<Rightarrow> b | None \<Rightarrow> False)"

definition operandAt :: "operand list \<Rightarrow> nat \<Rightarrow> refusal \<Rightarrow> error + operand" where
  "operandAt operands index message =
     (case nth_opt operands index of None \<Rightarrow> refuse message | Some operand \<Rightarrow> Inr operand)"

subsection \<open>The \<open>"omitted"\<close> convention\<close>

lemma nullableByDefault_simps [simp]:
  "fieldName (nullableByDefault c) = fieldName c"
  "nullable (nullableByDefault c) = Some (nullable c \<noteq> Some False)"
  by (auto simp: nullableByDefault_def split: option.splits)

lemma bind_map_option [simp]: "Option.bind (map_option f x) g = Option.bind x (\<lambda>y. g (f y))"
  by (cases x) simp_all

lemma map_of_default [simp]:
  "map_of (map (\<lambda>(key, config). (key, nullableByDefault config)) entries) r =
     map_option nullableByDefault (map_of entries r)"
  by (induction entries) auto

lemma mapperConfig_omitted:
  "mapperConfig r (withOmittedNullDefault m) =
     (case m of
        MapperFunction f \<Rightarrow> map_option nullableByDefault (f r)
      | MapperRecord entries \<Rightarrow>
          (case map_of entries r of
             Some config \<Rightarrow> Some (nullableByDefault config)
           | None \<Rightarrow> if r \<in> set object_prototype_names then Some inherited_config else None))"
  by (cases m) (auto split: option.splits)

lemma isMappedReference_omitted [simp]:
  "isMappedReference r (withOmittedNullDefault m) \<longleftrightarrow> isMappedReference r m"
  by (cases m) (auto simp: isMappedReference_def mapperConfig_omitted split: option.splits)

lemma resolveField_omitted [simp]: "resolveField r (withOmittedNullDefault m) = resolveField r m"
  by (cases m) (auto simp: resolveField_def mapperConfig_omitted split: option.splits)

text \<open>An entry of the caller's own is nullable unless it says otherwise.\<close>

definition declares_not_nullable :: "jstring \<Rightarrow> mapper \<Rightarrow> bool" where
  "declares_not_nullable r m \<longleftrightarrow> Option.bind (mapperConfig r m) nullable = Some False"

lemma isNullableField_omitted:
  assumes "isMappedReference r m" "r \<notin> set object_prototype_names"
  shows "isNullableField r (withOmittedNullDefault m) \<longleftrightarrow> \<not> declares_not_nullable r m"
  using assms
  by (cases m)
    (auto simp: isNullableField_def declares_not_nullable_def isMappedReference_def mapperConfig_omitted
      split: option.splits)

end
