(* ===== verification/Convex_Evaluate.thy ===== *)
theory Convex_Evaluate
  imports Convex_Convert Convex_Regex Convex_Operands
begin

text \<open>
  convex/src/evaluate.ts: the adapter's own CEL evaluator, one definition per operator and helper, the
  roster \<open>OPERATORS\<close> and the recursion \<open>evaluate\<close> over a plan.

  An operator's function receives a \<open>Call\<close> and calls \<open>evaluate\<close> on the operands it needs. So that each
  operator is a definition of its own, the model's call carries, beside the operands, the evaluation of
  every operand (\<open>evals\<close>) and of every operand's operands (\<open>subs\<close>: a lambda's body, a struct entry's
  value) as functions of the scope; \<open>evaluate\<close> builds them from itself. An operator that does not
  evaluate an operand does not apply its function, so laziness and the order of exceptions are those of
  the code. \<open>Date.now()\<close> is the scope's \<open>clock\<close>, in milliseconds.
\<close>

record scope =
  doc :: jsval
  mapper :: mapper
  bindings :: "jstring \<Rightarrow> jsval option"
  nullIsMissing :: bool
  clock :: int

type_synonym evaluator = "scope \<Rightarrow> error + jsval"

record Call =
  operator :: string
  operands :: "operand list"
  evals :: "evaluator list"
  subs :: "evaluator list list"
  scope :: scope

subsection \<open>Variables\<close>

definition readPath :: "jsval \<Rightarrow> scope \<Rightarrow> jsval" where
  "readPath val s = (if nullIsMissing s \<and> val = VNull then VError else val)"

text \<open>The part of a name before its first dot, and the part after it.\<close>

definition name_root :: "jstring \<Rightarrow> jstring" where
  "name_root name = takeWhile (\<lambda>c. c \<noteq> dot) name"

definition name_path :: "jstring \<Rightarrow> jstring" where
  "name_path name = drop 1 (dropWhile (\<lambda>c. c \<noteq> dot) name)"

text \<open>\<open>name in bindings\<close> is true of the bindings' own names; inherited names are left out.\<close>

definition lookUp :: "jstring \<Rightarrow> scope \<Rightarrow> jsval" where
  "lookUp name s =
     (let from_doc = (case bindings s name of
            Some v \<Rightarrow> v
          | None \<Rightarrow> readPath (getNestedValue (doc s) (resolveField name (mapper s))) s)
      in if dot \<in> set name then
           case bindings s (name_root name) of
             Some v \<Rightarrow> readPath (getNestedValue v (name_path name)) s
           | None \<Rightarrow> from_doc
         else from_doc)"

definition arg :: "Call \<Rightarrow> nat \<Rightarrow> string \<Rightarrow> error + jsval" where
  "arg call index role =
     (case nth_opt (evals call) index of
        None \<Rightarrow> refuse (MissingOperand (operator call) role)
      | Some evaluate_operand \<Rightarrow> evaluate_operand (scope call))"

subsection \<open>Junctions, comparisons, string tests\<close>

fun junction_loop :: "bool \<Rightarrow> bool \<Rightarrow> evaluator list \<Rightarrow> scope \<Rightarrow> error + jsval" where
  "junction_loop decisive sawError [] s = Inr (if sawError then VError else VBool (\<not> decisive))"
| "junction_loop decisive sawError (e # es) s =
     bindE (e s) (\<lambda>v.
       let val = asBoolean v
       in if val = VBool decisive then Inr (VBool decisive)
          else junction_loop decisive (sawError \<or> isEvaluationError val) es s)"

definition junction :: "bool \<Rightarrow> Call \<Rightarrow> error + jsval" where
  "junction decisive call = junction_loop decisive False (evals call) (scope call)"

definition negation :: "Call \<Rightarrow> error + jsval" where
  "negation call =
     bindE (arg call 0 ''operand'') (\<lambda>v.
       case asBoolean v of VBool b \<Rightarrow> Inr (VBool (\<not> b)) | e \<Rightarrow> Inr e)"

definition comparison :: "cmp_op \<Rightarrow> Call \<Rightarrow> error + jsval" where
  "comparison op call =
     bindE (arg call 0 ''left operand'') (\<lambda>l.
     bindE (arg call 1 ''right operand'') (\<lambda>r. Inr (compareValues op l r)))"

definition stringTest :: "string \<Rightarrow> (jstring \<Rightarrow> jstring \<Rightarrow> bool) \<Rightarrow> Call \<Rightarrow> error + jsval" where
  "stringTest argumentRole test call =
     bindE (arg call 0 ''receiver'') (\<lambda>receiver.
     bindE (arg call 1 argumentRole) (\<lambda>argument.
       case (receiver, argument) of
         (VStr s, VStr a) \<Rightarrow> Inr (VBool (test s a))
       | _ \<Rightarrow> Inr VError))"

definition regex_match :: "Call \<Rightarrow> error + jsval" where
  "regex_match call =
     bindE (arg call 0 ''receiver'') (\<lambda>receiver.
     bindE (arg call 1 ''pattern'') (\<lambda>pattern.
       case (receiver, pattern) of
         (VStr s, VStr p) \<Rightarrow>
           (case parseSafeRegexPattern p of
              Some safePattern \<Rightarrow> Inr (VBool (matchesSafeRegexPattern s safePattern))
            | None \<Rightarrow> Inr VError)
       | _ \<Rightarrow> Inr VError))"

subsection \<open>Lambdas and macros\<close>

definition looksLikeLambdaVariable :: "operand \<Rightarrow> bool" where
  "looksLikeLambdaVariable op = (case op of Variable name \<Rightarrow> dot \<notin> set name | _ \<Rightarrow> False)"

definition variable_name :: "operand \<Rightarrow> jstring" where
  "variable_name op = (case op of Variable name \<Rightarrow> name | _ \<Rightarrow> [])"

text \<open>
  The lambda's body and variables. \<open>parts\<close> runs parallel to the lambda's operands and the body is
  returned from it: the operands themselves in validation, their evaluations in the evaluator.
\<close>

definition lambdaComponents :: "operand \<Rightarrow> 'a list \<Rightarrow> error + ('a \<times> jstring list)" where
  "lambdaComponents lambda parts =
     (case lambda of
        Expression op args \<Rightarrow>
          if op \<noteq> ''lambda'' then refuse ExpectedLambda
          else (case args of
            [body, first, second] \<Rightarrow>
              if looksLikeLambdaVariable first \<and> looksLikeLambdaVariable second
              then Inr (parts ! 0, [variable_name first, variable_name second])
              else refuse LambdaTwoVariables
          | [first, second] \<Rightarrow>
              if looksLikeLambdaVariable second then Inr (parts ! 0, [variable_name second])
              else if looksLikeLambdaVariable first then Inr (parts ! 1, [variable_name first])
              else refuse LambdaVariable
          | _ \<Rightarrow> refuse LambdaArity)
      | _ \<Rightarrow> refuse ExpectedLambda)"

definition validateMacro :: "nat \<Rightarrow> string \<Rightarrow> operand list \<Rightarrow> error + unit" where
  "validateMacro maxVariables op args =
     bindE (operandAt args 1 (MissingOperand op ''lambda'')) (\<lambda>lambda.
     bindE (lambdaComponents lambda (subOperands lambda)) (\<lambda>(_, variables).
       if length variables > maxVariables then refuse (MacroVariables op (length variables))
       else Inr ()))"

text \<open>The bindings a lambda's body sees: the second variable is written after the first.\<close>

fun bind_variables :: "jstring list \<Rightarrow> jsval list \<Rightarrow> scope \<Rightarrow> scope" where
  "bind_variables (x # xs) (v # vs) s = bind_variables xs vs (s\<lparr>bindings := (bindings s)(x \<mapsto> v)\<rparr>)"
| "bind_variables _ _ s = s"

definition lambdaOf :: "Call \<Rightarrow> error + (nat \<times> (jsval list \<Rightarrow> error + jsval))" where
  "lambdaOf call =
     bindE (operandAt (operands call) 1 (MissingOperand (operator call) ''lambda'')) (\<lambda>lambda.
     bindE (lambdaComponents lambda (subs call ! 1)) (\<lambda>(body, variables).
       Inr (length variables, \<lambda>item. body (bind_variables variables item (scope call)))))"

definition comprehensionPairs :: "jsval \<Rightarrow> jsval list list option" where
  "comprehensionPairs collection =
     (case collection of
        VArr xs \<Rightarrow> Some (map (\<lambda>(i, x). [VInt (int i), x]) (List.enumerate 0 xs))
      | VObj kvs \<Rightarrow> Some (map (\<lambda>(k, v). [VStr k, v]) kvs)
      | _ \<Rightarrow> None)"

definition macroItems :: "jsval \<Rightarrow> jsval list option" where
  "macroItems collection =
     (case collection of
        VArr xs \<Rightarrow> Some xs
      | VObj kvs \<Rightarrow> Some (map (\<lambda>(k, v). VStr k) kvs)
      | _ \<Rightarrow> None)"

datatype macro = MExists | MExistsOne | MAll

fun quantifier_loop ::
  "macro \<Rightarrow> nat \<Rightarrow> bool \<Rightarrow> (jsval list \<Rightarrow> error + jsval) \<Rightarrow> jsval list list \<Rightarrow> error + jsval" where
  "quantifier_loop m trueCount sawError body [] =
     Inr (if sawError then VError
          else case m of
            MExists \<Rightarrow> VBool False
          | MExistsOne \<Rightarrow> VBool (trueCount = 1)
          | MAll \<Rightarrow> VBool True)"
| "quantifier_loop m trueCount sawError body (item # items) =
     bindE (body item) (\<lambda>v.
       let val = asBoolean v
       in if val = VBool True then
            (if m = MExists then Inr (VBool True)
             else quantifier_loop m (trueCount + 1) sawError body items)
          else if val = VBool False \<and> m = MAll then Inr (VBool False)
          else quantifier_loop m trueCount (sawError \<or> isEvaluationError val) body items)"

definition quantifier :: "macro \<Rightarrow> Call \<Rightarrow> error + jsval" where
  "quantifier m call =
     bindE (lambdaOf call) (\<lambda>(arity, body).
     bindE (arg call 0 ''collection'') (\<lambda>target.
       case (if arity = 2 then comprehensionPairs target
             else map_option (map (\<lambda>item. [item])) (macroItems target)) of
         None \<Rightarrow> Inr VError
       | Some items \<Rightarrow> quantifier_loop m 0 False body items))"

fun filter_loop :: "(jsval list \<Rightarrow> error + jsval) \<Rightarrow> jsval list \<Rightarrow> jsval list \<Rightarrow> error + jsval" where
  "filter_loop body filtered [] = Inr (VArr filtered)"
| "filter_loop body filtered (item # items) =
     bindE (body [item]) (\<lambda>v.
       case asBoolean v of
         VBool b \<Rightarrow> filter_loop body (if b then filtered @ [item] else filtered) items
       | _ \<Rightarrow> Inr VError)"

definition filter_macro :: "Call \<Rightarrow> error + jsval" where
  "filter_macro call =
     bindE (arg call 0 ''collection'') (\<lambda>target.
       case macroItems target of
         None \<Rightarrow> Inr VError
       | Some collection \<Rightarrow> bindE (lambdaOf call) (\<lambda>(_, body). filter_loop body [] collection))"

fun map_loop :: "(jsval list \<Rightarrow> error + jsval) \<Rightarrow> jsval list \<Rightarrow> jsval list \<Rightarrow> error + jsval" where
  "map_loop body mapped [] = Inr (VArr mapped)"
| "map_loop body mapped (item # items) =
     bindE (body [item]) (\<lambda>v.
       if isEvaluationError v then Inr VError else map_loop body (mapped @ [v]) items)"

definition map_macro :: "Call \<Rightarrow> error + jsval" where
  "map_macro call =
     bindE (arg call 0 ''collection'') (\<lambda>target.
       case macroItems target of
         None \<Rightarrow> Inr VError
       | Some collection \<Rightarrow> bindE (lambdaOf call) (\<lambda>(_, body). map_loop body [] collection))"

subsection \<open>What the expression says of a type\<close>

datatype TemporalKind = KTimestamp | KDuration

definition temporalResultKind ::
  "string \<Rightarrow> TemporalKind option \<Rightarrow> TemporalKind option \<Rightarrow> TemporalKind option" where
  "temporalResultKind op left right =
     (if left = Some KDuration \<and> right = Some KDuration then Some KDuration
      else if left = Some KTimestamp \<and> right = Some KDuration then Some KTimestamp
      else if op = ''add'' \<and> left = Some KDuration \<and> right = Some KTimestamp then Some KTimestamp
      else if op = ''sub'' \<and> left = Some KTimestamp \<and> right = Some KTimestamp then Some KDuration
      else None)"

fun temporalKindOf :: "operand \<Rightarrow> TemporalKind option" where
  "temporalKindOf (Expression op args) =
     (if op = ''timestamp'' then Some KTimestamp
      else if op = ''duration'' \<or> op = ''timeSince'' then Some KDuration
      else if op = ''add'' \<or> op = ''sub'' then
        (case args of
           left # right # _ \<Rightarrow> temporalResultKind op (temporalKindOf left) (temporalKindOf right)
         | _ \<Rightarrow> None)
      else None)"
| "temporalKindOf _ = None"

definition is_arithmetic :: "string \<Rightarrow> bool" where
  "is_arithmetic op \<longleftrightarrow> op = ''add'' \<or> op = ''sub'' \<or> op = ''mult'' \<or> op = ''div'' \<or> op = ''mod''"

function isIntOperand :: "operand \<Rightarrow> bool" and isIntExpression :: "operand \<Rightarrow> bool" where
  "isIntOperand operand =
     (case operand of
        Value v \<Rightarrow> (case v of VNum x \<Rightarrow> is_integer x | _ \<Rightarrow> False)
      | _ \<Rightarrow> isIntExpression operand)"
| "isIntExpression operand =
     (case operand of
        Expression op args \<Rightarrow>
          if op = ''int'' \<or> op = ''size'' then True
          else if is_arithmetic op then list_all isIntOperand args \<and> list_ex isIntExpression args
          else False
      | _ \<Rightarrow> False)"
  by pat_completeness auto
termination
  by (relation "measure (case_sum (\<lambda>x. 2 * size x + 1) (\<lambda>x. 2 * size x))")
    (auto dest: size_operand_member)

declare isIntOperand.simps [simp del] isIntExpression.simps [simp del]

datatype NumericType = TInt | TDouble

fun numericTypeOf :: "operand \<Rightarrow> NumericType option" where
  "numericTypeOf operand =
     (case operand of
        Value v \<Rightarrow> (case v of VNum x \<Rightarrow> if is_integer x then None else Some TDouble | _ \<Rightarrow> None)
      | _ \<Rightarrow>
        if isIntExpression operand then Some TInt
        else case operand of
          Expression op args \<Rightarrow>
            if op = ''double'' then Some TDouble
            else if op \<noteq> ''if'' then None
            else (case args of
                _ # whenTrue # rest \<Rightarrow>
                  (case numericTypeOf whenTrue of
                     Some t \<Rightarrow> Some t
                   | None \<Rightarrow> (case rest of whenFalse # _ \<Rightarrow> numericTypeOf whenFalse | [] \<Rightarrow> None))
              | _ \<Rightarrow> None)
        | _ \<Rightarrow> None)"

declare numericTypeOf.simps [simp del]

function rendersUntypedConstant :: "operand \<Rightarrow> NumericType option \<Rightarrow> bool" where
  "rendersUntypedConstant operand type =
     (case operand of
        Value v \<Rightarrow>
          type = None \<and>
          (case v of
             VNum x \<Rightarrow> is_integer x \<and> convertToString v True \<noteq> convertToString v False
           | _ \<Rightarrow> False)
      | Expression op args \<Rightarrow>
          op = ''if'' \<and>
          (let branchType = (case type of Some t \<Rightarrow> Some t | None \<Rightarrow> numericTypeOf operand)
           in list_ex (\<lambda>branch. rendersUntypedConstant branch branchType) (drop 1 args))
      | _ \<Rightarrow> False)"
  by pat_completeness auto
termination
  by (relation "measure (\<lambda>(operand, type). size operand)") (auto simp: less_Suc_eq_le dest: in_set_dropD intro: size_list_estimation')

declare rendersUntypedConstant.simps [simp del]

definition isDocumentField :: "operand \<Rightarrow> scope \<Rightarrow> bool" where
  "isDocumentField operand s =
     (case operand of Variable name \<Rightarrow> bindings s (name_root name) = None | _ \<Rightarrow> False)"

definition readsDocument :: "Call \<Rightarrow> nat \<Rightarrow> bool" where
  "readsDocument call index =
     (case nth_opt (operands call) index of None \<Rightarrow> False | Some operand \<Rightarrow> isDocumentField operand (scope call))"

definition isDoubleOperand :: "operand \<Rightarrow> scope \<Rightarrow> bool" where
  "isDoubleOperand operand s =
     (case operand of
        Value v \<Rightarrow> (case v of VNum x \<Rightarrow> \<not> is_integer x | _ \<Rightarrow> False)
      | Variable _ \<Rightarrow> isDocumentField operand s
      | Expression op _ \<Rightarrow> op = ''double''
      | Malformed \<Rightarrow> False)"

subsection \<open>Arithmetic\<close>

text \<open>\<open>arithmetic\<close> and \<open>temporalArithmetic\<close> select on the operator's name: these are the five.\<close>

definition operator_name :: "arithmeticOperator \<Rightarrow> string" where
  "operator_name op = (case op of Add \<Rightarrow> ''add'' | Sub \<Rightarrow> ''sub'' | Mult \<Rightarrow> ''mult'' | Div \<Rightarrow> ''div'' | Mod \<Rightarrow> ''mod'')"

definition nanosOf :: "jsval \<Rightarrow> int option" where
  "nanosOf val = (case val of VDur n \<Rightarrow> Some n | VBig n \<Rightarrow> Some n | _ \<Rightarrow> None)"

definition temporalArithmetic :: "arithmeticOperator \<Rightarrow> Call \<Rightarrow> error + jsval" where
  "temporalArithmetic op call =
     (let kindOf = (\<lambda>i. Option.bind (nth_opt (operands call) i) temporalKindOf);
          kind = temporalResultKind (operator_name op) (kindOf 0) (kindOf 1)
      in bindE (arg call 0 ''left'') (\<lambda>left.
         bindE (arg call 1 ''right'') (\<lambda>right.
           case kind of
             None \<Rightarrow> Inr VError
           | Some k \<Rightarrow>
               (case (nanosOf left, nanosOf right) of
                  (Some a, Some b) \<Rightarrow>
                    let nanos = (if op = Add then a + b else a - b)
                    in Inr (if k = KTimestamp then checkedTimestamp nanos else checkedDuration nanos)
                | _ \<Rightarrow> Inr VError))))"

definition modulo :: "Call \<Rightarrow> jsnum \<Rightarrow> jsnum \<Rightarrow> jsval" where
  "modulo call left right =
     (if list_ex isVariable (operands call) \<or> is_zero right then VError else VNum (num_mod left right))"

definition floatArithmetic :: "arithmeticOperator \<Rightarrow> Call \<Rightarrow> jsnum \<Rightarrow> jsnum \<Rightarrow> error + jsval" where
  "floatArithmetic op call left right =
     (case op of
        Add \<Rightarrow> Inr (VNum (num_add left right))
      | Sub \<Rightarrow> Inr (VNum (num_sub left right))
      | Mult \<Rightarrow> Inr (VNum (num_mul left right))
      | Div \<Rightarrow>
          if is_zero right \<and> \<not> is_zero left \<and> \<not> readsDocument call 1 then refuse IndeterminateZeroDivisor
          else Inr (VNum (num_div left right))
      | Mod \<Rightarrow> Inr (modulo call left right))"

definition arithmetic :: "arithmeticOperator \<Rightarrow> Call \<Rightarrow> error + jsval" where
  "arithmetic op call =
     (if (op = Add \<or> op = Sub) \<and> list_ex (\<lambda>operand. temporalKindOf operand \<noteq> None) (operands call)
      then temporalArithmetic op call
      else bindE (arg call 0 ''left'') (\<lambda>left.
           bindE (arg call 1 ''right'') (\<lambda>right.
             if isIntExpression (Expression (operator_name op) (operands call))
             then Inr (intArithmetic op left right)
             else if list_ex isIntExpression (operands call) \<and>
                     list_ex (\<lambda>operand. isDoubleOperand operand (scope call)) (operands call)
             then Inr VError
             else case (left, right) of
               (VStr a, VStr b) \<Rightarrow> Inr (if op = Add then VStr (a @ b) else VError)
             | (VArr xs, VArr ys) \<Rightarrow> Inr (if op = Add then VArr (xs @ ys) else VError)
             | (VNum a, VNum b) \<Rightarrow> floatArithmetic op call a b
             | _ \<Rightarrow> Inr VError)))"

subsection \<open>Translation-time checks of the operators\<close>

definition validateStringConversion :: "string \<Rightarrow> operand list \<Rightarrow> error + unit" where
  "validateStringConversion op args =
     (case args of
        operand # _ \<Rightarrow> if rendersUntypedConstant operand None then refuse UntypedStringConstant else Inr ()
      | [] \<Rightarrow> Inr ())"

definition validateModulo :: "string \<Rightarrow> operand list \<Rightarrow> error + unit" where
  "validateModulo op args =
     (if list_all (\<lambda>operand. isVariable operand \<or> isIntOperand operand) args then Inr () else refuse ModuloType)"

definition is_zero_constant :: "operand \<Rightarrow> bool" where
  "is_zero_constant operand = (case operand of Value v \<Rightarrow> (case v of VNum x \<Rightarrow> is_zero x | _ \<Rightarrow> False) | _ \<Rightarrow> False)"

definition validateDivision :: "string \<Rightarrow> operand list \<Rightarrow> error + unit" where
  "validateDivision op args =
     (case args of
        numerator # denominator # _ \<Rightarrow>
          if (case denominator of Expression op' _ \<Rightarrow> op' = ''div'' | _ \<Rightarrow> False) then refuse NestedDivision
          else if is_zero_constant denominator \<and> \<not> is_zero_constant numerator
          then refuse IndeterminateZeroDivisor
          else Inr ()
      | _ \<Rightarrow> Inr ())"

definition validatePattern :: "string \<Rightarrow> operand list \<Rightarrow> error + unit" where
  "validatePattern op args =
     (case nth_opt args 1 of
        Some (Value v) \<Rightarrow>
          (case v of
             VStr p \<Rightarrow> if parseSafeRegexPattern p = None then refuse PatternOutsideSubset else Inr ()
           | _ \<Rightarrow> refuse PatternOutsideSubset)
      | _ \<Rightarrow> refuse PatternOutsideSubset)"

definition is_string_value :: "operand \<Rightarrow> bool" where
  "is_string_value operand = (case operand of Value v \<Rightarrow> (case v of VStr _ \<Rightarrow> True | _ \<Rightarrow> False) | _ \<Rightarrow> False)"

definition validateStruct :: "string \<Rightarrow> operand list \<Rightarrow> error + unit" where
  "validateStruct op args =
     forE (\<lambda>entry.
       case entry of
         Expression op' [key, _] \<Rightarrow>
           if op' = ''set-field'' \<and> is_string_value key then Inr () else refuse MapEntry
       | _ \<Rightarrow> refuse MapEntry) args"

subsection \<open>Hierarchies, lists and maps\<close>

datatype hierarchyOperator = AncestorOf | DescendentOf | Overlaps

definition hierarchyRelation :: "hierarchyOperator \<Rightarrow> Call \<Rightarrow> error + jsval" where
  "hierarchyRelation op call =
     bindE (arg call 0 ''left'') (\<lambda>left.
     bindE (arg call 1 ''right'') (\<lambda>right.
       case (left, right) of
         (VHier a, VHier b) \<Rightarrow>
           Inr (VBool (case op of
               AncestorOf \<Rightarrow> isStrictAncestor a b
             | DescendentOf \<Rightarrow> isStrictAncestor b a
             | Overlaps \<Rightarrow> hierarchiesOverlap a b))
       | _ \<Rightarrow> Inr VError))"

definition listOperation :: "(jsval list \<Rightarrow> jsval list \<Rightarrow> jsval) \<Rightarrow> Call \<Rightarrow> error + jsval" where
  "listOperation operation call =
     bindE (arg call 0 ''left'') (\<lambda>left.
     bindE (arg call 1 ''right'') (\<lambda>right.
       case (left, right) of
         (VArr xs, VArr ys) \<Rightarrow> Inr (operation xs ys)
       | _ \<Rightarrow> Inr VError))"

definition listContains :: "jsval list \<Rightarrow> jsval \<Rightarrow> bool" where
  "listContains list val = list_ex (\<lambda>member. valuesEqual member val) list"

definition except_lists :: "jsval list \<Rightarrow> jsval list \<Rightarrow> jsval" where
  "except_lists left right = VArr (filter (\<lambda>v. \<not> listContains right v) left)"

definition intersect_lists :: "jsval list \<Rightarrow> jsval list \<Rightarrow> jsval" where
  "intersect_lists left right =
     (let (shorter, longer) = (if length left > length right then (right, left) else (left, right))
      in VArr (filter (listContains longer) shorter))"

definition isSubset_lists :: "jsval list \<Rightarrow> jsval list \<Rightarrow> jsval" where
  "isSubset_lists left right = VBool (list_all (listContains right) left)"

definition hasIntersection_lists :: "jsval list \<Rightarrow> jsval list \<Rightarrow> jsval" where
  "hasIntersection_lists left right =
     VBool (list_ex (\<lambda>l. list_ex (\<lambda>r. valuesEqual l r) right) left)"

definition membership :: "Call \<Rightarrow> error + jsval" where
  "membership call =
     bindE (arg call 0 ''needle'') (\<lambda>needle.
     bindE (arg call 1 ''haystack'') (\<lambda>haystack.
       if isEvaluationError needle \<or> isEvaluationError haystack then Inr VError
       else case macroItems haystack of
         None \<Rightarrow> Inr VError
       | Some members \<Rightarrow> Inr (VBool (listContains members needle))))"

fun list_loop :: "jsval list \<Rightarrow> evaluator list \<Rightarrow> scope \<Rightarrow> error + jsval" where
  "list_loop elements [] s = Inr (VArr elements)"
| "list_loop elements (e # es) s =
     bindE (e s) (\<lambda>v. if isEvaluationError v then Inr VError else list_loop (elements @ [v]) es s)"

definition list_literal :: "Call \<Rightarrow> error + jsval" where
  "list_literal call = list_loop [] (evals call) (scope call)"

text \<open>
  A map literal. \<open>validateStruct\<close> has fixed every entry's shape; on any other shape the property reads
  of the code would fail, which the model shows as a \<open>TypeError\<close>.
\<close>

definition entry_key :: "operand \<Rightarrow> jstring option" where
  "entry_key entry =
     (case nth_opt (subOperands entry) 0 of
        Some (Value v) \<Rightarrow> (case v of VStr k \<Rightarrow> Some k | _ \<Rightarrow> None)
      | _ \<Rightarrow> None)"

fun struct_loop ::
  "(jstring \<times> jsval) list \<Rightarrow> (operand \<times> evaluator list) list \<Rightarrow> scope \<Rightarrow> error + jsval" where
  "struct_loop entries [] s = Inr (VObj entries)"
| "struct_loop entries ((entry, parts) # rest) s =
     (case (entry_key entry, nth_opt parts 1) of
        (Some key, Some e) \<Rightarrow>
          bindE (e s) (\<lambda>v.
            if isEvaluationError v \<or> key \<in> fst ` set entries then Inr VError
            else struct_loop (add_property key v entries) rest s)
      | _ \<Rightarrow> Inl TypeError)"

definition struct_literal :: "Call \<Rightarrow> error + jsval" where
  "struct_literal call = struct_loop [] (zip (operands call) (subs call)) (scope call)"

definition index_access :: "Call \<Rightarrow> error + jsval" where
  "index_access call =
     bindE (arg call 0 ''collection'') (\<lambda>collection.
     bindE (arg call 1 ''value'') (\<lambda>index.
       case (collection, index) of
         (VObj kvs, VStr k) \<Rightarrow> Inr (case map_of kvs k of Some v \<Rightarrow> v | None \<Rightarrow> VError)
       | (VArr xs, VNum i) \<Rightarrow>
           if \<not> is_integer i \<or> num_lt i (Fin 0) \<or> num_le (Fin (of_nat (length xs))) i then Inr VError
           else Inr (xs ! nat (num_trunc i))
       | _ \<Rightarrow> Inr VError))"

definition get_field :: "Call \<Rightarrow> error + jsval" where
  "get_field call =
     bindE (arg call 0 ''target'') (\<lambda>target.
     bindE (operandAt (operands call) 1 (MissingOperand (operator call) ''name'')) (\<lambda>fieldOperand.
       let field = (case fieldOperand of
             Variable name \<Rightarrow> name
           | Value v \<Rightarrow> (case v of VStr f \<Rightarrow> f | _ \<Rightarrow> [])
           | _ \<Rightarrow> [])
       in Inr (if field \<noteq> [] then readPath (getNestedValue target field) (scope call) else VError)))"

definition size_of :: "Call \<Rightarrow> error + jsval" where
  "size_of call =
     bindE (arg call 0 ''operand'') (\<lambda>v.
       case v of
         VStr s \<Rightarrow> Inr (VInt (int (length (array_from s))))
       | VArr xs \<Rightarrow> Inr (VInt (int (length xs)))
       | VObj kvs \<Rightarrow> Inr (VInt (int (length kvs)))
       | _ \<Rightarrow> Inr VError)"

subsection \<open>Conversions and conditionals\<close>

definition string_conversion :: "Call \<Rightarrow> error + jsval" where
  "string_conversion call =
     bindE (arg call 0 ''operand'') (\<lambda>v.
     bindE (operandAt (operands call) 0 (MissingOperand ''string'' ''operand'')) (\<lambda>operand.
       Inr (convertToString v (numericTypeOf operand = Some TInt))))"

definition convert :: "(jsval \<Rightarrow> jsval) \<Rightarrow> Call \<Rightarrow> error + jsval" where
  "convert conversion call = bindE (arg call 0 ''operand'') (\<lambda>v. Inr (conversion v))"

definition on_string :: "(jstring \<Rightarrow> error + jsval) \<Rightarrow> Call \<Rightarrow> error + jsval" where
  "on_string f call =
     bindE (arg call 0 ''operand'') (\<lambda>v. case v of VStr s \<Rightarrow> f s | _ \<Rightarrow> Inr VError)"

definition time_since :: "Call \<Rightarrow> error + jsval" where
  "time_since call =
     bindE (operandAt (operands call) 0 (MissingOperand ''timeSince'' ''operand'')) (\<lambda>operand.
     bindE (arg call 0 ''operand'') (\<lambda>v.
       case v of
         VBig t \<Rightarrow>
           if temporalKindOf operand \<noteq> Some KTimestamp then Inr VError
           else Inr (timeSince (clock (scope call) * 1000000) t)
       | _ \<Rightarrow> Inr VError))"

definition conditional :: "Call \<Rightarrow> error + jsval" where
  "conditional call =
     bindE (arg call 0 ''condition'') (\<lambda>v.
       case asBoolean v of
         VBool b \<Rightarrow> arg call (if b then 1 else 2) ''selected branch''
       | e \<Rightarrow> Inr e)"

fun segment_names :: "jsval list \<Rightarrow> jstring list option" where
  "segment_names [] = Some []"
| "segment_names (v # vs) =
     (case v of VStr s \<Rightarrow> map_option ((#) s) (segment_names vs) | _ \<Rightarrow> None)"

definition hierarchy_of :: "Call \<Rightarrow> error + jsval" where
  "hierarchy_of call =
     bindE (arg call 0 ''value'') (\<lambda>v.
       case nth_opt (evals call) 1 of
         Some delimiterOperand \<Rightarrow>
           bindE (delimiterOperand (scope call)) (\<lambda>delimiter.
             case (v, delimiter) of
               (VStr s, VStr d) \<Rightarrow> Inr (VHier (splitHierarchy s d))
             | _ \<Rightarrow> Inr VError)
       | None \<Rightarrow>
           (case v of
              VStr s \<Rightarrow> Inr (VHier (splitHierarchy s [dot]))
            | VHier h \<Rightarrow> Inr (VHier h)
            | VArr xs \<Rightarrow> (case segment_names xs of Some h \<Rightarrow> Inr (VHier h) | None \<Rightarrow> Inr VError)
            | _ \<Rightarrow> Inr VError))"

subsection \<open>The roster\<close>

record Operator =
  evaluateCall :: "Call \<Rightarrow> error + jsval"
  validate :: "(string \<Rightarrow> operand list \<Rightarrow> error + unit) option"

definition plain :: "(Call \<Rightarrow> error + jsval) \<Rightarrow> Operator" where
  "plain f = \<lparr>evaluateCall = f, validate = None\<rparr>"

definition checked :: "(Call \<Rightarrow> error + jsval) \<Rightarrow> (string \<Rightarrow> operand list \<Rightarrow> error + unit) \<Rightarrow> Operator" where
  "checked f v = \<lparr>evaluateCall = f, validate = Some v\<rparr>"

definition OPERATORS :: "(string \<times> Operator) list" where
  "OPERATORS =
     [(''and'', plain (junction False)),
      (''or'', plain (junction True)),
      (''not'', plain negation),
      (''eq'', plain (comparison Eq)),
      (''ne'', plain (comparison Ne)),
      (''lt'', plain (comparison Lt)),
      (''le'', plain (comparison Le)),
      (''gt'', plain (comparison Gt)),
      (''ge'', plain (comparison Ge)),
      (''in'', plain membership),
      (''contains'', plain (stringTest ''needle'' js_includes)),
      (''startsWith'', plain (stringTest ''prefix'' startsWith)),
      (''endsWith'', plain (stringTest ''suffix'' endsWith)),
      (''matches'', checked regex_match validatePattern),
      (''except'', plain (listOperation except_lists)),
      (''intersect'', plain (listOperation intersect_lists)),
      (''isSubset'', plain (listOperation isSubset_lists)),
      (''list'', plain list_literal),
      (''struct'', checked struct_literal validateStruct),
      (''set-field'', plain (\<lambda>_. refuse SetFieldOutsideStruct)),
      (''hasIntersection'', plain (listOperation hasIntersection_lists)),
      (''exists'', checked (quantifier MExists) (validateMacro 2)),
      (''exists_one'', checked (quantifier MExistsOne) (validateMacro 2)),
      (''all'', checked (quantifier MAll) (validateMacro 2)),
      (''filter'', checked filter_macro (validateMacro 1)),
      (''map'', checked map_macro (validateMacro 1)),
      (''lambda'', plain (\<lambda>_. refuse LambdaEvaluated)),
      (''add'', plain (arithmetic Add)),
      (''sub'', plain (arithmetic Sub)),
      (''mult'', plain (arithmetic Mult)),
      (''div'', checked (arithmetic Div) validateDivision),
      (''mod'', checked (arithmetic Mod) validateModulo),
      (''index'', plain index_access),
      (''get-field'', plain get_field),
      (''size'', plain size_of),
      (''string'', checked string_conversion validateStringConversion),
      (''double'', plain (convert convertToDouble)),
      (''int'', plain (convert convertToInt)),
      (''upperAscii'', plain (on_string (\<lambda>s. Inr (VStr (upper_ascii s))))),
      (''duration'', plain (on_string parseCelDuration)),
      (''timeSince'', plain time_since),
      (''timestamp'', plain (on_string (\<lambda>s. Inr (parseRfc3339Timestamp s)))),
      (''if'', plain conditional),
      (''hierarchy'', plain hierarchy_of),
      (''ancestorOf'', plain (hierarchyRelation AncestorOf)),
      (''descendentOf'', plain (hierarchyRelation DescendentOf)),
      (''overlaps'', plain (hierarchyRelation Overlaps))]"

definition operatorFor :: "string \<Rightarrow> Operator option" where
  "operatorFor name = map_of OPERATORS name"

text \<open>The call \<open>evaluate\<close> builds, and its dispatch.\<close>

definition dispatch :: "string \<Rightarrow> operand list \<Rightarrow> evaluator list \<Rightarrow> evaluator list list \<Rightarrow> evaluator" where
  "dispatch op args args_eval subs_eval s =
     (case operatorFor op of
        None \<Rightarrow> refuse (UnknownOperator op)
      | Some entry \<Rightarrow>
          evaluateCall entry
            \<lparr>operator = op, operands = args, evals = args_eval, subs = subs_eval, scope = s\<rparr>)"

lemma size_grandchild: "y \<in> set args \<Longrightarrow> x \<in> set (subOperands y) \<Longrightarrow> size x < size (Expression op args)"
  using size_operand_member [of y args op] size_sub_operand [of x y] by simp

function evaluate :: "operand \<Rightarrow> evaluator" where
  "evaluate (Value v) = (\<lambda>s. Inr v)"
| "evaluate (Variable name) = (\<lambda>s. Inr (lookUp name s))"
| "evaluate Malformed = (\<lambda>s. refuse InvalidStructure)"
| "evaluate (Expression op args) =
     dispatch op args (map evaluate args) (map (\<lambda>operand. map evaluate (subOperands operand)) args)"
  by pat_completeness auto
termination
  by (relation "measure size") (use size_operand_member size_grandchild in auto)

end
