(* ===== verification/Convex_Validate.thy ===== *)
theory Convex_Validate
  imports Convex_Evaluate
begin

text \<open>
  convex/src/validate.ts: the refusals made before any filter exists, each a walk over the whole plan.
\<close>

function validateStructure :: "operand \<Rightarrow> string option \<Rightarrow> error + unit" where
  "validateStructure (Value v) parentOperator = Inr ()"
| "validateStructure (Variable name) parentOperator = Inr ()"
| "validateStructure Malformed parentOperator = refuse InvalidStructure"
| "validateStructure (Expression op args) parentOperator =
     (case operatorFor op of
        None \<Rightarrow> refuse (UnknownOperator op)
      | Some entry \<Rightarrow>
          if op = ''set-field'' \<and> parentOperator \<noteq> Some ''struct'' then refuse SetFieldOutsideStruct
          else bindE (case validate entry of None \<Rightarrow> Inr () | Some check \<Rightarrow> check op args) (\<lambda>_.
               forE (\<lambda>operand. validateStructure operand (Some op)) args))"
  by pat_completeness auto
termination
  by (relation "measure (\<lambda>(operand, parent). size operand)") (use size_operand_member in auto)

fun assertNoListValuedCondition :: "operand \<Rightarrow> error + unit" where
  "assertNoListValuedCondition (Expression op args) =
     (if op = ''filter'' \<or> op = ''map'' then refuse (ListValuedCondition op)
      else if op = ''and'' \<or> op = ''or'' \<or> op = ''not'' then forE assertNoListValuedCondition args
      else Inr ())"
| "assertNoListValuedCondition _ = Inr ()"

definition carriesNullLiteral :: "operand \<Rightarrow> bool" where
  "carriesNullLiteral operand =
     (case operand of
        Value v \<Rightarrow> v = VNull \<or> (case v of VArr xs \<Rightarrow> VNull \<in> set xs | _ \<Rightarrow> False)
      | _ \<Rightarrow> False)"

fun assertNoNullComparisonOperands :: "operand \<Rightarrow> error + unit" where
  "assertNoNullComparisonOperands (Expression op args) =
     (if list_ex carriesNullLiteral args then refuse (NullOperand op)
      else forE assertNoNullComparisonOperands args)"
| "assertNoNullComparisonOperands _ = Inr ()"

lemma lambdaComponents_body:
  "lambdaComponents (Expression op args) parts = Inr (b, vs) \<Longrightarrow> length parts = length args \<Longrightarrow> b \<in> set parts"
  by (auto simp: lambdaComponents_def length_Suc_conv split: if_splits list.splits)

function assertEveryReferenceMapped :: "operand \<Rightarrow> mapper \<Rightarrow> jstring set \<Rightarrow> error + unit" where
  "assertEveryReferenceMapped (Value v) m bound = Inr ()"
| "assertEveryReferenceMapped Malformed m bound = Inr ()"
| "assertEveryReferenceMapped (Variable name) m bound =
     (if name_root name \<in> bound \<or> isMappedReference name m then Inr () else Inl (UnmappedReference name))"
| "assertEveryReferenceMapped (Expression op args) m bound =
     (if op = ''lambda'' then
        bindE (lambdaComponents (Expression op args) args) (\<lambda>(body, variables).
          assertEveryReferenceMapped body m (bound \<union> set variables))
      else forE (\<lambda>operand. assertEveryReferenceMapped operand m bound)
             (if op = ''get-field'' then take 1 args else args))"
  by pat_completeness auto
termination
  by (relation "measure (\<lambda>(operand, m, bound). size operand)")
    (auto simp: less_Suc_eq_le dest: in_set_takeD lambdaComponents_body [OF _ refl]
      intro: size_list_estimation' split: if_splits)

end
