(* ===== verification/Convex_Pushdown.thy ===== *)
theory Convex_Pushdown
  imports Convex_Validate
begin

text \<open>
  convex/src/pushdown.ts: what Convex's filter engine can answer, and the builder calls that answer it.
  Convex's \<open>FilterBuilder\<close> is not part of the repository: it is the parameter \<open>FilterQ\<close>, over an arbitrary
  type \<open>'r\<close> of built expressions.
\<close>

text \<open>An argument of a builder call: a literal, an empty \<open>ArrayBuffer\<close>, or something already built.\<close>

datatype 'r filterArg = Literal jsval | EmptyBuffer | Built 'r

record 'r FilterQ =
  q_eq :: "'r filterArg \<Rightarrow> 'r filterArg \<Rightarrow> 'r"
  q_neq :: "'r filterArg \<Rightarrow> 'r filterArg \<Rightarrow> 'r"
  q_lt :: "'r filterArg \<Rightarrow> 'r filterArg \<Rightarrow> 'r"
  q_lte :: "'r filterArg \<Rightarrow> 'r filterArg \<Rightarrow> 'r"
  q_gt :: "'r filterArg \<Rightarrow> 'r filterArg \<Rightarrow> 'r"
  q_gte :: "'r filterArg \<Rightarrow> 'r filterArg \<Rightarrow> 'r"
  q_and :: "'r list \<Rightarrow> 'r"
  q_or :: "'r list \<Rightarrow> 'r"
  q_not :: "'r \<Rightarrow> 'r"
  q_field :: "jstring \<Rightarrow> 'r"

fun CONVEX_COMPARISON :: "cmp_op \<Rightarrow> 'r FilterQ \<Rightarrow> 'r filterArg \<Rightarrow> 'r filterArg \<Rightarrow> 'r" where
  "CONVEX_COMPARISON Eq q = q_eq q"
| "CONVEX_COMPARISON Ne q = q_neq q"
| "CONVEX_COMPARISON Lt q = q_lt q"
| "CONVEX_COMPARISON Le q = q_lte q"
| "CONVEX_COMPARISON Gt q = q_gt q"
| "CONVEX_COMPARISON Ge q = q_gte q"

fun MIRRORED_COMPARISON :: "cmp_op \<Rightarrow> cmp_op" where
  "MIRRORED_COMPARISON Eq = Eq"
| "MIRRORED_COMPARISON Ne = Ne"
| "MIRRORED_COMPARISON Lt = Gt"
| "MIRRORED_COMPARISON Le = Ge"
| "MIRRORED_COMPARISON Gt = Lt"
| "MIRRORED_COMPARISON Ge = Le"

text \<open>The field, the literal, and whether the literal came first.\<close>

definition fieldAndLiteral :: "operand list \<Rightarrow> (jstring \<times> jsval \<times> bool) option" where
  "fieldAndLiteral args =
     (case args of
        Variable name # Value v # _ \<Rightarrow> Some (name, v, False)
      | Value v # Variable name # _ \<Rightarrow> Some (name, v, True)
      | _ \<Rightarrow> None)"

definition fieldInList :: "operand list \<Rightarrow> (jstring \<times> jsval list) option" where
  "fieldInList args =
     (case args of
        Variable name # Value v # _ \<Rightarrow> (case v of VArr xs \<Rightarrow> Some (name, xs) | _ \<Rightarrow> None)
      | _ \<Rightarrow> None)"

definition sameTypeAs :: "jsval \<Rightarrow> 'r FilterQ \<Rightarrow> 'r \<Rightarrow> 'r option" where
  "sameTypeAs literal q field =
     (case literal of
        VNum _ \<Rightarrow>
          Some (q_and q [q_gt q (Built field) (Literal (VBig INT64_MAX)),
                         q_lt q (Built field) (Literal (VBool False))])
      | VBool _ \<Rightarrow>
          Some (q_and q [q_gte q (Built field) (Literal (VBool False)),
                         q_lte q (Built field) (Literal (VBool True))])
      | VStr _ \<Rightarrow>
          Some (q_and q [q_gte q (Built field) (Literal (VStr [])), q_lt q (Built field) EmptyBuffer])
      | _ \<Rightarrow> None)"

text \<open>The built field, the literal, and the comparison once operand order is resolved.\<close>

definition comparisonParts ::
  "operand list \<Rightarrow> 'r FilterQ \<Rightarrow> mapper \<Rightarrow> string \<Rightarrow> cmp_op \<Rightarrow> error + ('r \<times> jsval \<times> cmp_op)" where
  "comparisonParts args q m op cel =
     (case fieldAndLiteral args of
        None \<Rightarrow> refuse (ComparisonOperands op)
      | Some (name, literal, swapped) \<Rightarrow>
          Inr (q_field q (resolveField name m), literal, if swapped then MIRRORED_COMPARISON cel else cel))"

definition polarised :: "'r FilterQ \<Rightarrow> bool \<Rightarrow> 'r \<Rightarrow> 'r" where
  "polarised q negated built = (if negated then q_not q built else built)"

definition always :: "'r FilterQ \<Rightarrow> bool \<Rightarrow> 'r" where
  "always q b = q_eq q (Literal (VBool True)) (Literal (VBool b))"

text \<open>
  The rules: \<open>accepts\<close> and \<open>emit\<close> of each. As in the evaluator, a rule that recurses receives the recursive
  result on every operand: whether it is pushable, and its emission under a polarity.
\<close>

datatype PushdownRule =
    AndRule | OrRule | NotRule | EqualityRule cmp_op | OrderingRule cmp_op | InRule

definition PUSHDOWN_RULES :: "(string \<times> PushdownRule) list" where
  "PUSHDOWN_RULES =
     [(''and'', AndRule), (''or'', OrRule), (''not'', NotRule),
      (''eq'', EqualityRule Eq), (''ne'', EqualityRule Ne),
      (''lt'', OrderingRule Lt), (''le'', OrderingRule Le), (''gt'', OrderingRule Gt), (''ge'', OrderingRule Ge),
      (''in'', InRule)]"

definition ruleFor :: "string \<Rightarrow> PushdownRule option" where
  "ruleFor op = map_of PUSHDOWN_RULES op"

definition comparison_accepts :: "operand list \<Rightarrow> mapper \<Rightarrow> bool" where
  "comparison_accepts args m =
     (case fieldAndLiteral args of Some (name, _, _) \<Rightarrow> \<not> isNullableField name m | None \<Rightarrow> False)"

definition in_accepts :: "operand list \<Rightarrow> mapper \<Rightarrow> bool" where
  "in_accepts args m =
     (case fieldInList args of Some (name, _) \<Rightarrow> \<not> isNullableField name m | None \<Rightarrow> False)"

fun accepts :: "PushdownRule \<Rightarrow> operand list \<Rightarrow> bool list \<Rightarrow> mapper \<Rightarrow> bool" where
  "accepts AndRule args pushable m = list_all id pushable"
| "accepts OrRule args pushable m = list_all id pushable"
| "accepts NotRule args pushable m = list_all id pushable"
| "accepts (EqualityRule cel) args pushable m = comparison_accepts args m"
| "accepts (OrderingRule cel) args pushable m = comparison_accepts args m"
| "accepts InRule args pushable m = in_accepts args m"

fun canPushToDb :: "operand \<Rightarrow> mapper \<Rightarrow> bool" where
  "canPushToDb (Value v) m = True"
| "canPushToDb (Variable name) m = (\<not> isNullableField name m)"
| "canPushToDb Malformed m = False"
| "canPushToDb (Expression op args) m =
     (case ruleFor op of
        None \<Rightarrow> False
      | Some rule \<Rightarrow> accepts rule args (map (\<lambda>operand. canPushToDb operand m) args) m)"

definition emit_junction :: "'r FilterQ \<Rightarrow> bool \<Rightarrow> bool \<Rightarrow> (bool \<Rightarrow> error + 'r) list \<Rightarrow> error + 'r" where
  "emit_junction q negated combine_and emitters =
     (if emitters = [] then Inr (always q combine_and)
      else bindE (mapE (\<lambda>emit_operand. emit_operand negated) emitters) (\<lambda>emitted.
        case emitted of
          [e] \<Rightarrow> Inr e
        | _ \<Rightarrow> Inr (if combine_and then q_and q emitted else q_or q emitted)))"

definition emit_equality ::
  "operand list \<Rightarrow> 'r FilterQ \<Rightarrow> mapper \<Rightarrow> string \<Rightarrow> cmp_op \<Rightarrow> bool \<Rightarrow> error + 'r" where
  "emit_equality args q m op cel negated =
     bindE (comparisonParts args q m op cel) (\<lambda>(field, literal, cmp).
       Inr (polarised q negated (CONVEX_COMPARISON cmp q (Built field) (Literal literal))))"

definition emit_ordering ::
  "operand list \<Rightarrow> 'r FilterQ \<Rightarrow> mapper \<Rightarrow> string \<Rightarrow> cmp_op \<Rightarrow> bool \<Rightarrow> error + 'r" where
  "emit_ordering args q m op cel negated =
     bindE (comparisonParts args q m op cel) (\<lambda>(field, literal, cmp).
       case sameTypeAs literal q field of
         None \<Rightarrow> Inr (always q False)
       | Some guard \<Rightarrow>
           Inr (q_and q [guard,
             polarised q negated (CONVEX_COMPARISON cmp q (Built field) (Literal literal))]))"

definition emit_in :: "operand list \<Rightarrow> 'r FilterQ \<Rightarrow> mapper \<Rightarrow> bool \<Rightarrow> error + 'r" where
  "emit_in args q m negated =
     (case fieldInList args of
        None \<Rightarrow> refuse MembershipOperands
      | Some (name, vals) \<Rightarrow>
          let field = resolveField name m;
              test = (\<lambda>v. q_eq q (Built (q_field q field)) (Literal v))
          in Inr (polarised q negated
               (case vals of
                  [] \<Rightarrow> always q False
                | [v] \<Rightarrow> test v
                | _ \<Rightarrow> q_or q (map test vals))))"

fun emit ::
  "PushdownRule \<Rightarrow> operand list \<Rightarrow> (bool \<Rightarrow> error + 'r) list \<Rightarrow> 'r FilterQ \<Rightarrow> mapper \<Rightarrow> string \<Rightarrow> bool \<Rightarrow> error + 'r"
where
  "emit AndRule args emitters q m op negated = emit_junction q negated (\<not> negated) emitters"
| "emit OrRule args emitters q m op negated = emit_junction q negated negated emitters"
| "emit NotRule args emitters q m op negated =
     (case nth_opt emitters 0 of
        None \<Rightarrow> refuse (MissingOperand ''not'' ''operator requires at least one operand'')
      | Some emit_operand \<Rightarrow> emit_operand (\<not> negated))"
| "emit (EqualityRule cel) args emitters q m op negated = emit_equality args q m op cel negated"
| "emit (OrderingRule cel) args emitters q m op negated = emit_ordering args q m op cel negated"
| "emit InRule args emitters q m op negated = emit_in args q m negated"

fun emitExpression :: "operand \<Rightarrow> 'r FilterQ \<Rightarrow> mapper \<Rightarrow> bool \<Rightarrow> error + 'r" where
  "emitExpression (Value v) q m negated =
     (case v of
        VBool b \<Rightarrow> Inr (polarised q negated (always q b))
      | _ \<Rightarrow> refuse BareValue)"
| "emitExpression (Variable name) q m negated =
     Inr (polarised q negated (q_eq q (Built (q_field q (resolveField name m))) (Literal (VBool True))))"
| "emitExpression Malformed q m negated = refuse InvalidStructure"
| "emitExpression (Expression op args) q m negated =
     (case ruleFor op of
        None \<Rightarrow> refuse (UnknownOperator op)
      | Some rule \<Rightarrow> emit rule args (map (\<lambda>operand polarity. emitExpression operand q m polarity) args) q m op negated)"

definition translateExpression :: "operand \<Rightarrow> 'r FilterQ \<Rightarrow> mapper \<Rightarrow> error + 'r" where
  "translateExpression expression q m = emitExpression expression q m False"

end
