(* ===== verification/Convex_Plan.thy ===== *)
theory Convex_Plan
  imports Convex_Pushdown
begin

text \<open>
  convex/src/index.ts: the entry point \<open>queryPlanToConvex\<close>, which refuses, then routes a condition to
  Convex's engine (\<open>Db\<close>), to the post-filter (\<open>Post\<close>) or to both (\<open>Split\<close>).
\<close>

datatype NullAttributeRepresentation = Explicit | Omitted

text \<open>A filter is a function of the builder; a post-filter of the clock and the document.\<close>

type_synonym 'r ConvexFilter = "'r FilterQ \<Rightarrow> error + 'r"
type_synonym PostFilter = "int \<Rightarrow> jsval \<Rightarrow> error + bool"

datatype 'r QueryPlanToConvexResult =
    KindAlwaysAllowed
  | KindAlwaysDenied
  | Db "'r ConvexFilter"
  | Post PostFilter
  | Split "'r ConvexFilter" PostFilter

definition conjunction :: "operand list \<Rightarrow> operand" where
  "conjunction args = (case args of [x] \<Rightarrow> x | _ \<Rightarrow> Expression ''and'' args)"

definition convexFilter :: "operand \<Rightarrow> mapper \<Rightarrow> 'r ConvexFilter" where
  "convexFilter expression m = (\<lambda>q. translateExpression expression q m)"

definition postFilterFor :: "operand \<Rightarrow> mapper \<Rightarrow> bool \<Rightarrow> PostFilter" where
  "postFilterFor expression m missing = (\<lambda>now d.
     bindE (evaluate expression
              \<lparr>doc = d, mapper = m, bindings = (\<lambda>_. None), nullIsMissing = missing, clock = now\<rparr>)
       (\<lambda>v. Inr (v = VBool True)))"

definition buildFilters :: "operand \<Rightarrow> mapper \<Rightarrow> bool \<Rightarrow> 'r QueryPlanToConvexResult" where
  "buildFilters expression m missing =
     (if canPushToDb expression m then Db (convexFilter expression m)
      else let post = Post (postFilterFor expression m missing)
      in case expression of
        Expression op args \<Rightarrow>
          if op = ''and'' \<and> length args > 1 then
            let pushable = filter (\<lambda>operand. canPushToDb operand m) args;
                nonPushable = filter (\<lambda>operand. \<not> canPushToDb operand m) args
            in if length pushable > 0 \<and> length nonPushable > 0
               then Split (convexFilter (conjunction pushable) m)
                      (postFilterFor (conjunction nonPushable) m missing)
               else post
          else post
      | _ \<Rightarrow> post)"

fun has_postFilter :: "'r QueryPlanToConvexResult \<Rightarrow> bool" where
  "has_postFilter (Post p) = True"
| "has_postFilter (Split f p) = True"
| "has_postFilter _ = False"

definition queryPlanToConvex ::
  "plan \<Rightarrow> mapper \<Rightarrow> bool \<Rightarrow> NullAttributeRepresentation \<Rightarrow> error + 'r QueryPlanToConvexResult" where
  "queryPlanToConvex queryPlan m allowPostFilter convention =
     (case queryPlan of
        AlwaysAllowed \<Rightarrow> Inr KindAlwaysAllowed
      | AlwaysDenied \<Rightarrow> Inr KindAlwaysDenied
      | Conditional condition \<Rightarrow>
          let omitted = (convention = Omitted)
          in bindE (assertNoListValuedCondition condition) (\<lambda>_.
             bindE (if omitted then assertNoNullComparisonOperands condition else Inr ()) (\<lambda>_.
             bindE (validateStructure condition None) (\<lambda>_.
             bindE (assertEveryReferenceMapped condition m {}) (\<lambda>_.
               let result = buildFilters condition (if omitted then withOmittedNullDefault m else m) omitted
               in if has_postFilter result \<and> \<not> allowPostFilter then Inl PostFilterNotAllowed
                  else Inr result))))
      | UnknownKind \<Rightarrow> refuse InvalidPlan)"

end
