(* ===== verification/Convex_Logic.thy ===== *)
theory Convex_Logic
  imports Convex_Plan
begin

text \<open>
  The logic the evaluator implements: what \<open>and\<close>, \<open>or\<close>, \<open>not\<close> and the quantifier macros make of their
  operands' verdicts, and the dualities between them that hold even where an operand throws.
\<close>

subsection \<open>The roster, entry by entry\<close>

lemma operatorFor_simps [plan_simps]:
  "operatorFor ''and'' = Some (plain (junction False))"
  "operatorFor ''or'' = Some (plain (junction True))"
  "operatorFor ''not'' = Some (plain negation)"
  "operatorFor ''eq'' = Some (plain (comparison Eq))"
  "operatorFor ''ne'' = Some (plain (comparison Ne))"
  "operatorFor ''lt'' = Some (plain (comparison Lt))"
  "operatorFor ''le'' = Some (plain (comparison Le))"
  "operatorFor ''gt'' = Some (plain (comparison Gt))"
  "operatorFor ''ge'' = Some (plain (comparison Ge))"
  "operatorFor ''in'' = Some (plain membership)"
  "operatorFor ''exists'' = Some (checked (quantifier MExists) (validateMacro 2))"
  "operatorFor ''exists_one'' = Some (checked (quantifier MExistsOne) (validateMacro 2))"
  "operatorFor ''all'' = Some (checked (quantifier MAll) (validateMacro 2))"
  "operatorFor ''filter'' = Some (checked filter_macro (validateMacro 1))"
  "operatorFor ''map'' = Some (checked map_macro (validateMacro 1))"
  "operatorFor ''size'' = Some (plain size_of)"
  by (simp_all add: operatorFor_def OPERATORS_def)

lemma operator_simps [simp]:
  "evaluateCall (plain f) = f" "validate (plain f) = None"
  "evaluateCall (checked f v) = f" "validate (checked f v) = Some v"
  by (simp_all add: plain_def checked_def)

lemma junction_loop_all:
  assumes "list_all2 (\<lambda>e v. e s = Inr v) es vs"
  shows "junction_loop False sawError es s =
    Inr (of_truth (let t = k_all (map verdict vs) in if sawError \<and> t \<noteq> FF then EE else t))"
  using assms
proof (induction es vs arbitrary: sawError rule: list_all2_induct)
  case (Cons e es v vs)
  then show ?case
    by (cases "verdict v") (auto simp: asBoolean_verdict Let_def truth_of_def k_all_def)
qed (simp add: k_all_def)

lemma junction_loop_ex:
  assumes "list_all2 (\<lambda>e v. e s = Inr v) es vs"
  shows "junction_loop True sawError es s =
    Inr (of_truth (let t = k_ex (map verdict vs) in if sawError \<and> t \<noteq> TT then EE else t))"
  using assms
proof (induction es vs arbitrary: sawError rule: list_all2_induct)
  case (Cons e es v vs)
  then show ?case
    by (cases "verdict v") (auto simp: asBoolean_verdict Let_def truth_of_def k_ex_def)
qed (simp add: k_ex_def)

lemma evaluate_and:
  assumes "\<And>x. x \<in> set args \<Longrightarrow> evaluate x s = Inr (val x)"
  shows "evaluate (Expression ''and'' args) s = Inr (of_truth (k_all (map (\<lambda>x. verdict (val x)) args)))"
proof -
  have "list_all2 (\<lambda>e v. e s = Inr v) (map evaluate args) (map val args)"
    using assms by (simp add: list_all2_map_same)
  from junction_loop_all [OF this, of False] show ?thesis
    by (simp add: dispatch_def plan_simps junction_def comp_def)
qed

lemma evaluate_or:
  assumes "\<And>x. x \<in> set args \<Longrightarrow> evaluate x s = Inr (val x)"
  shows "evaluate (Expression ''or'' args) s = Inr (of_truth (k_ex (map (\<lambda>x. verdict (val x)) args)))"
proof -
  have "list_all2 (\<lambda>e v. e s = Inr v) (map evaluate args) (map val args)"
    using assms by (simp add: list_all2_map_same)
  from junction_loop_ex [OF this, of False] show ?thesis
    by (simp add: dispatch_def plan_simps junction_def comp_def)
qed

lemma evaluate_not:
  assumes "evaluate x s = Inr v"
  shows "evaluate (Expression ''not'' (x # rest)) s = Inr (of_truth (k_not (verdict v)))"
  using assms by (cases "verdict v")
    (auto simp: dispatch_def plan_simps negation_def arg_def asBoolean_verdict truth_of_def)

text \<open>Runs for one item: the verdicts a macro's body gives over the collection.\<close>

lemma quantifier_loop_value:
  assumes "list_all2 (\<lambda>item v. body item = Inr v) items vs"
  shows "quantifier_loop m n sawError body items =
    Inr (case m of
      MExists \<Rightarrow> of_truth (let t = k_ex (map verdict vs) in if sawError \<and> t \<noteq> TT then EE else t)
    | MAll \<Rightarrow> of_truth (let t = k_all (map verdict vs) in if sawError \<and> t \<noteq> FF then EE else t)
    | MExistsOne \<Rightarrow>
        if sawError \<or> EE \<in> verdict ` set vs then VError
        else VBool (n + length (filter (\<lambda>v. verdict v = TT) vs) = 1))"
  using assms
proof (induction items vs arbitrary: n sawError rule: list_all2_induct)
  case Nil
  then show ?case by (cases m) (auto simp: k_ex_def k_all_def)
next
  case (Cons item items v vs)
  then show ?case
    by (cases "verdict v"; cases m) (auto simp: asBoolean_verdict Let_def truth_of_def k_all_def k_ex_def)
qed

definition negate :: "jsval \<Rightarrow> jsval" where
  "negate v = of_truth (k_not (verdict v))"

lemma negation_negate: "negation call = bindE (arg call 0 ''operand'') (\<lambda>v. Inr (negate v))"
proof -
  have "(case asBoolean v of VBool b \<Rightarrow> Inr (VBool (\<not> b)) | e \<Rightarrow> Inr e) = (Inr (negate v) :: error + jsval)" for v
    by (cases "verdict v") (auto simp: asBoolean_verdict negate_def truth_of_def)
  then show ?thesis by (simp add: negation_def)
qed

lemma evaluate_not_bind: "evaluate (Expression ''not'' (x # rest)) s = bindE (evaluate x s) (\<lambda>v. Inr (negate v))"
  by (simp add: dispatch_def plan_simps negation_negate arg_def)

lemma asBoolean_negate: "asBoolean (negate v) = of_truth (k_not (verdict v))"
  by (simp add: asBoolean_verdict negate_def)

lemma bindE_assoc: "bindE (bindE m f) g = bindE m (\<lambda>x. bindE (f x) g)"
  by (cases m) auto

lemma bindE_Inr [simp]: "bindE m Inr = m"
  by (cases m) auto

lemma junction_loop_dual:
  "bindE (junction_loop (\<not> decisive) sawError es s) (\<lambda>v. Inr (negate v)) =
   junction_loop decisive sawError (map (\<lambda>e s. bindE (e s) (\<lambda>v. Inr (negate v))) es) s"
proof (induction es arbitrary: sawError)
  case Nil
  then show ?case by (cases decisive) (auto simp: negate_def truth_of_def)
next
  case (Cons e es)
  have "bindE (let val = asBoolean v in if val = VBool (\<not> decisive) then Inr (VBool (\<not> decisive))
          else junction_loop (\<not> decisive) (sawError \<or> isEvaluationError val) es s) (\<lambda>v. Inr (negate v)) =
      (let val = asBoolean (negate v) in if val = VBool decisive then Inr (VBool decisive)
          else junction_loop decisive (sawError \<or> isEvaluationError val)
            (map (\<lambda>e s. bindE (e s) (\<lambda>v. Inr (negate v))) es) s)" for v
    using Cons.IH by (cases "verdict v"; cases decisive)
      (simp_all add: asBoolean_verdict asBoolean_negate Let_def truth_of_def negate_def)
  then show ?case by (simp add: bindE_assoc)
qed

lemma quantifier_loop_dual:
  "bindE (quantifier_loop MExists n sawError body items) (\<lambda>v. Inr (negate v)) =
     quantifier_loop MAll n' sawError (\<lambda>item. bindE (body item) (\<lambda>v. Inr (negate v))) items"
proof (induction items arbitrary: n n' sawError)
  case Nil
  then show ?case by (auto simp: negate_def truth_of_def)
next
  case (Cons item items)
  have "bindE (let val = asBoolean v in if val = VBool True then
            (if MExists = MExists then Inr (VBool True) else quantifier_loop MExists (n + 1) sawError body items)
          else if val = VBool False \<and> MExists = MAll then Inr (VBool False)
          else quantifier_loop MExists n (sawError \<or> isEvaluationError val) body items) (\<lambda>v. Inr (negate v)) =
      (let val = asBoolean (negate v); body' = (\<lambda>item. bindE (body item) (\<lambda>v. Inr (negate v))) in
          if val = VBool True then
            (if MAll = MExists then Inr (VBool True) else quantifier_loop MAll (n' + 1) sawError body' items)
          else if val = VBool False \<and> MAll = MAll then Inr (VBool False)
          else quantifier_loop MAll n' (sawError \<or> isEvaluationError val) body' items)" for v
    using Cons.IH by (cases "verdict v")
      (simp_all add: asBoolean_verdict asBoolean_negate Let_def truth_of_def negate_def)
  then show ?case by (simp add: bindE_assoc Let_def)
qed

definition macro_name :: "macro \<Rightarrow> string" where
  "macro_name m = (case m of MExists \<Rightarrow> ''exists'' | MAll \<Rightarrow> ''all'' | MExistsOne \<Rightarrow> ''exists_one'')"

lemma operatorFor_macro [plan_simps]:
  "operatorFor (macro_name m) = Some (checked (quantifier m) (validateMacro 2))"
  by (cases m) (simp_all add: macro_name_def plan_simps)

lemma quantifier_call:
  assumes "dot \<notin> set x"
  shows "evaluate (Expression (macro_name m) [c, Expression ''lambda'' [b, Variable x]]) s =
    bindE (evaluate c s) (\<lambda>target.
      case macroItems target of
        None \<Rightarrow> Inr VError
      | Some items \<Rightarrow>
          quantifier_loop m 0 False (\<lambda>item. evaluate b (bind_variables [x] item s)) (map (\<lambda>item. [item]) items))"
  using assms
  by (simp add: dispatch_def plan_simps quantifier_def lambdaOf_def operandAt_def lambdaComponents_def
      looksLikeLambdaVariable_def variable_name_def arg_def)
    (rule bindE_cong [OF refl], simp split: option.split)

lemma negation_dual:
  assumes "dot \<notin> set x"
  shows "evaluate (Expression ''not'' [Expression ''and'' args]) s =
      evaluate (Expression ''or'' (map (\<lambda>a. Expression ''not'' [a]) args)) s"
    "evaluate (Expression ''not'' [Expression ''or'' args]) s =
      evaluate (Expression ''and'' (map (\<lambda>a. Expression ''not'' [a]) args)) s"
    "evaluate (Expression ''not'' [Expression ''exists'' [c, Expression ''lambda'' [b, Variable x]]]) s =
      evaluate (Expression ''all'' [c, Expression ''lambda'' [Expression ''not'' [b], Variable x]]) s"
proof -
  have m: "map evaluate (map (\<lambda>a. Expression ''not'' [a]) args) =
      map (\<lambda>e s. bindE (e s) (\<lambda>v. Inr (negate v))) (map evaluate args)"
    by (simp add: evaluate_not_bind [abs_def] del: evaluate.simps)
  show "evaluate (Expression ''not'' [Expression ''and'' args]) s =
      evaluate (Expression ''or'' (map (\<lambda>a. Expression ''not'' [a]) args)) s"
    using junction_loop_dual [of True False "map evaluate args" s]
    unfolding evaluate_not_bind evaluate.simps(4) [of "''and''"] evaluate.simps(4) [of "''or''"] m
    by (simp add: dispatch_def plan_simps junction_def)
  show "evaluate (Expression ''not'' [Expression ''or'' args]) s =
      evaluate (Expression ''and'' (map (\<lambda>a. Expression ''not'' [a]) args)) s"
    using junction_loop_dual [of False False "map evaluate args" s]
    unfolding evaluate_not_bind evaluate.simps(4) [of "''and''"] evaluate.simps(4) [of "''or''"] m
    by (simp add: dispatch_def plan_simps junction_def)
  show "evaluate (Expression ''not'' [Expression ''exists'' [c, Expression ''lambda'' [b, Variable x]]]) s =
      evaluate (Expression ''all'' [c, Expression ''lambda'' [Expression ''not'' [b], Variable x]]) s"
    using quantifier_call [OF assms, of MExists c b s] quantifier_call [OF assms, of MAll c "Expression ''not'' [b]" s]
    unfolding evaluate_not_bind macro_name_def macro.case
    by (simp add: bindE_assoc evaluate_not_bind del: evaluate.simps)
      (rule bindE_cong [OF refl], simp add: quantifier_loop_dual [where n' = 0] split: option.split,
        simp add: negate_def)
qed

subsection \<open>Properties\<close>

text \<open>
  C16. The connectives are Kleene's strong three-valued logic: over operands that evaluate, \<open>and\<close> is false
  when one operand is, whatever errors surround it, and an error only when no operand decides; \<open>or\<close> is
  its dual, \<open>not\<close> keeps the error, and a value that is no boolean counts as the error.
\<close>

theorem connectives_are_kleene:
  assumes "\<forall>x \<in> set args. evaluate x s = Inr (val x)"
  shows "evaluate (Expression ''and'' args) s = Inr (of_truth (k_all (map (\<lambda>x. verdict (val x)) args))) \<and>
    evaluate (Expression ''or'' args) s = Inr (of_truth (k_ex (map (\<lambda>x. verdict (val x)) args))) \<and>
    (\<forall>x \<in> set args. evaluate (Expression ''not'' [x]) s = Inr (of_truth (k_not (verdict (val x)))))"
  using assms evaluate_and [of args s val] evaluate_or [of args s val] evaluate_not [of _ s _ "[]"]
  by (simp del: evaluate.simps)

lemma connectives_are_kleene_witness:
  "\<forall>s. evaluate (Expression ''and'' [Value VNull, Value (VBool False)]) s = Inr (VBool False)"
  using connectives_are_kleene [of "[Value VNull, Value (VBool False)]" _ "\<lambda>x. case x of Value v \<Rightarrow> v | _ \<Rightarrow> VError"]
  by (simp add: k_all_def truth_of_def del: evaluate.simps(4))

text \<open>
  C17. A quantifier ranges over the elements of a list or the keys of a map: \<open>exists\<close> is the three-valued
  disjunction and \<open>all\<close> the conjunction of the body's verdicts, and \<open>exists_one\<close> counts, an error in any
  element making it an error.
\<close>

theorem quantifier_semantics:
  assumes "dot \<notin> set x" "evaluate c s = Inr target" "macroItems target = Some items"
    "\<forall>item \<in> set items. evaluate b (s\<lparr>bindings := (bindings s)(x \<mapsto> item)\<rparr>) = Inr (val item)"
  shows "evaluate (Expression (macro_name m) [c, Expression ''lambda'' [b, Variable x]]) s =
    Inr (let ts = map (\<lambda>item. verdict (val item)) items in
      case m of
        MExists \<Rightarrow> of_truth (k_ex ts)
      | MAll \<Rightarrow> of_truth (k_all ts)
      | MExistsOne \<Rightarrow> if EE \<in> set ts then VError else VBool (length (filter (\<lambda>t. t = TT) ts) = 1))"
proof -
  have "list_all2 (\<lambda>item v. evaluate b (bind_variables [x] item s) = Inr v) (map (\<lambda>item. [item]) items) (map val items)"
    using assms(4) by (simp add: list_all2_map_same)
  from quantifier_loop_value [OF this, of m 0 False] show ?thesis
    unfolding quantifier_call [OF assms(1)] using assms(2,3)
    by (cases m) (simp_all add: Let_def comp_def filter_map image_image)
qed

lemma quantifier_semantics_witness:
  "evaluate (Expression (macro_name MExists)
     [Value (VArr [VNull, VBool True]), Expression ''lambda'' [Variable (js ''x''), Variable (js ''x'')]])
     \<lparr>doc = VObj [], mapper = MapperRecord [], bindings = (\<lambda>_. None), nullIsMissing = False, clock = 0\<rparr> = Inr (VBool True)"
  using quantifier_semantics [of "js ''x''" "Value (VArr [VNull, VBool True])" _ "VArr [VNull, VBool True]" "[VNull, VBool True]"
      "Variable (js ''x'')" "\<lambda>v. v" MExists]
  by (simp add: js_def dot_def macroItems_def lookUp_def k_ex_def truth_of_def Let_def del: evaluate.simps(4))

text \<open>
  C18. Negation moves inward without changing anything, exceptions included: through \<open>and\<close> and \<open>or\<close> by De
  Morgan and through a quantifier by duality. The pushed-down filters rely on the first two.
\<close>

theorem negation_duality:
  assumes "dot \<notin> set x"
  shows "evaluate (Expression ''not'' [Expression ''and'' args]) s =
      evaluate (Expression ''or'' (map (\<lambda>a. Expression ''not'' [a]) args)) s \<and>
    evaluate (Expression ''not'' [Expression ''or'' args]) s =
      evaluate (Expression ''and'' (map (\<lambda>a. Expression ''not'' [a]) args)) s \<and>
    evaluate (Expression ''not'' [Expression ''exists'' [c, Expression ''lambda'' [b, Variable x]]]) s =
      evaluate (Expression ''all'' [c, Expression ''lambda'' [Expression ''not'' [b], Variable x]]) s"
  using negation_dual [OF assms] by blast

lemma negation_duality_witness:
  "\<forall>b c s. evaluate (Expression ''not'' [Expression ''exists'' [c, Expression ''lambda'' [b, Variable (js ''x'')]]]) s =
   evaluate (Expression ''all'' [c, Expression ''lambda'' [Expression ''not'' [b], Variable (js ''x'')]]) s"
  using negation_duality [of "js ''x''"] by (simp add: js_def dot_def del: evaluate.simps)

end
