(* ===== verification/Convex_Engine.thy ===== *)
theory Convex_Engine
  imports Convex_Logic
begin

text \<open>
  The contract between the adapter and Convex's filter engine, and the correctness of the pushed-down
  filter under it. The engine is not in the repository: \<open>convex_engine\<close> states what its documentation
  promises of the ten builder functions, and the filter emitted for a plan is proved to select exactly
  the documents on which the plan is true for the adapter's own evaluator.
\<close>

subsection \<open>Convex values and their order\<close>

datatype cvx = CUndefined | CVal jsval | CBytes

text \<open>undefined < null < int64 < float64 < boolean < string < bytes < array < object\<close>

fun type_rank :: "cvx \<Rightarrow> nat" where
  "type_rank CUndefined = 0"
| "type_rank CBytes = 6"
| "type_rank (CVal v) =
     (case v of VNull \<Rightarrow> 1 | VBig _ \<Rightarrow> 2 | VNum _ \<Rightarrow> 3 | VBool _ \<Rightarrow> 4 | VStr _ \<Rightarrow> 5 | VArr _ \<Rightarrow> 7 | _ \<Rightarrow> 8)"

text \<open>
  \<open>selects d r\<close>: the engine keeps document \<open>d\<close> under the built expression \<open>r\<close>. \<open>operand_value\<close> is what an
  argument of a comparison denotes on a document, and \<open>less\<close> the engine's order.
\<close>

locale convex_engine =
  fixes q :: "'r FilterQ"
    and selects :: "jsval \<Rightarrow> 'r \<Rightarrow> bool"
    and operand_value :: "jsval \<Rightarrow> 'r filterArg \<Rightarrow> cvx"
    and less :: "cvx \<Rightarrow> cvx \<Rightarrow> bool"
  assumes literal_value: "operand_value d (Literal a) = CVal a"
    and buffer_value: "operand_value d EmptyBuffer = CBytes"
    and field_value: "getNestedValue d path \<noteq> VError \<Longrightarrow>
      operand_value d (Built (q_field q path)) = CVal (getNestedValue d path)"
    and eq_json: "operand_value d x = CVal a \<Longrightarrow> operand_value d y = CVal b \<Longrightarrow> json a \<Longrightarrow> json b \<Longrightarrow>
      selects d (q_eq q x y) \<longleftrightarrow> valuesEqual a b"
    and neq_not_eq: "selects d (q_neq q x y) \<longleftrightarrow> \<not> selects d (q_eq q x y)"
    and lt_less: "selects d (q_lt q x y) \<longleftrightarrow> less (operand_value d x) (operand_value d y)"
    and gt_less: "selects d (q_gt q x y) \<longleftrightarrow> less (operand_value d y) (operand_value d x)"
    and lte_less: "selects d (q_lte q x y) \<longleftrightarrow> \<not> less (operand_value d y) (operand_value d x)"
    and gte_less: "selects d (q_gte q x y) \<longleftrightarrow> \<not> less (operand_value d x) (operand_value d y)"
    and and_all: "selects d (q_and q rs) \<longleftrightarrow> (\<forall>r \<in> set rs. selects d r)"
    and or_any: "selects d (q_or q rs) \<longleftrightarrow> (\<exists>r \<in> set rs. selects d r)"
    and not_not: "selects d (q_not q r) \<longleftrightarrow> \<not> selects d r"
    and less_types: "type_rank u \<noteq> type_rank v \<Longrightarrow> less u v \<longleftrightarrow> type_rank u < type_rank v"
    and less_numbers: "json (VNum m) \<Longrightarrow> json (VNum n) \<Longrightarrow> less (CVal (VNum m)) (CVal (VNum n)) \<longleftrightarrow> num_lt m n"
    and less_booleans: "less (CVal (VBool p)) (CVal (VBool p')) \<longleftrightarrow> \<not> p \<and> p'"
    and less_strings: "less (CVal (VStr s)) (CVal (VStr t)) \<longleftrightarrow> utf8_bytes s < utf8_bytes t"

subsection \<open>The documents a filter is exact on\<close>

text \<open>
  A field the mapper does not declare nullable is stored, as a JSON value, and not as \<open>null\<close> where \<open>null\<close>
  means an omitted attribute.
\<close>

definition stored :: "scope \<Rightarrow> jstring \<Rightarrow> bool" where
  "stored s name \<longleftrightarrow>
     (let v = getNestedValue (doc s) (resolveField name (mapper s))
      in json v \<and> (nullIsMissing s \<longrightarrow> v \<noteq> VNull))"

definition stored_boolean :: "scope \<Rightarrow> jstring \<Rightarrow> bool" where
  "stored_boolean s name \<longleftrightarrow> (\<exists>b. getNestedValue (doc s) (resolveField name (mapper s)) = VBool b)"

text \<open>
  The conditions on a plan's leaves: literals are JSON, comparison fields are stored, and a variable that is
  itself a condition is stored as a boolean.
\<close>

fun fits_args :: "operand list \<Rightarrow> scope \<Rightarrow> bool" where
  "fits_args (x # y # rest) s =
     (case (x, y) of
        (Variable name, Value v) \<Rightarrow> stored s name \<and> json v
      | (Value v, Variable name) \<Rightarrow> stored s name \<and> json v
      | _ \<Rightarrow> True)"
| "fits_args _ s = True"

function fits :: "operand \<Rightarrow> scope \<Rightarrow> bool" where
  "fits (Value v) s = True"
| "fits Malformed s = True"
| "fits (Variable name) s = stored_boolean s name"
| "fits (Expression op args) s =
     (if op = ''and'' \<or> op = ''or'' then list_all (\<lambda>operand. fits operand s) args
      else if op = ''not'' then list_all (\<lambda>operand. fits operand s) (take 1 args)
      else fits_args args s)"
  by pat_completeness auto
termination
  by (relation "measure (\<lambda>(operand, s). size operand)")
    (auto simp: less_Suc_eq_le dest: in_set_takeD intro: size_list_estimation')

subsection \<open>The evaluator on a leaf\<close>

definition comparison_name :: "cmp_op \<Rightarrow> string" where
  "comparison_name cel =
     (case cel of Eq \<Rightarrow> ''eq'' | Ne \<Rightarrow> ''ne'' | Lt \<Rightarrow> ''lt'' | Le \<Rightarrow> ''le'' | Gt \<Rightarrow> ''gt'' | Ge \<Rightarrow> ''ge'')"

lemma evaluate_comparison:
  "evaluate (Expression (comparison_name cel) (x # y # rest)) s =
     bindE (evaluate x s) (\<lambda>l. bindE (evaluate y s) (\<lambda>r. Inr (compareValues cel l r)))"
  by (cases cel) (simp_all add: comparison_name_def dispatch_def plan_simps comparison_def arg_def)

lemma evaluate_in:
  "evaluate (Expression ''in'' (x # y # rest)) s =
     bindE (evaluate x s) (\<lambda>needle. bindE (evaluate y s) (\<lambda>haystack.
       if isEvaluationError needle \<or> isEvaluationError haystack then Inr VError
       else case macroItems haystack of
         None \<Rightarrow> Inr VError
       | Some members \<Rightarrow> Inr (VBool (listContains members needle))))"
  by (simp add: dispatch_def plan_simps membership_def arg_def cong: option.case_cong)

lemma lookUp_stored:
  "bindings s = (\<lambda>_. None) \<Longrightarrow> stored s name \<Longrightarrow>
   lookUp name s = getNestedValue (doc s) (resolveField name (mapper s))"
  by (simp add: lookUp_def stored_def readPath_def Let_def)

lemma lookUp_stored_boolean:
  "bindings s = (\<lambda>_. None) \<Longrightarrow> stored_boolean s name \<Longrightarrow>
   lookUp name s = getNestedValue (doc s) (resolveField name (mapper s))"
  by (auto simp: lookUp_def stored_boolean_def readPath_def Let_def)

definition same_ordered_type :: "jsval \<Rightarrow> jsval \<Rightarrow> bool" where
  "same_ordered_type l r =
     (case l of
        VNum _ \<Rightarrow> (case r of VNum _ \<Rightarrow> True | _ \<Rightarrow> False)
      | VBool _ \<Rightarrow> (case r of VBool _ \<Rightarrow> True | _ \<Rightarrow> False)
      | VStr _ \<Rightarrow> (case r of VStr _ \<Rightarrow> True | _ \<Rightarrow> False)
      | _ \<Rightarrow> False)"

lemma json_cases:
  assumes "json v"
  obtains "v = VNull" | b where "v = VBool b" | x where "v = VNum x" | s where "v = VStr s"
    | xs where "v = VArr xs" | kvs where "v = VObj kvs"
  using assms by (cases v) auto

lemma same_ordered_typeE:
  assumes "same_ordered_type l r"
  obtains x y where "l = VNum x" "r = VNum y" | x y where "l = VBool x" "r = VBool y"
    | x y where "l = VStr x" "r = VStr y"
  using assms by (cases l; cases r) (simp_all add: same_ordered_type_def)

lemma ordering_keys_json:
  assumes "json l" "json r"
  shows "ordering_keys l r = None \<longleftrightarrow> \<not> same_ordered_type l r"
  by (rule json_cases [OF assms(1)]; rule json_cases [OF assms(2)])
    (simp_all add: ordering_keys_def same_ordered_type_def)

lemma finite_not_nan [simp]: "is_finite x \<Longrightarrow> \<not> is_nan x"
  by (cases x) auto

lemma json_not_nan: "json v \<Longrightarrow> \<not> isNaNValue v"
  by (cases v) auto

lemma compareValues_json:
  assumes "json l" "json r"
  shows "compareValues cel l r =
    (if cel = Eq then VBool (valuesEqual l r) else if cel = Ne then VBool (\<not> valuesEqual l r)
     else case ordering_keys l r of Some (a, b) \<Rightarrow> VBool (holds cel a b) | None \<Rightarrow> VError)"
  using assms json_not_nan by (simp add: compareValues_def isEvaluationError_def Let_def)

lemma ordering_keys_flip:
  assumes "json l" "json r" "ordering_keys l r = Some (a, b)"
  shows "\<exists>a' b'. ordering_keys r l = Some (a', b') \<and> (num_lt a' b' \<longleftrightarrow> num_lt b a) \<and> (num_lt b' a' \<longleftrightarrow> num_lt a b) \<and>
    \<not> is_nan a \<and> \<not> is_nan b \<and> \<not> is_nan a' \<and> \<not> is_nan b'"
proof -
  have nan: "\<not> is_nan a \<and> \<not> is_nan b"
    using ordering_keys_nan_free [OF assms(3)] assms(1,2) json_nan_free by blast
  from assms(3) show ?thesis
  proof (cases rule: ordering_keysE)
    case num
    then show ?thesis using nan by (simp add: ordering_keys_def)
  next
    case (str s t)
    then show ?thesis using nan compareCodePoints_flip [of s t] by (simp add: ordering_keys_def)
  next
    case (bool x y)
    then show ?thesis using nan by (simp add: ordering_keys_def)
  next
    case (dur m n)
    then show ?thesis using assms(1) by simp
  qed
qed

lemma valuesEqual_json_sym: "json l \<Longrightarrow> json r \<Longrightarrow> valuesEqual l r = valuesEqual r l"
  using valuesEqual_sym json_wf by blast

lemma compareValues_mirrored:
  assumes "json l" "json r"
  shows "compareValues (MIRRORED_COMPARISON cel) l r = compareValues cel r l"
proof (cases "ordering_keys l r")
  case None
  then have "ordering_keys r l = None"
    using assms by (simp add: ordering_keys_json) (auto simp: same_ordered_type_def split: jsval.splits)
  then show ?thesis using assms None valuesEqual_json_sym [OF assms] by (cases cel) (simp_all add: compareValues_json)
next
  case (Some p)
  then obtain a b where p: "ordering_keys l r = Some (a, b)" by (cases p) auto
  then show ?thesis using assms ordering_keys_flip [OF assms p] valuesEqual_json_sym [OF assms]
    by (cases cel) (auto simp: compareValues_json num_le_def)
qed

context convex_engine
begin

lemma field_json:
  "json (getNestedValue d path) \<Longrightarrow> operand_value d (Built (q_field q path)) = CVal (getNestedValue d path)"
  by (intro field_value) auto

lemma selects_eq_field:
  "json (getNestedValue d path) \<Longrightarrow> json v \<Longrightarrow>
   selects d (q_eq q (Built (q_field q path)) (Literal v)) \<longleftrightarrow> valuesEqual (getNestedValue d path) v"
  by (rule eq_json [OF field_json literal_value])

lemma selects_always [simp]: "selects d (always q b) = b"
  by (simp add: always_def eq_json [OF literal_value literal_value] scalarEqual_def)

lemma selects_polarised [simp]: "selects d (polarised q neg r) \<longleftrightarrow> (if neg then \<not> selects d r else selects d r)"
  by (simp add: polarised_def not_not)


lemma guard_exact:
  assumes "json (getNestedValue d path)" "json v" "sameTypeAs v q (q_field q path) = Some g"
  shows "selects d g \<longleftrightarrow> same_ordered_type (getNestedValue d path) v"
proof -
  note f = field_json [OF assms(1)]
  note laws = and_all gt_less lt_less lte_less gte_less f literal_value buffer_value
  show ?thesis
    using assms(3)
    by - (rule json_cases [OF assms(2)]; rule json_cases [OF assms(1)];
      auto simp: sameTypeAs_def same_ordered_type_def laws less_types less_booleans less_strings utf8_bytes_def)
qed

lemma no_guard: "sameTypeAs v q f = None \<Longrightarrow> json v \<Longrightarrow> \<not> same_ordered_type u v"
  by (rule json_cases [of v]) (auto simp: sameTypeAs_def same_ordered_type_def split: jsval.splits)

lemma ordering_exact:
  assumes "json (getNestedValue d path)" "json v" "same_ordered_type (getNestedValue d path) v"
    "cel \<noteq> Eq" "cel \<noteq> Ne"
  shows "compareValues cel (getNestedValue d path) v =
    VBool (selects d (CONVEX_COMPARISON cel q (Built (q_field q path)) (Literal v)))"
proof -
  note laws = gt_less lt_less lte_less gte_less field_json [OF assms(1)] literal_value
  from assms(3) show ?thesis
  proof (cases rule: same_ordered_typeE)
    case (1 x y)
    then show ?thesis using assms
      by (cases cel) (auto simp: compareValues_json ordering_keys_def laws less_numbers num_le_def)
  next
    case (2 x y)
    then show ?thesis using assms
      by (cases cel) (auto simp: compareValues_json ordering_keys_def laws less_booleans num_le_def)
  next
    case (3 x y)
    then show ?thesis using assms compareCodePoints_less [of x y] compareCodePoints_less [of y x]
        compareCodePoints_flip [of x y]
      by (cases cel) (auto simp: compareValues_json ordering_keys_def laws less_strings utf8_bytes_less num_le_def)
  qed
qed

end

subsection \<open>The emitted filter is exact\<close>

lemma list_all2_quantifiers:
  assumes "list_all2 (\<lambda>x r. P r \<longleftrightarrow> Q x) xs rs"
  shows "(\<forall>r \<in> set rs. P r) \<longleftrightarrow> (\<forall>x \<in> set xs. Q x)" "(\<exists>r \<in> set rs. P r) \<longleftrightarrow> (\<exists>x \<in> set xs. Q x)"
  using assms by (induction rule: list_all2_induct) auto

lemma mem_map_iff: "t \<in> set (map f xs) \<longleftrightarrow> (\<exists>x \<in> set xs. f x = t)"
  "(\<forall>t \<in> set (map f xs). P t) \<longleftrightarrow> (\<forall>x \<in> set xs. P (f x))"
  by auto

lemma ruleFor_cases:
  assumes "ruleFor op = Some rule"
  obtains "op = ''and''" "rule = AndRule" | "op = ''or''" "rule = OrRule" | "op = ''not''" "rule = NotRule"
    | cel where "op = comparison_name cel" "rule = EqualityRule cel" "cel = Eq \<or> cel = Ne"
    | cel where "op = comparison_name cel" "rule = OrderingRule cel" "cel \<noteq> Eq" "cel \<noteq> Ne"
    | "op = ''in''" "rule = InRule"
proof -
  have "list_all (\<lambda>(op, rule). case rule of
      AndRule \<Rightarrow> op = ''and'' | OrRule \<Rightarrow> op = ''or'' | NotRule \<Rightarrow> op = ''not'' | InRule \<Rightarrow> op = ''in''
    | EqualityRule cel \<Rightarrow> op = comparison_name cel \<and> (cel = Eq \<or> cel = Ne)
    | OrderingRule cel \<Rightarrow> op = comparison_name cel \<and> cel \<noteq> Eq \<and> cel \<noteq> Ne) PUSHDOWN_RULES"
    by (simp add: PUSHDOWN_RULES_def comparison_name_def)
  moreover have "(op, rule) \<in> set PUSHDOWN_RULES" using assms by (auto simp: ruleFor_def dest: map_of_SomeD)
  ultimately show ?thesis using that by (cases rule) (auto simp: list_all_iff)
qed

lemma fits_leaf: "fits (Expression (comparison_name cel) args) s = fits_args args s"
  "fits (Expression ''in'' args) s = fits_args args s"
  by (cases cel) (simp_all add: comparison_name_def)

lemma fieldAndLiteral_cases:
  assumes "fieldAndLiteral args = Some (name, v, swapped)"
  obtains rest where "args = Variable name # Value v # rest" "\<not> swapped"
    | rest where "args = Value v # Variable name # rest" "swapped"
  using assms by (auto simp: fieldAndLiteral_def split: list.splits operand.splits)

lemma comparison_leaf:
  assumes "bindings s = (\<lambda>_. None)" "fits_args args s"
    "comparisonParts args q (mapper s) op cel = Inr (field, lit, cmp)"
  shows "\<exists>path. field = q_field q path \<and> json (getNestedValue (doc s) path) \<and> json lit \<and>
    cmp \<in> {cel, MIRRORED_COMPARISON cel} \<and>
    evaluate (Expression (comparison_name cel) args) s = Inr (compareValues cmp (getNestedValue (doc s) path) lit)"
proof -
  obtain name swapped where f: "fieldAndLiteral args = Some (name, lit, swapped)"
    and r: "field = q_field q (resolveField name (mapper s))" "cmp = (if swapped then MIRRORED_COMPARISON cel else cel)"
    using assms(3) by (auto simp: comparisonParts_def split: option.splits)
  let ?path = "resolveField name (mapper s)"
  from f have "stored s name \<and> json lit" using assms(2) by (cases rule: fieldAndLiteral_cases) simp_all
  then have st: "stored s name" "json lit" and j: "json (getNestedValue (doc s) ?path)"
    by (simp_all add: stored_def Let_def)
  note l = lookUp_stored [OF assms(1) st(1)]
  from f have "evaluate (Expression (comparison_name cel) args) s = Inr (compareValues cmp (getNestedValue (doc s) ?path) lit)"
    by (cases rule: fieldAndLiteral_cases)
      (simp_all only: evaluate_comparison evaluate.simps(1,2) bindE_simps l r if_True if_False compareValues_mirrored [OF j st(2)])
  then show ?thesis using r st j by auto
qed

context convex_engine
begin

lemma equality_exact:
  assumes "bindings s = (\<lambda>_. None)" "fits_args args s" "cel = Eq \<or> cel = Ne"
    "emit_equality args q (mapper s) op cel neg = Inr r"
  shows "\<exists>v. evaluate (Expression (comparison_name cel) args) s = Inr v \<and>
    (selects (doc s) r \<longleftrightarrow> verdict v = (if neg then FF else TT))"
proof -
  obtain field lit cmp where c: "comparisonParts args q (mapper s) op cel = Inr (field, lit, cmp)"
    and r: "r = polarised q neg (CONVEX_COMPARISON cmp q (Built field) (Literal lit))"
    using assms(4) by (auto simp: emit_equality_def bindE_eq_Inr)
  obtain path where p: "field = q_field q path" "json (getNestedValue (doc s) path)" "json lit"
      "cmp \<in> {cel, MIRRORED_COMPARISON cel}"
      "evaluate (Expression (comparison_name cel) args) s = Inr (compareValues cmp (getNestedValue (doc s) path) lit)"
    using comparison_leaf [OF assms(1,2) c] by blast
  have "cmp = Eq \<or> cmp = Ne" using p(4) assms(3) by auto
  then show ?thesis
    using p(5) compareValues_json [OF p(2,3)] selects_eq_field [OF p(2,3)] by (auto simp: r p(1) neq_not_eq)
qed

lemma ordering_leaf_exact:
  assumes "bindings s = (\<lambda>_. None)" "fits_args args s" "cel \<noteq> Eq" "cel \<noteq> Ne"
    "emit_ordering args q (mapper s) op cel neg = Inr r"
  shows "\<exists>v. evaluate (Expression (comparison_name cel) args) s = Inr v \<and>
    (selects (doc s) r \<longleftrightarrow> verdict v = (if neg then FF else TT))"
proof -
  obtain field lit cmp where c: "comparisonParts args q (mapper s) op cel = Inr (field, lit, cmp)"
    and r: "r = (case sameTypeAs lit q field of None \<Rightarrow> always q False
      | Some guard \<Rightarrow> q_and q [guard, polarised q neg (CONVEX_COMPARISON cmp q (Built field) (Literal lit))])"
    using assms(5) by (auto simp: emit_ordering_def bindE_eq_Inr split: option.splits)
  obtain path where p: "field = q_field q path" "json (getNestedValue (doc s) path)" "json lit"
      "cmp \<in> {cel, MIRRORED_COMPARISON cel}"
      "evaluate (Expression (comparison_name cel) args) s = Inr (compareValues cmp (getNestedValue (doc s) path) lit)"
    using comparison_leaf [OF assms(1,2) c] by blast
  have m: "cmp \<noteq> Eq" "cmp \<noteq> Ne" using p(4) assms(3,4) by (cases cel; auto)+
  show ?thesis
  proof (cases "same_ordered_type (getNestedValue (doc s) path) lit")
    case True
    then obtain g where g: "sameTypeAs lit q field = Some g" using no_guard [OF _ p(3)] by (cases "sameTypeAs lit q field") auto
    then show ?thesis
      using p(5) guard_exact [OF p(2,3)] ordering_exact [OF p(2,3) True m] True
      by (simp add: r p(1) and_all)
  next
    case False
    then have "compareValues cmp (getNestedValue (doc s) path) lit = VError"
      using m ordering_keys_json [OF p(2,3)] by (simp add: compareValues_json [OF p(2,3)])
    then show ?thesis
      using p(5) guard_exact [OF p(2,3)] False by (auto simp: r p(1) and_all split: option.splits)
  qed
qed

lemma in_exact:
  assumes "bindings s = (\<lambda>_. None)" "fits_args args s" "emit_in args q (mapper s) neg = Inr r"
  shows "\<exists>v. evaluate (Expression ''in'' args) s = Inr v \<and>
    (selects (doc s) r \<longleftrightarrow> verdict v = (if neg then FF else TT))"
proof -
  obtain name vals where f: "fieldInList args = Some (name, vals)"
    using assms(3) by (auto simp: emit_in_def split: option.splits)
  then obtain rest where args: "args = Variable name # Value (VArr vals) # rest"
    by (auto simp: fieldInList_def split: list.splits operand.splits jsval.splits)
  let ?path = "resolveField name (mapper s)"
  have st: "stored s name" "\<And>v. v \<in> set vals \<Longrightarrow> json v"
    using assms(2) by (auto simp: args list_all_iff)
  then have j: "json (getNestedValue (doc s) ?path)" by (simp add: stored_def Let_def)
  have e: "evaluate (Expression ''in'' args) s = Inr (VBool (listContains vals (getNestedValue (doc s) ?path)))"
    using j by (simp add: args evaluate_in lookUp_stored [OF assms(1) st(1)] isEvaluationError_def macroItems_def
        json_not_error del: evaluate.simps(4))
  define built where "built = (case vals of [] \<Rightarrow> always q False
    | [v] \<Rightarrow> q_eq q (Built (q_field q ?path)) (Literal v)
    | _ \<Rightarrow> q_or q (map (\<lambda>v. q_eq q (Built (q_field q ?path)) (Literal v)) vals))"
  have "selects (doc s) built \<longleftrightarrow> (\<exists>v \<in> set vals. valuesEqual (getNestedValue (doc s) ?path) v)"
    using selects_eq_field [OF j st(2)] by (auto simp: built_def or_any split: list.splits)
  also have "\<dots> \<longleftrightarrow> listContains vals (getNestedValue (doc s) ?path)"
    using valuesEqual_json_sym [OF j st(2)] by (auto simp: listContains_def list_ex_iff)
  finally have b: "selects (doc s) built \<longleftrightarrow> listContains vals (getNestedValue (doc s) ?path)" .
  have "r = polarised q neg built"
    using assms(3) by (auto simp: emit_in_def f Let_def built_def split: list.splits)
  then show ?thesis using e b by simp
qed

lemma junction_selects:
  assumes "emit_junction q neg c emitters = Inr r"
  shows "\<exists>rs. mapE (\<lambda>e. e neg) emitters = Inr rs \<and>
    (selects d r \<longleftrightarrow> (if c then \<forall>r \<in> set rs. selects d r else \<exists>r \<in> set rs. selects d r))"
  using assms
  by (cases c) (auto simp: emit_junction_def bindE_eq_Inr and_all or_any split: if_splits list.splits)

lemma emit_exact:
  assumes "bindings s = (\<lambda>_. None)" "canPushToDb e (mapper s)" "fits e s"
    "emitExpression e q (mapper s) neg = Inr r"
  shows "\<exists>v. evaluate e s = Inr v \<and> (selects (doc s) r \<longleftrightarrow> verdict v = (if neg then FF else TT))"
  using assms(2-4)
proof (induction e "mapper s" arbitrary: neg r rule: canPushToDb.induct)
  case (1 v)
  then show ?case by (cases v) auto
next
  case (2 name)
  obtain b where b: "getNestedValue (doc s) (resolveField name (mapper s)) = VBool b"
    using 2 by (auto simp: stored_boolean_def)
  then have "lookUp name s = VBool b" using 2 assms(1) by (simp add: lookUp_stored_boolean)
  moreover have "selects (doc s) (q_eq q (Built (q_field q (resolveField name (mapper s)))) (Literal (VBool True))) \<longleftrightarrow> b"
    using selects_eq_field [of "doc s" "resolveField name (mapper s)" "VBool True"] b by (simp add: scalarEqual_def)
  ultimately show ?case using 2 by auto
next
  case 3
  then show ?case by simp
next
  case (4 op args)
  obtain rule where rule: "ruleFor op = Some rule" using 4 by (auto split: option.splits)
  have em: "emit rule args (map (\<lambda>operand polarity. emitExpression operand q (mapper s) polarity) args) q (mapper s) op neg = Inr r"
    using 4 rule by simp
  have acc: "accepts rule args (map (\<lambda>operand. canPushToDb operand (mapper s)) args) (mapper s)"
    using 4 rule by simp
  have junction: "\<exists>rs val. list_all2 (\<lambda>x r. selects (doc s) r \<longleftrightarrow> verdict (val x) = (if neg then FF else TT)) args rs \<and>
      (\<forall>x \<in> set args. evaluate x s = Inr (val x)) \<and>
      (selects (doc s) r \<longleftrightarrow> (if c then \<forall>r \<in> set rs. selects (doc s) r else \<exists>r \<in> set rs. selects (doc s) r))"
    if emitted: "emit_junction q neg c (map (\<lambda>operand polarity. emitExpression operand q (mapper s) polarity) args) = Inr r"
      and pushable: "\<forall>x \<in> set args. canPushToDb x (mapper s) \<and> fits x s" for c
  proof -
    obtain rs where rs: "list_all2 (\<lambda>x r. emitExpression x q (mapper s) neg = Inr r) args rs"
      "selects (doc s) r \<longleftrightarrow> (if c then \<forall>r \<in> set rs. selects (doc s) r else \<exists>r \<in> set rs. selects (doc s) r)"
      using junction_selects [OF emitted, of "doc s"] by (auto simp: mapE_ok_iff list_all2_map1)
    have "\<exists>v. evaluate x s = Inr v \<and> (selects (doc s) r' \<longleftrightarrow> verdict v = (if neg then FF else TT))"
      if "x \<in> set args" "emitExpression x q (mapper s) neg = Inr r'" for x r'
      using 4(1) [OF rule that(1)] that pushable by blast
    then have "list_all2 (\<lambda>x r. selects (doc s) r \<longleftrightarrow> verdict (projr (evaluate x s)) = (if neg then FF else TT)) args rs"
      "\<forall>x \<in> set args. evaluate x s = Inr (projr (evaluate x s))"
      using rs(1) by (fastforce simp: list_all2_conv_all_nth in_set_conv_nth)+
    then show ?thesis using rs(2) by (intro exI [of _ rs] exI [of _ "\<lambda>x. projr (evaluate x s)"]) simp
  qed
  from rule show ?case
  proof (cases rule: ruleFor_cases)
    case 1
    then have "\<forall>x \<in> set args. canPushToDb x (mapper s) \<and> fits x s"
      using acc 4(3) by (auto simp: list_all_iff)
    from junction [of "\<not> neg", OF _ this] obtain rs val where l: "list_all2 (\<lambda>x r. selects (doc s) r \<longleftrightarrow> verdict (val x) = (if neg then FF else TT)) args rs"
        and v: "\<And>x. x \<in> set args \<Longrightarrow> evaluate x s = Inr (val x)"
        and r: "selects (doc s) r \<longleftrightarrow> (if \<not> neg then \<forall>r \<in> set rs. selects (doc s) r else \<exists>r \<in> set rs. selects (doc s) r)"
      using em 1 by auto
    from evaluate_and [of args s val, OF v] show ?thesis using 1 r list_all2_quantifiers [OF l]
      by (cases neg) (simp_all add: k_all_TT k_all_FF mem_map_iff del: evaluate.simps set_map)
  next
    case 2
    then have "\<forall>x \<in> set args. canPushToDb x (mapper s) \<and> fits x s"
      using acc 4(3) by (auto simp: list_all_iff)
    from junction [of neg, OF _ this] obtain rs val where l: "list_all2 (\<lambda>x r. selects (doc s) r \<longleftrightarrow> verdict (val x) = (if neg then FF else TT)) args rs"
        and v: "\<And>x. x \<in> set args \<Longrightarrow> evaluate x s = Inr (val x)"
        and r: "selects (doc s) r \<longleftrightarrow> (if neg then \<forall>r \<in> set rs. selects (doc s) r else \<exists>r \<in> set rs. selects (doc s) r)"
      using em 2 by auto
    from evaluate_or [of args s val, OF v] show ?thesis using 2 r list_all2_quantifiers [OF l]
      by (cases neg) (simp_all add: k_ex_TT k_ex_FF mem_map_iff del: evaluate.simps set_map)
  next
    case 3
    then obtain x rest where args: "args = x # rest" and x: "emitExpression x q (mapper s) (\<not> neg) = Inr r"
      using em by (cases args) auto
    have "canPushToDb x (mapper s)" "fits x s" using acc 4(3) 3 by (auto simp: args)
    then obtain v where "evaluate x s = Inr v" "selects (doc s) r \<longleftrightarrow> verdict v = (if \<not> neg then FF else TT)"
      using 4(1) [OF rule _ _ _ x] by (auto simp: args)
    then show ?thesis using evaluate_not [of x s v rest] 3 by (auto simp: args simp del: evaluate.simps)
  next
    case (4 cel)
    have f: "fits_args args s" using \<open>fits (Expression op args) s\<close> 4(1) by (simp only: fits_leaf)
    show ?thesis using em equality_exact [OF assms(1) f 4(3)] 4(1,2) by (simp del: evaluate.simps)
  next
    case (5 cel)
    have f: "fits_args args s" using \<open>fits (Expression op args) s\<close> 5(1) by (simp only: fits_leaf)
    show ?thesis using em ordering_leaf_exact [OF assms(1) f 5(3,4)] 5(1,2) by (simp del: evaluate.simps)
  next
    case 6
    have f: "fits_args args s" using \<open>fits (Expression op args) s\<close> 6(1) by (simp only: fits_leaf)
    show ?thesis using em in_exact [OF assms(1) f] 6 by (simp del: evaluate.simps)
  qed
qed

end

subsection \<open>A reference engine\<close>

text \<open>
  The documented semantics, executed: the builder collects a tree and \<open>tree_selects\<close> interprets it.
\<close>

datatype filterTree =
    FField jstring
  | FCompare cmp_op "filterTree filterArg" "filterTree filterArg"
  | FAnd "filterTree list"
  | FOr "filterTree list"
  | FNot filterTree

definition tree_q :: "filterTree FilterQ" where
  "tree_q = \<lparr>q_eq = FCompare Eq, q_neq = FCompare Ne, q_lt = FCompare Lt, q_lte = FCompare Le,
     q_gt = FCompare Gt, q_gte = FCompare Ge, q_and = FAnd, q_or = FOr, q_not = FNot, q_field = FField\<rparr>"

fun tree_value :: "jsval \<Rightarrow> filterTree filterArg \<Rightarrow> cvx" where
  "tree_value d (Literal v) = CVal v"
| "tree_value d EmptyBuffer = CBytes"
| "tree_value d (Built r) =
     (case r of
        FField path \<Rightarrow> (let v = getNestedValue d path in if v = VError then CUndefined else CVal v)
      | _ \<Rightarrow> CUndefined)"

definition tree_less :: "cvx \<Rightarrow> cvx \<Rightarrow> bool" where
  "tree_less u v =
     (if type_rank u \<noteq> type_rank v then type_rank u < type_rank v
      else case (u, v) of
        (CVal (VNum m), CVal (VNum n)) \<Rightarrow> num_lt m n
      | (CVal (VBig m), CVal (VBig n)) \<Rightarrow> m < n
      | (CVal (VBool a), CVal (VBool b)) \<Rightarrow> \<not> a \<and> b
      | (CVal (VStr a), CVal (VStr b)) \<Rightarrow> utf8_bytes a < utf8_bytes b
      | _ \<Rightarrow> False)"

definition tree_equal :: "cvx \<Rightarrow> cvx \<Rightarrow> bool" where
  "tree_equal u v =
     (case (u, v) of (CVal a, CVal b) \<Rightarrow> type_rank u = type_rank v \<and> valuesEqual a b | _ \<Rightarrow> u = v)"

fun tree_compare :: "cmp_op \<Rightarrow> cvx \<Rightarrow> cvx \<Rightarrow> bool" where
  "tree_compare Eq u v = tree_equal u v"
| "tree_compare Ne u v = (\<not> tree_equal u v)"
| "tree_compare Lt u v = tree_less u v"
| "tree_compare Gt u v = tree_less v u"
| "tree_compare Le u v = (\<not> tree_less v u)"
| "tree_compare Ge u v = (\<not> tree_less u v)"

fun tree_selects :: "jsval \<Rightarrow> filterTree \<Rightarrow> bool" where
  "tree_selects d (FField path) = False"
| "tree_selects d (FCompare op x y) = tree_compare op (tree_value d x) (tree_value d y)"
| "tree_selects d (FAnd rs) = list_all (tree_selects d) rs"
| "tree_selects d (FOr rs) = list_ex (tree_selects d) rs"
| "tree_selects d (FNot r) = (\<not> tree_selects d r)"

lemma valuesEqual_same_type:
  assumes "json a" "json b" "valuesEqual a b"
  shows "type_rank (CVal a) = type_rank (CVal b)"
  using assms(3)
  by - (rule json_cases [OF assms(1)]; rule json_cases [OF assms(2)]; simp add: scalarEqual_def)

interpretation tree: convex_engine tree_q tree_selects tree_value tree_less
proof unfold_locales
  fix d x y a b
  assume "tree_value d x = CVal a" "tree_value d y = CVal b" "json a" "json b"
  then show "tree_selects d (q_eq tree_q x y) = valuesEqual a b"
    using valuesEqual_same_type [of a b] by (auto simp: tree_q_def tree_equal_def)
qed (auto simp: tree_q_def Let_def list_all_iff list_ex_iff tree_less_def)

end
