(* ===== verification/Convex_Correct.thy ===== *)
theory Convex_Correct
  imports Convex_Engine
begin

text \<open>
  The adapter's promise, end to end: whatever split between the engine and the post-filter
  \<open>queryPlanToConvex\<close> chooses, the documents the caller ends up with are those on which the plan is true.
\<close>

subsection \<open>Running a result\<close>

text \<open>
  What the caller does with a result, as the adapter's documentation asks: the filter goes to the query and
  the post-filter decides every document the query returns.
\<close>

fun run_result ::
  "'r FilterQ \<Rightarrow> (jsval \<Rightarrow> 'r \<Rightarrow> bool) \<Rightarrow> int \<Rightarrow> jsval \<Rightarrow> 'r QueryPlanToConvexResult \<Rightarrow> error + bool" where
  "run_result q selects now d KindAlwaysAllowed = Inr True"
| "run_result q selects now d KindAlwaysDenied = Inr False"
| "run_result q selects now d (Db f) = bindE (f q) (\<lambda>r. Inr (selects d r))"
| "run_result q selects now d (Post p) = p now d"
| "run_result q selects now d (Split f p) = bindE (f q) (\<lambda>r. if selects d r then p now d else Inr False)"

text \<open>The scope the post-filter evaluates a document in, with the mapper as the convention reads it.\<close>

definition effective_mapper :: "mapper \<Rightarrow> NullAttributeRepresentation \<Rightarrow> mapper" where
  "effective_mapper m convention = (if convention = Omitted then withOmittedNullDefault m else m)"

definition root_scope :: "mapper \<Rightarrow> NullAttributeRepresentation \<Rightarrow> int \<Rightarrow> jsval \<Rightarrow> scope" where
  "root_scope m convention now d =
     \<lparr>doc = d, mapper = effective_mapper m convention, bindings = (\<lambda>_. None),
      nullIsMissing = (convention = Omitted), clock = now\<rparr>"

lemma root_scope_simps [simp]:
  "doc (root_scope m c now d) = d" "mapper (root_scope m c now d) = effective_mapper m c"
  "bindings (root_scope m c now d) = (\<lambda>_. None)"
  by (simp_all add: root_scope_def)

text \<open>The part of the plan that is pushed to the engine fits the document.\<close>

definition pushed_fits :: "operand \<Rightarrow> scope \<Rightarrow> bool" where
  "pushed_fits e s =
     (if canPushToDb e (mapper s) then fits e s
      else case e of
        Expression op args \<Rightarrow> op = ''and'' \<longrightarrow> list_all (\<lambda>x. canPushToDb x (mapper s) \<longrightarrow> fits x s) args
      | _ \<Rightarrow> True)"

lemma verdict_TT [simp]: "verdict v = TT \<longleftrightarrow> v = VBool True"
  by (cases v) simp_all

lemma junction_loop_true:
  "junction_loop False sawError es s = Inr (VBool True) \<longleftrightarrow> \<not> sawError \<and> (\<forall>e \<in> set es. e s = Inr (VBool True))"
proof (induction es arbitrary: sawError)
  case (Cons e es)
  have step: "(let val = asBoolean v in if val = VBool False then Inr (VBool False)
        else junction_loop False (sawError \<or> isEvaluationError val) es s) = Inr (VBool True) \<longleftrightarrow>
      v = VBool True \<and> \<not> sawError \<and> (\<forall>e \<in> set es. e s = Inr (VBool True))" for v
  proof (cases v)
    case (VBool x)
    then show ?thesis by (cases x) (simp_all only: asBoolean.simps Let_def isEvaluationError_simps,
        use Cons.IH in auto)
  qed (simp_all add: Cons.IH)
  show ?case by (cases "e s") (simp_all only: junction_loop.simps bindE_simps step list.set, auto)
qed auto

lemma evaluate_and_true:
  "evaluate (Expression ''and'' args) s = Inr (VBool True) \<longleftrightarrow> (\<forall>x \<in> set args. evaluate x s = Inr (VBool True))"
  using junction_loop_true [of False "map evaluate args" s]
  by (simp add: dispatch_def plan_simps junction_def)

lemma evaluate_conjunction_true:
  "evaluate (conjunction args) s = Inr (VBool True) \<longleftrightarrow> (\<forall>x \<in> set args. evaluate x s = Inr (VBool True))"
  by (auto simp: conjunction_def evaluate_and_true simp del: evaluate.simps split: list.splits)

lemma ruleFor_and [simp]: "ruleFor ''and'' = Some AndRule"
  by (simp add: ruleFor_def PUSHDOWN_RULES_def)

lemma canPushToDb_conjunction: "canPushToDb (conjunction args) m \<longleftrightarrow> (\<forall>x \<in> set args. canPushToDb x m)"
  by (auto simp: conjunction_def list_all_iff split: list.splits)

lemma fits_conjunction: "\<forall>x \<in> set args. fits x s \<Longrightarrow> fits (conjunction args) s"
  by (auto simp: conjunction_def list_all_iff split: list.splits)

lemma postFilterFor_root:
  "postFilterFor e (effective_mapper m c) (c = Omitted) now d = bindE (evaluate e (root_scope m c now d)) (\<lambda>v. Inr (v = VBool True))"
  by (simp add: postFilterFor_def root_scope_def)

context convex_engine
begin

lemma filter_exact:
  assumes "canPushToDb e (effective_mapper m c)" "fits e (root_scope m c now d)"
    "convexFilter e (effective_mapper m c) q = Inr r"
  shows "selects d r \<longleftrightarrow> evaluate e (root_scope m c now d) = Inr (VBool True)"
  using emit_exact [of "root_scope m c now d" e False r] assms
  by (auto simp: convexFilter_def translateExpression_def)

lemma buildFilters_exact:
  assumes "pushed_fits e (root_scope m c now d)"
    "run_result q selects now d (buildFilters e (effective_mapper m c) (c = Omitted)) = Inr b"
  shows "b \<longleftrightarrow> evaluate e (root_scope m c now d) = Inr (VBool True)"
proof (cases "canPushToDb e (effective_mapper m c)")
  case True
  then show ?thesis using assms filter_exact [of e m c now d]
    by (auto simp: buildFilters_def pushed_fits_def bindE_eq_Inr)
next
  case False
  let ?m = "effective_mapper m c" and ?s = "root_scope m c now d"
  have post: "(b \<longleftrightarrow> evaluate e ?s = Inr (VBool True))" if "postFilterFor e ?m (c = Omitted) now d = Inr b"
    using that by (auto simp: postFilterFor_root bindE_eq_Inr)
  show ?thesis
  proof (cases "\<exists>args. e = Expression ''and'' args \<and> length args > 1 \<and>
      (\<exists>x \<in> set args. canPushToDb x ?m) \<and> (\<exists>x \<in> set args. \<not> canPushToDb x ?m)")
    case False
    then have "buildFilters e ?m (c = Omitted) =
        (Post (postFilterFor e ?m (c = Omitted)) :: 'r QueryPlanToConvexResult)"
      using \<open>\<not> canPushToDb e ?m\<close> by (auto simp: buildFilters_def Let_def filter_empty_conv split: operand.splits)
    then have "postFilterFor e ?m (c = Omitted) now d = Inr b" using assms(2) by simp
    then show ?thesis by (rule post)
  next
    case True
    then obtain args where e: "e = Expression ''and'' args" and args: "length args > 1"
      "\<exists>x \<in> set args. canPushToDb x ?m" "\<exists>x \<in> set args. \<not> canPushToDb x ?m" by blast
    define ps ns where "ps = filter (\<lambda>x. canPushToDb x ?m) args" and "ns = filter (\<lambda>x. \<not> canPushToDb x ?m) args"
    have "buildFilters e ?m (c = Omitted) =
        (Split (convexFilter (conjunction ps) ?m) (postFilterFor (conjunction ns) ?m (c = Omitted)) ::
          'r QueryPlanToConvexResult)"
      using args \<open>\<not> canPushToDb e ?m\<close> by (auto simp: e buildFilters_def Let_def filter_empty_conv ps_def ns_def simp del: canPushToDb.simps)
    then obtain r where r: "convexFilter (conjunction ps) ?m q = Inr r"
      and b: "(if selects d r then postFilterFor (conjunction ns) ?m (c = Omitted) now d else Inr False) = Inr b"
      using assms(2) by (auto simp: bindE_eq_Inr)
    have "fits (conjunction ps) ?s"
    proof (intro fits_conjunction ballI)
      fix x
      assume "x \<in> set ps"
      then show "fits x ?s"
        using assms(1) \<open>\<not> canPushToDb e ?m\<close> unfolding pushed_fits_def e
        by (simp add: list_all_iff ps_def del: canPushToDb.simps fits.simps)
    qed
    moreover have "canPushToDb (conjunction ps) ?m" by (simp add: canPushToDb_conjunction ps_def)
    ultimately have "selects d r \<longleftrightarrow> (\<forall>x \<in> set ps. evaluate x ?s = Inr (VBool True))"
      using filter_exact [OF _ _ r] by (simp add: evaluate_conjunction_true)
    moreover have "b \<longleftrightarrow> selects d r \<and> (\<forall>x \<in> set ns. evaluate x ?s = Inr (VBool True))"
      using b evaluate_conjunction_true [of ns ?s] by (auto simp: postFilterFor_root bindE_eq_Inr split: if_splits)
    moreover have "set args = set ps \<union> set ns" by (auto simp: ps_def ns_def)
    ultimately show ?thesis unfolding e evaluate_and_true by auto
  qed
qed

lemma queryPlan_exact:
  assumes "queryPlanToConvex (Conditional e) m allow c = Inr result" "pushed_fits e (root_scope m c now d)"
    "run_result q selects now d result = Inr b"
  shows "b \<longleftrightarrow> evaluate e (root_scope m c now d) = Inr (VBool True)"
proof -
  have "result = buildFilters e (effective_mapper m c) (c = Omitted)"
    using assms(1) by (auto simp: queryPlanToConvex_def bindE_eq_Inr Let_def effective_mapper_def split: if_splits)
  then show ?thesis using buildFilters_exact [OF assms(2)] assms(3) by simp
qed

end


subsection \<open>Emission is total\<close>

text \<open>A constant in a boolean position that is no boolean, and a \<open>not\<close> with no operand, are refused.\<close>

fun emittable :: "operand \<Rightarrow> bool" where
  "emittable (Value v) = (\<exists>b. v = VBool b)"
| "emittable (Variable name) = True"
| "emittable Malformed = False"
| "emittable (Expression op args) =
     (if op = ''and'' \<or> op = ''or'' then list_all emittable args
      else if op = ''not'' then (case args of x # _ \<Rightarrow> emittable x | [] \<Rightarrow> False)
      else True)"

lemma mapE_total: "(\<And>x. x \<in> set xs \<Longrightarrow> \<exists>y. f x = Inr y) \<Longrightarrow> \<exists>ys. mapE f xs = Inr ys"
proof (induction xs)
  case (Cons x xs)
  then show ?case by (metis bindE_simps(2) list.set_intros mapE.simps(2))
qed simp

lemma emit_total:
  assumes "canPushToDb e m" "emittable e"
  shows "\<exists>r. emitExpression e q m neg = Inr r"
  using assms
proof (induction e m arbitrary: neg rule: canPushToDb.induct)
  case (4 op args m)
  obtain rule where rule: "ruleFor op = Some rule" using 4 by (auto split: option.splits)
  have acc: "accepts rule args (map (\<lambda>x. canPushToDb x m) args) m" using 4 rule by simp
  have junction: "\<exists>r. emit_junction q neg c (map (\<lambda>x p. emitExpression x q m p) args) = Inr r"
    if "\<forall>x \<in> set args. canPushToDb x m \<and> emittable x" for c neg
  proof -
    have "\<exists>ys. mapE (\<lambda>x. emitExpression x q m neg) args = Inr ys"
      using that 4(1) [OF rule] by (intro mapE_total) blast
    then obtain ys where "mapE (\<lambda>e. e neg) (map (\<lambda>x p. emitExpression x q m p) args) = Inr ys"
      by (auto simp: mapE_ok_iff list_all2_map1)
    then show ?thesis by (auto simp: emit_junction_def split: list.splits)
  qed
  from rule show ?case
  proof (cases rule: ruleFor_cases)
    case 1
    then show ?thesis using 4(3) acc rule junction by (auto simp: list_all_iff)
  next
    case 2
    then show ?thesis using 4(3) acc rule junction by (auto simp: list_all_iff)
  next
    case 3
    then show ?thesis using 4(1) [OF rule] 4(3) acc rule by (cases args) auto
  next
    case (4 cel)
    then show ?thesis using acc rule
      by (auto simp: comparison_accepts_def emit_equality_def comparisonParts_def split: option.splits)
  next
    case (5 cel)
    then show ?thesis using acc rule
      by (auto simp: comparison_accepts_def emit_ordering_def comparisonParts_def split: option.splits)
  next
    case 6
    then show ?thesis using acc rule by (auto simp: in_accepts_def emit_in_def Let_def split: option.splits)
  qed
qed auto

subsection \<open>Properties\<close>

text \<open>
  C2. The pushed-down filter is exact under both polarities: over an engine that keeps the documented laws, for
  a plan that \<open>canPushToDb\<close> accepts and \<open>emitExpression\<close> translates (C3 says when it does), outside every
  lambda, the emitted filter selects a document exactly when the plan is true, and the filter emitted
  under a \<open>not\<close> exactly when the plan is false; an evaluation error is selected by neither. The document must fit
  the plan (\<open>fits\<close>): the literals of comparisons are JSON, the fields they compare are stored as JSON values and
  not as \<open>null\<close> where \<open>null\<close> means an omitted attribute, and a variable that is a condition by itself is stored as
  a boolean, without which the property is false (C4).
\<close>

theorem pushdown_exact:
  assumes "convex_engine q selects operand_value precedes"
    "bindings s = (\<lambda>_. None)" "canPushToDb e (mapper s)" "fits e s"
    "emitExpression e q (mapper s) negated = Inr r"
  shows "\<exists>v. evaluate e s = Inr v \<and> (selects (doc s) r \<longleftrightarrow> verdict v = (if negated then FF else TT))"
  using convex_engine.emit_exact [OF assms] .

text \<open>
  C3. Translation succeeds on every pushable plan whose constants in boolean positions are booleans and
  whose \<open>not\<close>s have an operand: the filter callback handed to Convex does not throw.
\<close>

theorem pushdown_total:
  assumes "canPushToDb e m" "emittable e"
  shows "\<exists>r. translateExpression e q m = Inr r"
  using emit_total [OF assms] by (simp add: translateExpression_def)

text \<open>
  C1. End to end, over an engine that keeps the documented laws: when \<open>queryPlanToConvex\<close> accepts a
  conditional plan and running its result on a document (the engine's filter, the post-filter, or the filter
  and then the post-filter) returns a verdict and does not throw, the document is granted exactly when the
  adapter's evaluator finds the whole plan true on it, under either convention for \<open>null\<close>. The document must
  fit the parts of the plan that are pushed to Convex (\<open>pushed_fits\<close>): the literals of pushed comparisons are
  JSON, the fields they compare are stored as JSON values and not as \<open>null\<close> where \<open>null\<close> means an omitted
  attribute, and a variable that is a pushed condition by itself is stored as a boolean, without which the
  property is false (C4). The parts left to the post-filter put no condition on the document.
\<close>

theorem queryPlan_grants_exactly:
  assumes "convex_engine q selects operand_value precedes"
    "queryPlanToConvex (Conditional e) m allow convention = Inr result"
    "pushed_fits e (root_scope m convention now d)"
    "run_result q selects now d result = Inr granted"
  shows "granted \<longleftrightarrow> evaluate e (root_scope m convention now d) = Inr (VBool True)"
  using convex_engine.queryPlan_exact [OF assms] .

subsection \<open>Witnesses\<close>

definition sample_plan :: operand where
  "sample_plan = Expression ''not'' [Expression ''lt'' [Variable (js ''n''), Value (VInt 5)]]"

definition sample_mapper :: mapper where
  "sample_mapper = MapperRecord [(js ''n'', \<lparr>fieldName = None, nullable = None\<rparr>)]"

definition sample_doc :: jsval where
  "sample_doc = VObj [(js ''n'', VStr (js ''x''))]"

lemma sample_read [simp]: "getNestedValue sample_doc (resolveField (js ''n'') sample_mapper) = VStr (js ''x'')"
  by (simp add: sample_doc_def sample_mapper_def resolveField_def js_def getNestedValue_def js_split_def dot_def)

lemma sample_pushable: "canPushToDb sample_plan sample_mapper"
  by (simp add: sample_plan_def sample_mapper_def ruleFor_def PUSHDOWN_RULES_def comparison_accepts_def
      fieldAndLiteral_def isNullableField_def js_def)

lemma sample_emittable: "emittable sample_plan"
  by (simp add: sample_plan_def)

lemma sample_scope [simp]: "effective_mapper sample_mapper Explicit = sample_mapper"
  by (simp add: effective_mapper_def)

lemma sample_fits: "fits sample_plan (root_scope sample_mapper Explicit 0 sample_doc)"
  by (simp add: sample_plan_def stored_def Let_def root_scope_def)

lemma pushdown_exact_witness:
  "\<exists>r v. emitExpression sample_plan tree_q sample_mapper False = Inr r \<and>
     evaluate sample_plan (root_scope sample_mapper Explicit 0 sample_doc) = Inr v \<and>
     (tree_selects sample_doc r \<longleftrightarrow> verdict v = TT)"
proof -
  obtain r where "emitExpression sample_plan tree_q sample_mapper False = Inr r"
    using emit_total [OF sample_pushable sample_emittable, of tree_q False] by blast
  then show ?thesis
    using pushdown_exact [OF tree.convex_engine_axioms _ _ sample_fits, of False r] sample_pushable by simp
qed

lemma pushdown_total_witness: "\<exists>r. translateExpression sample_plan tree_q sample_mapper = Inr r"
  using pushdown_total [OF sample_pushable sample_emittable] .

lemma sample_accepted:
  "queryPlanToConvex (Conditional sample_plan) sample_mapper False Explicit = Inr (Db (convexFilter sample_plan sample_mapper))"
proof -
  have "assertNoListValuedCondition sample_plan = Inr ()" "validateStructure sample_plan None = Inr ()"
    by (simp_all add: sample_plan_def plan_simps)
  moreover have "assertEveryReferenceMapped sample_plan sample_mapper {} = Inr ()"
    by (simp add: sample_plan_def sample_mapper_def isMappedReference_def)
  ultimately show ?thesis using sample_pushable by (simp add: queryPlanToConvex_def buildFilters_def)
qed

lemma queryPlan_grants_exactly_witness:
  "\<exists>granted. run_result tree_q tree_selects 0 sample_doc (Db (convexFilter sample_plan sample_mapper)) = Inr granted \<and>
     (granted \<longleftrightarrow> evaluate sample_plan (root_scope sample_mapper Explicit 0 sample_doc) = Inr (VBool True))"
proof -
  obtain r where r: "emitExpression sample_plan tree_q sample_mapper False = Inr r"
    using emit_total [OF sample_pushable sample_emittable, of tree_q False] by blast
  then have run: "run_result tree_q tree_selects 0 sample_doc (Db (convexFilter sample_plan sample_mapper)) = Inr (tree_selects sample_doc r)"
    by (simp add: convexFilter_def translateExpression_def)
  have "pushed_fits sample_plan (root_scope sample_mapper Explicit 0 sample_doc)"
    using sample_fits sample_pushable by (simp add: pushed_fits_def)
  from queryPlan_grants_exactly [OF tree.convex_engine_axioms sample_accepted this run] run show ?thesis by blast
qed

subsection \<open>A bare boolean variable\<close>

definition flag_plan :: operand where
  "flag_plan = Expression ''not'' [Variable (js ''n'')]"

definition flag_doc :: jsval where
  "flag_doc = VObj [(js ''n'', VNull)]"

text \<open>
  C4. The exactness of the pushed-down filter asks that a variable standing as a condition is stored as a
  boolean, and the code does not: \<open>emitExpression\<close> wraps \<open>q.eq(field, true)\<close> in \<open>q.not\<close>, so a document storing
  \<open>null\<close> there is granted by the negation although the condition is an evaluation error on it.
\<close>

lemma negated_bare_variable_overgrants:
  "queryPlanToConvex (Conditional flag_plan) sample_mapper False Explicit = Inr (Db (convexFilter flag_plan sample_mapper)) \<and>
   run_result tree_q tree_selects 0 flag_doc (Db (convexFilter flag_plan sample_mapper)) = Inr True \<and>
   evaluate flag_plan (root_scope sample_mapper Explicit 0 flag_doc) = Inr VError"
proof -
  have read: "getNestedValue flag_doc (resolveField (js ''n'') sample_mapper) = VNull"
    by (simp add: flag_doc_def sample_mapper_def resolveField_def js_def getNestedValue_def js_split_def dot_def)
  have "canPushToDb flag_plan sample_mapper"
    by (simp add: flag_plan_def sample_mapper_def ruleFor_def PUSHDOWN_RULES_def isNullableField_def)
  moreover have "assertNoListValuedCondition flag_plan = Inr ()" "validateStructure flag_plan None = Inr ()"
    by (simp_all add: flag_plan_def plan_simps)
  moreover have "assertEveryReferenceMapped flag_plan sample_mapper {} = Inr ()"
    by (simp add: flag_plan_def sample_mapper_def isMappedReference_def)
  ultimately have "queryPlanToConvex (Conditional flag_plan) sample_mapper False Explicit =
      Inr (Db (convexFilter flag_plan sample_mapper))"
    by (simp add: queryPlanToConvex_def buildFilters_def)
  moreover have "run_result tree_q tree_selects 0 flag_doc (Db (convexFilter flag_plan sample_mapper)) = Inr True"
    using read by (simp add: convexFilter_def translateExpression_def flag_plan_def ruleFor_def PUSHDOWN_RULES_def
        polarised_def tree_q_def tree_equal_def)
  moreover have "evaluate flag_plan (root_scope sample_mapper Explicit 0 flag_doc) = Inr VError"
    using read by (simp add: flag_plan_def evaluate_not_bind negate_def lookUp_def readPath_def root_scope_def js_def dot_def
        del: evaluate.simps(4))
  ultimately show ?thesis by blast
qed

end
