(* ===== verification/Chroma_Cel.thy ===== *)
theory Chroma_Cel
  imports Convex_Convert
begin

text \<open>
  langchain-chromadb/src/cel.ts: the CEL value semantics of the ChromaDB adapter's post-filter. The
  source was ported from convex/src/cel.ts by copying and has departed from it: a timestamp is a type
  of its own, a hierarchy compares only with a hierarchy, and the duration parser reads its unit table
  by own property. Every function is modelled from this adapter's copy; \<open>ported_cel_agrees\<close> and
  \<open>duration_parsers_agree\<close> relate the copies. \<open>isEvaluationError\<close>, \<open>asBoolean\<close>, \<open>isRecord\<close>,
  \<open>getNestedValue\<close>, \<open>compareCodePoints\<close> and the pieces of the RFC 3339 pattern are the shared ones.
\<close>

subsection \<open>Equality and ordering\<close>

definition numericEqual :: "jsval \<Rightarrow> jsval \<Rightarrow> bool" where
  "numericEqual left right \<longleftrightarrow>
     \<not> is_nan (exact left) \<and> \<not> is_nan (exact right) \<and>
     \<not> (num_lt (exact left) (exact right) \<or> num_lt (exact right) (exact left))"

text \<open>
  The tests in the order of the code: numbers first, then timestamps, durations, hierarchies (segment by
  segment), identity, lists and records.
\<close>

fun valuesEqual :: "jsval \<Rightarrow> jsval \<Rightarrow> bool" where
  "valuesEqual left right =
     (if isNumeric left \<and> isNumeric right then numericEqual left right
      else case left of
        VTime l \<Rightarrow> (case right of VTime r \<Rightarrow> l = r | _ \<Rightarrow> False)
      | VDur l \<Rightarrow> (case right of VDur r \<Rightarrow> l = r | _ \<Rightarrow> False)
      | VHier l \<Rightarrow>
          (case right of
             VHier r \<Rightarrow> length l = length r \<and> list_all (\<lambda>(a, b). a = b) (zip l r)
           | _ \<Rightarrow> False)
      | VArr l \<Rightarrow>
          (case right of
             VArr r \<Rightarrow> length l = length r \<and> list_all (\<lambda>(a, b). valuesEqual a b) (zip l r)
           | _ \<Rightarrow> False)
      | VObj l \<Rightarrow>
          (case right of
             VObj r \<Rightarrow> sort (map fst l) = sort (map fst r) \<and>
               list_all (\<lambda>(k, v). case map_of r k of Some w \<Rightarrow> valuesEqual v w | None \<Rightarrow> False) l
           | _ \<Rightarrow> False)
      | _ \<Rightarrow> left = right)"

declare valuesEqual.simps [simp del]

fun isHierarchy :: "jsval \<Rightarrow> bool" where
  "isHierarchy (VHier _) = True"
| "isHierarchy _ = False"

text \<open>The pair \<open>(a, b)\<close> the final \<open>switch\<close> compares; \<open>None\<close> where CEL has no ordering.\<close>

definition ordering_keys :: "jsval \<Rightarrow> jsval \<Rightarrow> (jsnum \<times> jsnum) option" where
  "ordering_keys left right =
     (case (left, right) of
        (VStr l, VStr r) \<Rightarrow> Some (Fin (of_int (compareCodePoints l r)), Fin 0)
      | (VBool l, VBool r) \<Rightarrow> Some (bool_num l, bool_num r)
      | (VTime l, VTime r) \<Rightarrow> Some (Fin (of_int l), Fin (of_int r))
      | (VDur l, VDur r) \<Rightarrow> Some (Fin (of_int l), Fin (of_int r))
      | _ \<Rightarrow>
          if isNaNValue left \<or> isNaNValue right then Some (NaN, NaN)
          else if isNumeric left \<and> isNumeric right then Some (exact left, exact right)
          else None)"

definition compareValues :: "cmp_op \<Rightarrow> jsval \<Rightarrow> jsval \<Rightarrow> jsval" where
  "compareValues operator left right =
     (if isEvaluationError left \<or> isEvaluationError right then VError
      else if operator = Eq \<or> operator = Ne then
        (if isHierarchy left \<noteq> isHierarchy right then VError
         else let equal = valuesEqual left right in VBool (if operator = Eq then equal else \<not> equal))
      else case ordering_keys left right of
             None \<Rightarrow> VError
           | Some (a, b) \<Rightarrow> VBool (holds operator a b))"

subsection \<open>Int arithmetic\<close>

definition celInt :: "int \<Rightarrow> jsval" where
  "celInt val =
     (if val < INT64_MIN \<or> val > INT64_MAX then VError
      else let asNumber = num_of_int val
           in if is_safe_integer asNumber then VNum asNumber else VBig val)"

definition toBigInt :: "jsval \<Rightarrow> int option" where
  "toBigInt val =
     (case val of
        VBig n \<Rightarrow> Some n
      | VNum x \<Rightarrow> if is_integer x then Some (num_trunc x) else None
      | _ \<Rightarrow> None)"

definition intArithmetic :: "arithmeticOperator \<Rightarrow> jsval \<Rightarrow> jsval \<Rightarrow> jsval" where
  "intArithmetic operator left right =
     (case toBigInt left of
        None \<Rightarrow> VError
      | Some a \<Rightarrow>
          (case toBigInt right of
             None \<Rightarrow> VError
           | Some b \<Rightarrow>
               (case operator of
                  Add \<Rightarrow> celInt (a + b)
                | Sub \<Rightarrow> celInt (a - b)
                | Mult \<Rightarrow> celInt (a * b)
                | Div \<Rightarrow> if b = 0 then VError else celInt (a sdiv b)
                | Mod \<Rightarrow> if b = 0 then VError else celInt (a smod b))))"

subsection \<open>Hierarchies\<close>

fun segment_strings :: "jsval list \<Rightarrow> jstring list option" where
  "segment_strings [] = Some []"
| "segment_strings (v # vs) =
     (case v of VStr s \<Rightarrow> map_option ((#) s) (segment_strings vs) | _ \<Rightarrow> None)"

definition toHierarchy :: "jsval \<Rightarrow> jsval option \<Rightarrow> jsval" where
  "toHierarchy path delimiter =
     (case delimiter of
        Some d \<Rightarrow>
          (case (path, d) of
             (VStr p, VStr sep) \<Rightarrow> VHier (if sep = [] then array_from p else js_split sep p)
           | _ \<Rightarrow> VError)
      | None \<Rightarrow>
          (case path of
             VHier h \<Rightarrow> VHier h
           | VStr p \<Rightarrow> VHier (js_split [dot] p)
           | VArr xs \<Rightarrow> (case segment_strings xs of Some h \<Rightarrow> VHier h | None \<Rightarrow> VError)
           | _ \<Rightarrow> VError))"

definition isSegmentPrefix :: "jstring list \<Rightarrow> jstring list \<Rightarrow> bool" where
  "isSegmentPrefix prefix_of of_segments \<longleftrightarrow>
     length prefix_of \<le> length of_segments \<and>
     list_all (\<lambda>(i, segment). nth_opt of_segments i = Some segment) (List.enumerate 0 prefix_of)"

definition isStrictAncestor :: "jstring list \<Rightarrow> jstring list \<Rightarrow> bool" where
  "isStrictAncestor ancestor descendent \<longleftrightarrow>
     length ancestor < length descendent \<and> isSegmentPrefix ancestor descendent"

subsection \<open>Timestamps\<close>

text \<open>\<open>match_rfc3339\<close> is the pattern, whose groups a match always fills except fraction and offset.\<close>

definition parseRfc3339Timestamp :: "jstring \<Rightarrow> jsval" where
  "parseRfc3339Timestamp val =
     (case match_rfc3339 val of
        None \<Rightarrow> VError
      | Some m \<Rightarrow>
          let year = int (digits_val (yearPart m)); month = int (digits_val (monthPart m));
              day = int (digits_val (dayPart m)); hour = int (digits_val (hourPart m));
              minute = int (digits_val (minutePart m)); second = int (digits_val (secondPart m))
          in if year < 1 \<or> year > 9999 \<or> month < 1 \<or> month > 12 \<or> day < 1 \<or>
                day > daysInMonth year month \<or> hour > 23 \<or> minute > 59 \<or> second > 59
             then VError
             else case zone_offset_minutes (zonePart m) of
               None \<Rightarrow> VError
             | Some offsetMinutes \<Rightarrow>
                 (case date_millis year month day hour minute second of
                    None \<Rightarrow> VError
                  | Some instant \<Rightarrow>
                      let epochMillis = instant - offsetMinutes * 60000;
                          timestampNanos = epochMillis * 1000000 + fraction_nanos (fractionPart m)
                      in if timestampNanos < MIN_TIMESTAMP_NANOS \<or> timestampNanos > MAX_TIMESTAMP_NANOS
                         then VError else VTime timestampNanos))"

subsection \<open>Durations\<close>

definition DURATION_MAX :: int where "DURATION_MAX = 2 ^ 63 - 1"
definition DURATION_MIN :: int where "DURATION_MIN = - (2 ^ 63)"
definition UINT_LIMIT :: int where "UINT_LIMIT = 2 ^ 63"

definition DURATION_UNITS :: "(jstring \<times> int) list" where
  "DURATION_UNITS =
     [(js ''ns'', 1), (js ''us'', 1000), ([0xb5, 115], 1000), ([0x3bc, 115], 1000),
      (js ''ms'', 1000000), (js ''s'', 1000000000), (js ''m'', 60000000000),
      (js ''h'', 3600000000000)]"

text \<open>Go's \<open>leadingInt\<close>: the value and the unread rest, \<open>None\<close> once it exceeds \<open>2^63\<close>.\<close>

fun leadingInt :: "int \<Rightarrow> jstring \<Rightarrow> (int \<times> jstring) option" where
  "leadingInt v [] = Some (v, [])"
| "leadingInt v (c # s) =
     (if is_digit c then
        if v > UINT_LIMIT div 10 then None
        else let v' = v * 10 + int (digit_val c)
             in if v' > UINT_LIMIT then None else leadingInt v' s
      else Some (v, c # s))"

text \<open>Go's \<open>leadingFraction\<close>: digits past int64 precision are dropped.\<close>

fun leadingFraction :: "int \<Rightarrow> jsnum \<Rightarrow> bool \<Rightarrow> jstring \<Rightarrow> int \<times> jsnum \<times> jstring" where
  "leadingFraction f scale overflowed [] = (f, scale, [])"
| "leadingFraction f scale overflowed (c # s) =
     (if is_digit c then
        if overflowed then leadingFraction f scale overflowed s
        else if f > DURATION_MAX div 10 then leadingFraction f scale True s
        else let next = f * 10 + int (digit_val c)
             in if next > UINT_LIMIT then leadingFraction f scale True s
                else leadingFraction next (num_mul scale (Fin 10)) overflowed s
      else (f, scale, c # s))"

text \<open>One turn of the loop: the value a component adds and the unread rest.\<close>

definition go_component :: "jstring \<Rightarrow> (int \<times> jstring) option" where
  "go_component s =
     (if \<not> (take 1 s = [46] \<or> (\<exists>c. take 1 s = [c] \<and> is_digit c)) then None
      else case leadingInt 0 s of
        None \<Rightarrow> None
      | Some (v, s1) \<Rightarrow>
          let pre = (length s1 < length s);
              (f, scale, s2) =
                (case expect 46 s1 of None \<Rightarrow> (0, Fin 1, s1) | Some r \<Rightarrow> leadingFraction 0 (Fin 1) False r);
              post = (case expect 46 s1 of None \<Rightarrow> False | Some r \<Rightarrow> length s2 < length r);
              u = length (takeWhile unit_char s2)
          in if \<not> pre \<and> \<not> post then None
             else if u = 0 then None
             else case map_of DURATION_UNITS (take u s2) of
               None \<Rightarrow> None
             | Some unit \<Rightarrow>
                 if v > UINT_LIMIT div unit then None
                 else let v' = v * unit
                      in if f > 0 then
                           let v'' = v' + num_trunc (num_mul (num_of_int f) (num_div (num_of_int unit) scale))
                           in if v'' > UINT_LIMIT then None else Some (v'', drop u s2)
                         else Some (v', drop u s2))"

lemma leadingInt_length: "leadingInt w s = Some (w', r) \<Longrightarrow> length r \<le> length s"
  by (induction w s rule: leadingInt.induct) (auto simp: Let_def split: if_splits)

lemma leadingFraction_length: "leadingFraction f sc ov s = (f', sc', r) \<Longrightarrow> length r \<le> length s"
  by (induction f sc ov s rule: leadingFraction.induct) (auto simp: Let_def split: if_splits)

lemma go_component_length:
  assumes "go_component s = Some (v, r)"
  shows "length r < length s"
proof -
  obtain w s1 where w: "leadingInt 0 s = Some (w, s1)"
    using assms by (auto simp: go_component_def split: if_splits option.splits)
  define t where "t = (case expect 46 s1 of None \<Rightarrow> (0, Fin 1, s1) | Some r \<Rightarrow> leadingFraction 0 (Fin 1) False r)"
  obtain f sc s2 where t2: "t = (f, sc, s2)" by (cases t)
  have "length s2 \<le> length s1"
    using t2 leadingFraction_length expect_length unfolding t_def
    by (fastforce split: option.splits)
  moreover have "length s1 \<le> length s" using leadingInt_length [OF w] .
  moreover have "\<exists>u. r = drop u s2 \<and> u \<noteq> 0 \<and> u \<le> length s2"
    using assms w t2 unfolding go_component_def
    by (auto simp: Let_def t_def [symmetric] length_takeWhile_le split: if_splits option.splits)
  ultimately show ?thesis by auto
qed

function go_components :: "int \<Rightarrow> jstring \<Rightarrow> int option" where
  "go_components total_nanos s =
     (if s = [] then Some total_nanos
      else case go_component s of
        None \<Rightarrow> None
      | Some (v, r) \<Rightarrow>
          if total_nanos + v > UINT_LIMIT then None else go_components (total_nanos + v) r)"
  by pat_completeness auto
termination
  by (relation "measure (\<lambda>(total_nanos, s). length s)") (auto dest: go_component_length)

declare go_components.simps [simp del]

definition parseGoDuration :: "jstring \<Rightarrow> jsval" where
  "parseGoDuration input =
     (let negative = (take 1 input = [45]);
          s = (if negative \<or> take 1 input = [43] then drop 1 input else input)
      in if s = [48] then VDur 0
         else if s = [] then VError
         else case go_components 0 s of
           None \<Rightarrow> VError
         | Some total_nanos \<Rightarrow>
             if negative then VDur (- total_nanos)
             else if total_nanos > DURATION_MAX then VError else VDur total_nanos)"

definition checkedDuration :: "int \<Rightarrow> jsval" where
  "checkedDuration nanos =
     (if nanos < DURATION_MIN \<or> nanos > DURATION_MAX then VError else VDur nanos)"

definition timeSince :: "int \<Rightarrow> jsval \<Rightarrow> jsval" where
  "timeSince now val =
     (case val of
        VTime t \<Rightarrow>
          let nanos = now - t
          in VDur (if nanos > DURATION_MAX then DURATION_MAX
                   else if nanos < DURATION_MIN then DURATION_MIN else nanos)
      | _ \<Rightarrow> VError)"

text \<open>The operator is \<open>Add\<close> or \<open>Sub\<close>: the compiler refuses the others over these types.\<close>

definition temporalArithmetic :: "arithmeticOperator \<Rightarrow> jsval \<Rightarrow> jsval \<Rightarrow> jsval" where
  "temporalArithmetic operator left right =
     (let sign = (if operator = Add then 1 else - 1)
      in case (left, right) of
           (VTime l, VDur r) \<Rightarrow> VTime (l + sign * r)
         | (VDur l, VTime r) \<Rightarrow> if operator = Add then VTime (l + r) else VError
         | (VDur l, VDur r) \<Rightarrow> checkedDuration (l + sign * r)
         | (VTime l, VTime r) \<Rightarrow> if operator = Sub then checkedDuration (l - r) else VError
         | _ \<Rightarrow> VError)"

subsection \<open>Conversions\<close>

definition formatGoDouble :: "jsnum \<Rightarrow> jstring" where
  "formatGoDouble val =
     (if is_nan val then js ''NaN''
      else if \<not> is_finite val then (if num_lt (Fin 0) val then js ''+Inf'' else js ''-Inf'')
      else let sign = (if num_lt val (Fin 0) \<or> val = NegZero then [45] else [])
           in if is_zero val then sign @ [48]
              else let (digits, exponent) = to_exponential \<bar>num_val val\<bar>
                   in if exponent < - 4 \<or> exponent \<ge> 6 then
                        let fraction = (if length digits > 1 then dot # drop 1 digits else []);
                            text = nat_to_string (nat \<bar>exponent\<bar>);
                            magnitude = replicate (2 - length text) 48 @ text
                        in sign @ take 1 digits @ fraction @ [101] @ (if exponent < 0 then [45] else [43])
                             @ magnitude
                      else let pointAt = exponent + 1
                        in if pointAt \<le> 0 then sign @ [48, dot] @ replicate (nat (- pointAt)) 48 @ digits
                           else if pointAt \<ge> int (length digits)
                           then sign @ digits @ replicate (nat pointAt - length digits) 48
                           else sign @ take (nat pointAt) digits @ dot # drop (nat pointAt) digits)"

definition convertToString :: "jsval \<Rightarrow> jsval" where
  "convertToString val =
     (case val of
        VStr s \<Rightarrow> VStr s
      | VBool b \<Rightarrow> VStr (if b then js ''true'' else js ''false'')
      | VBig n \<Rightarrow> VStr (int_to_string n)
      | VNum x \<Rightarrow> VStr (formatGoDouble x)
      | _ \<Rightarrow> VError)"

definition convertToDouble :: "jsval \<Rightarrow> jsval" where
  "convertToDouble val =
     (case val of
        VNum x \<Rightarrow> if is_finite x then VNum x else VError
      | VBig n \<Rightarrow> VNum (num_of_int n)
      | VStr s \<Rightarrow>
          (case CEL_DOUBLE_STRING s of
             None \<Rightarrow> VError
           | Some d \<Rightarrow> let converted = number_of_decimal d
                       in if is_finite converted then VNum converted else VError)
      | _ \<Rightarrow> VError)"

definition convertToInt :: "jsval \<Rightarrow> jsval" where
  "convertToInt val =
     (case val of
        VBig n \<Rightarrow> celInt n
      | VNum x \<Rightarrow>
          if \<not> is_finite x \<or> num_le x (Fin (- (2 ^ 63))) \<or> num_le (Fin (2 ^ 63)) x then VError
          else celInt (num_trunc x)
      | VStr s \<Rightarrow> (case CEL_INT_STRING s of None \<Rightarrow> VError | Some n \<Rightarrow> celInt n)
      | _ \<Rightarrow> VError)"

subsection \<open>The two copies\<close>

lemma scalarEqual_numericEqual:
  "scalarEqual l r = (if isNumeric l \<and> isNumeric r then numericEqual l r else l = r)"
  by (simp add: scalarEqual_def numericEqual_def)

lemma zip_all_same: "(length l = length r \<and> list_all (\<lambda>(a, b). a = b) (zip l r)) = (l = r)"
  by (auto simp: list_eq_iff_zip_eq list_all_iff)

lemma valuesEqual_eq: "valuesEqual l r = Convex_Cel.valuesEqual l r"
proof (induction l r rule: valuesEqual.induct)
  case (1 l r)
  show ?case
  proof (cases l)
    case (VArr xs)
    show ?thesis
    proof (cases r)
      case ys: (VArr ys)
      have "valuesEqual a b = Convex_Cel.valuesEqual a b" if "(a, b) \<in> set (zip xs ys)" for a b
        using 1(1) [OF _ VArr ys that refl] by (simp add: VArr)
      then show ?thesis
        by (auto simp: VArr ys valuesEqual.simps [of "VArr _"] list_all_iff)
    qed (simp_all add: VArr valuesEqual.simps [of "VArr _"])
  next
    case (VObj kvs)
    show ?thesis
    proof (cases r)
      case ws: (VObj ws)
      have "valuesEqual v w = Convex_Cel.valuesEqual v w" if "(k, v) \<in> set kvs" "map_of ws k = Some w" for k v w
        using 1(2) [OF _ VObj ws that(1) refl that(2)] by (simp add: VObj)
      then show ?thesis
        by (fastforce simp: VObj ws valuesEqual.simps [of "VObj _"] list_all_iff split: option.splits)
    qed (simp_all add: VObj valuesEqual.simps [of "VObj _"])
  next
    case (VHier h)
    then show ?thesis
      by (cases r)
        (simp_all add: valuesEqual.simps [of "VHier _"] valuesEqual_VHier zip_all_same del: Convex_Cel.valuesEqual.simps(1),
         simp_all)
  qed (auto simp: valuesEqual.simps scalarEqual_numericEqual split: jsval.splits)
qed

lemma celInt_eq: "celInt = Convex_Convert.celInt"
  by (simp add: fun_eq_iff celInt_def Convex_Convert.celInt_def)

lemma toBigInt_eq: "toBigInt = Convex_Convert.toBigInt"
  by (simp add: fun_eq_iff toBigInt_def Convex_Convert.toBigInt_def)

lemma intArithmetic_eq: "intArithmetic = Convex_Convert.intArithmetic"
  by (simp add: fun_eq_iff intArithmetic_def Convex_Convert.intArithmetic_def celInt_eq toBigInt_eq
      split: option.splits arithmeticOperator.splits)

lemma formatGoDouble_eq: "formatGoDouble = Convex_Convert.formatGoDouble"
  by (simp add: fun_eq_iff formatGoDouble_def Convex_Convert.formatGoDouble_def)

lemma convertToDouble_eq: "convertToDouble = Convex_Convert.convertToDouble"
  by (simp add: fun_eq_iff convertToDouble_def Convex_Convert.convertToDouble_def)

lemma convertToInt_eq: "convertToInt = Convex_Convert.convertToInt"
  by (simp add: fun_eq_iff convertToInt_def Convex_Convert.convertToInt_def celInt_eq
      split: jsval.splits option.splits)

lemma convertToString_eq: "convertToString v = Convex_Convert.convertToString v False"
  by (simp add: convertToString_def Convex_Convert.convertToString_def formatGoDouble_eq split: jsval.splits)

lemma isSegmentPrefix_eq: "isSegmentPrefix = Convex_Cel.isSegmentPrefix"
  by (auto simp: fun_eq_iff isSegmentPrefix_def Convex_Cel.isSegmentPrefix_def [symmetric]
      Convex_Cel.isSegmentPrefix_iff dest: prefix_length_le)

lemma isStrictAncestor_eq: "isStrictAncestor = Convex_Cel.isStrictAncestor"
  by (simp add: fun_eq_iff isStrictAncestor_def Convex_Cel.isStrictAncestor_def isSegmentPrefix_eq)

lemma limits_eq: "DURATION_MAX = INT64_MAX" "DURATION_MIN = INT64_MIN" "UINT_LIMIT = TWO_TO_63"
  by (simp_all add: DURATION_MAX_def DURATION_MIN_def UINT_LIMIT_def INT64_MAX_def INT64_MIN_def TWO_TO_63_def)

lemma units_eq: "DURATION_UNITS = Convex_Time.DURATION_UNITS"
  by (simp add: DURATION_UNITS_def Convex_Time.DURATION_UNITS_def)

lemma leadingInt_eq: "leadingInt v s = scan_whole v s"
  by (induction v s rule: leadingInt.induct) (simp_all add: limits_eq Let_def)

lemma leadingFraction_eq: "leadingFraction f sc ov s = scan_fraction f sc ov s"
  by (induction f sc ov s rule: leadingFraction.induct) (simp_all add: limits_eq Let_def)

lemma scan_whole_rest:
  assumes "scan_whole w s = Some (w', r)"
  shows "r = s \<or> length r < length s"
proof (cases s)
  case (Cons c s')
  then show ?thesis
    using assms scan_whole_length [of _ s' w' r] by (fastforce simp: Let_def less_Suc_eq_le split: if_splits)
qed (use assms in simp)

lemma scan_fraction_rest:
  assumes "scan_fraction f sc ov s = (f', sc', r)"
  shows "r = s \<or> length r < length s"
proof (cases s)
  case (Cons c s')
  show ?thesis
  proof (cases "is_digit c")
    case True
    then obtain f1 sc1 ov1 where "scan_fraction f1 sc1 ov1 s' = (f', sc', r)"
      using assms unfolding Cons by (simp add: Let_def split: if_splits)
    then show ?thesis using scan_fraction_length unfolding Cons by (fastforce simp: less_Suc_eq_le)
  qed (use assms Cons in simp)
qed (use assms in simp)

lemma takeWhile_dropWhile_length:
  "take (length (takeWhile P s)) s = takeWhile P s" "drop (length (takeWhile P s)) s = dropWhile P s"
  by (rule takeWhile_eq_take [symmetric], rule dropWhile_eq_drop [symmetric])

lemma go_component_eq:
  "go_component s = (case parse_component s of Inl _ \<Rightarrow> None | Inr r \<Rightarrow> r)"
proof (cases "scan_whole 0 s")
  case None
  then show ?thesis by (simp add: go_component_def parse_component_def leadingInt_eq)
next
  case (Some a)
  obtain v s1 where a: "a = (v, s1)" by (cases a)
  note w = Some [unfolded a]
  have pre: "length s1 < length s \<longleftrightarrow> s1 \<noteq> s" using scan_whole_rest [OF w] by auto
  define t where "t = (case expect 46 s1 of None \<Rightarrow> (0, Fin 1, s1) | Some r \<Rightarrow> scan_fraction 0 (Fin 1) False r)"
  obtain f sc s2 where t2: "t = (f, sc, s2)" by (cases t)
  have post: "(case expect 46 s1 of None \<Rightarrow> False | Some r \<Rightarrow> length s2 < length r) \<longleftrightarrow>
      (case expect 46 s1 of None \<Rightarrow> False | Some r \<Rightarrow> s2 \<noteq> r)"
    using t2 scan_fraction_rest unfolding t_def by (fastforce split: option.splits)
  have t: "(case expect 46 s1 of None \<Rightarrow> (0, Fin 1, s1) | Some r \<Rightarrow> leadingFraction 0 (Fin 1) False r) = (f, sc, s2)"
    using t2 by (simp add: t_def leadingFraction_eq cong: option.case_cong)
  show ?thesis
    unfolding go_component_def parse_component_def
    by (simp only: leadingInt_eq w t t_def [symmetric] t2 pre post takeWhile_dropWhile_length units_eq limits_eq
        Let_def split_conv option.case)
      (auto split: option.splits)
qed

lemma go_components_eq:
  "go_components n s = (case parse_components n s of Inl _ \<Rightarrow> None | Inr r \<Rightarrow> r)"
proof (induction n s rule: go_components.induct)
  case (1 n s)
  then show ?case
    by (subst go_components.simps, subst parse_components.simps)
      (auto simp: go_component_eq limits_eq split: option.splits sum.splits)
qed

lemma parseGoDuration_eq: "parseGoDuration s = (case parseCelDuration s of Inl _ \<Rightarrow> VError | Inr v \<Rightarrow> v)"
  by (simp add: parseGoDuration_def parseCelDuration_def Let_def go_components_eq limits_eq bindE_def
      split: option.splits sum.splits)

lemma checkedDuration_eq: "checkedDuration = Convex_Time.checkedDuration"
  by (simp add: fun_eq_iff checkedDuration_def Convex_Time.checkedDuration_def inInt64_def limits_eq)

lemma parseRfc3339Timestamp_eq:
  "parseRfc3339Timestamp s = (case Convex_Time.parseRfc3339Timestamp s of VBig n \<Rightarrow> VTime n | v \<Rightarrow> v)"
  by (simp add: parseRfc3339Timestamp_def Convex_Time.parseRfc3339Timestamp_def Let_def split: option.splits)

text \<open>No \<open>CelTimestamp\<close>, which convex's evaluator does not have.\<close>

fun is_time :: "jsval \<Rightarrow> bool" where
  "is_time (VTime _) = True"
| "is_time _ = False"

lemma ordering_keys_agree:
  assumes "\<not> (is_time l \<and> is_time r)" "\<not> isNaNValue l" "\<not> isNaNValue r"
  shows "ordering_keys l r = Convex_Cel.ordering_keys l r"
  using assms by (cases l; cases r) (simp_all add: ordering_keys_def Convex_Cel.ordering_keys_def)

lemma compareValues_agree:
  assumes "\<not> (is_time l \<and> is_time r)" "isHierarchy l = isHierarchy r"
  shows "compareValues op l r = Convex_Cel.compareValues op l r"
proof (cases "isNaNValue l \<or> isNaNValue r")
  case True
  then have "l = VError \<or> r = VError \<or> ordering_keys l r = Some (NaN, NaN)"
    by (cases l; cases r) (auto simp: ordering_keys_def)
  then show ?thesis using True assms
    by (cases op) (auto simp: compareValues_def Convex_Cel.compareValues_def valuesEqual_eq isEvaluationError_def num_le_def)
next
  case False
  then show ?thesis using assms ordering_keys_agree [of l r]
    by (simp add: compareValues_def Convex_Cel.compareValues_def valuesEqual_eq)
qed

fun int_holds :: "cmp_op \<Rightarrow> int \<Rightarrow> int \<Rightarrow> bool" where
  "int_holds Eq a b = (a = b)"
| "int_holds Ne a b = (a \<noteq> b)"
| "int_holds Lt a b = (a < b)"
| "int_holds Le a b = (a \<le> b)"
| "int_holds Gt a b = (b < a)"
| "int_holds Ge a b = (b \<le> a)"

lemma compareValues_VTime: "compareValues op (VTime a) (VTime b) = VBool (int_holds op a b)"
  by (cases op)
    (auto simp: compareValues_def isEvaluationError_def valuesEqual.simps ordering_keys_def num_le_def)

subsection \<open>Properties\<close>



text \<open>
  C14. The two duration parsers, written independently of each other, read every text alike, except that a
  unit named like an inherited property is this adapter's evaluation error where it is a \<open>TypeError\<close> of
  the Convex adapter; so this parser never throws, and its result is an error or within int64.
\<close>

theorem duration_parsers_agree:
  "parseGoDuration s = (case parseCelDuration s of Inl _ \<Rightarrow> VError | Inr v \<Rightarrow> v) \<and>
   (parseGoDuration s = VError \<or> (\<exists>n. parseGoDuration s = VDur n \<and> DURATION_MIN \<le> n \<and> n \<le> DURATION_MAX))"
  using parseCelDuration_range [of s]
  by (auto simp: parseGoDuration_eq inInt64_def limits_eq split: sum.splits)

lemma parseRfc3339Timestamp_range:
  "parseRfc3339Timestamp s = VTime n \<Longrightarrow> MIN_TIMESTAMP_NANOS \<le> n \<and> n \<le> MAX_TIMESTAMP_NANOS"
  by (auto simp: parseRfc3339Timestamp_def Let_def split: option.splits if_splits)

lemma last_second:
  "parseRfc3339Timestamp (render_utc 9999 12 31 23 59 59 0) = VTime 253402300799000000000"
  using parse_render [of 9999 12 31 23 59 59 0]
  by (simp add: parseRfc3339Timestamp_eq daysInMonth_def isLeapYear_def make_day_def day_from_year_def month_offset_def)

lemma one_hour: "parseGoDuration (nat_to_string 1 @ js ''h'') = VDur 3600000000000"
  using parseCelDuration_units [of "js ''h''" 3600000000000 False 1]
  by (simp add: parseGoDuration_eq Convex_Time.DURATION_UNITS_def Convex_Time.checkedDuration_def inInt64_def INT64_MIN_def INT64_MAX_def)



end
