(* ===== verification/Chroma_Where.thy ===== *)
theory Chroma_Where
  imports Chroma_Cel
begin

text \<open>
  langchain-chromadb/src/errors.ts and index.ts: the field mapper, the comparisons a ChromaDB \<open>Where\<close>
  filter can express, and the walk that translates a plan into one. A \<open>UnsupportedOperatorError\<close> is a
  refusal the caller can route; a plain \<open>Error\<close> is a malformed plan or mapper.
\<close>

datatype failure =
    UnsupportedOperatorError string    \<comment> \<open>the operator it is about\<close>
  | Error string

abbreviation unsupported :: "string \<Rightarrow> failure + 'a" where
  "unsupported op \<equiv> Inl (UnsupportedOperatorError op)"

subsection \<open>The field mapper\<close>

datatype numeric_type = IntegerType | FloatType

record FieldNameMapperConfig =
  field :: jstring
  required :: "bool option"
  config_numericType :: "numeric_type option"
  config_valueType :: "jstring option"

datatype FieldNameMapperValue = FieldName jstring | FieldConfig FieldNameMapperConfig

datatype FieldMapper =
    FieldRecord "(jstring \<times> FieldNameMapperValue) list"
  | FieldFunction "jstring \<Rightarrow> FieldNameMapperValue option"

record ResolvedField =
  name :: jstring
  numericType :: "numeric_type option"
  valueType :: "jstring option"
  isRequired :: bool

type_synonym FieldResolver = "jstring \<Rightarrow> failure + ResolvedField"

text \<open>
  \<open>fieldNameMapper[key]\<close> also finds what every object inherits: a value with no \<open>field\<close>, so its name is
  missing.
\<close>

definition fieldResolver :: "FieldMapper \<Rightarrow> FieldResolver" where
  "fieldResolver mapper key =
     (let mapped = (case mapper of
            FieldFunction f \<Rightarrow> f key
          | FieldRecord entries \<Rightarrow>
              (case map_of entries key of
                 Some v \<Rightarrow> Some v
               | None \<Rightarrow> if key \<in> set object_prototype_names then Some (FieldName []) else None));
          f = (case mapped of
            Some (FieldName n) \<Rightarrow> \<lparr>name = n, numericType = None, valueType = None, isRequired = False\<rparr>
          | Some (FieldConfig c) \<Rightarrow>
              \<lparr>name = field c, numericType = config_numericType c, valueType = config_valueType c,
               isRequired = (case required c of Some b \<Rightarrow> b | None \<Rightarrow> False)\<rparr>
          | None \<Rightarrow> \<lparr>name = key, numericType = None, valueType = None, isRequired = False\<rparr>)
      in if name f = [] then Inl (Error ''Field name is required'')
         else if valueType f \<noteq> None \<and> valueType f \<noteq> Some (js ''boolean'')
         then Inl (Error ''Unknown valueType'')
         else if valueType f \<noteq> None \<and> numericType f \<noteq> None
         then Inl (Error ''cannot declare both valueType and numericType'')
         else Inr f)"

subsection \<open>Literal operands\<close>

definition isChromaLiteral :: "jsval \<Rightarrow> bool" where
  "isChromaLiteral val \<longleftrightarrow>
     (case val of VStr _ \<Rightarrow> True | VBool _ \<Rightarrow> True | VNum x \<Rightarrow> is_finite x | _ \<Rightarrow> False)"

definition requireLiteral :: "jsval \<Rightarrow> string \<Rightarrow> failure + jsval" where
  "requireLiteral val op = (if \<not> isChromaLiteral val then unsupported op else Inr val)"

definition requireNumber :: "jsval \<Rightarrow> string \<Rightarrow> failure + jsval" where
  "requireNumber val op =
     (case val of VNum x \<Rightarrow> if is_finite x then Inr val else unsupported op | _ \<Rightarrow> unsupported op)"

definition requireLiteralList :: "jsval \<Rightarrow> string \<Rightarrow> failure + jsval" where
  "requireLiteralList val op =
     (case val of
        VArr vs \<Rightarrow>
          if vs = [] then unsupported op
          else if \<not> list_all isChromaLiteral vs then unsupported op else Inr val
      | _ \<Rightarrow> unsupported op)"

subsection \<open>The comparisons Chroma can express\<close>

datatype chroma_op = C_eq | C_ne | C_lt | C_lte | C_gt | C_gte | C_in | C_nin

text \<open>
  A \<open>Where\<close> clause is an object of one property; the \<open>$and\<close>/\<open>$or\<close> of clauses and the comparison of one
  metadata key are its three forms.
\<close>

datatype Where =
    Clause jstring chroma_op jsval
  | WAnd "Where list"
  | WOr "Where list"

record Comparison =
  chroma :: chroma_op
  literal :: "jsval \<Rightarrow> string \<Rightarrow> failure + jsval"
  negated :: "string option"
  mirrored :: "string option"
  matchesMissingKey :: bool
  ordered :: bool
  negationOnly :: bool

definition comparison_row ::
  "chroma_op \<Rightarrow> (jsval \<Rightarrow> string \<Rightarrow> failure + jsval) \<Rightarrow> string option \<Rightarrow> string option \<Rightarrow> Comparison" where
  "comparison_row c lit neg mir =
     \<lparr>chroma = c, literal = lit, negated = neg, mirrored = mir,
      matchesMissingKey = False, ordered = False, negationOnly = False\<rparr>"

definition COMPARISONS :: "(string \<times> Comparison) list" where
  "COMPARISONS =
     [(''eq'', comparison_row C_eq requireLiteral (Some ''ne'') (Some ''eq'')),
      (''ne'', (comparison_row C_ne requireLiteral (Some ''eq'') (Some ''ne''))\<lparr>matchesMissingKey := True\<rparr>),
      (''lt'', (comparison_row C_lt requireNumber (Some ''ge'') (Some ''gt''))\<lparr>ordered := True\<rparr>),
      (''le'', (comparison_row C_lte requireNumber (Some ''gt'') (Some ''ge''))\<lparr>ordered := True\<rparr>),
      (''gt'', (comparison_row C_gt requireNumber (Some ''le'') (Some ''lt''))\<lparr>ordered := True\<rparr>),
      (''ge'', (comparison_row C_gte requireNumber (Some ''lt'') (Some ''le''))\<lparr>ordered := True\<rparr>),
      (''in'', comparison_row C_in requireLiteralList (Some ''nin'') None),
      (''nin'', (comparison_row C_nin requireLiteralList None None)
         \<lparr>matchesMissingKey := True, negationOnly := True\<rparr>)]"

definition isPlanComparison :: "string \<Rightarrow> bool" where
  "isPlanComparison op \<longleftrightarrow>
     (case map_of COMPARISONS op of Some c \<Rightarrow> \<not> negationOnly c | None \<Rightarrow> False)"

text \<open>\<open>typeof value\<close> of a literal, and the partition by it: groups keep their first-appearance order.\<close>

datatype scalar_type = StringType | NumberType | BooleanType

definition typeof :: "jsval \<Rightarrow> scalar_type" where
  "typeof val = (case val of VStr _ \<Rightarrow> StringType | VNum _ \<Rightarrow> NumberType | _ \<Rightarrow> BooleanType)"

fun insert_group :: "scalar_type \<Rightarrow> jsval \<Rightarrow> (scalar_type \<times> jsval list) list \<Rightarrow> (scalar_type \<times> jsval list) list" where
  "insert_group t v [] = [(t, [v])]"
| "insert_group t v ((t', members) # groups) =
     (if t = t' then (t', members @ [v]) # groups else (t', members) # insert_group t v groups)"

definition splitByType :: "jsval list \<Rightarrow> jsval list list" where
  "splitByType vals = map snd (foldl (\<lambda>groups v. insert_group (typeof v) v groups) [] vals)"

definition emit :: "jstring \<Rightarrow> string \<Rightarrow> jsval \<Rightarrow> failure + Where" where
  "emit fieldName op val =
     (case map_of COMPARISONS op of
        None \<Rightarrow> Inl (Error ''TypeError'')
      | Some c \<Rightarrow>
          bindE (literal c val op) (\<lambda>validated.
            case validated of
              VArr vs \<Rightarrow>
                let groups = splitByType vs
                in if length groups > 1 then
                     let clauses = map (\<lambda>members. Clause fieldName (chroma c) (VArr members)) groups
                     in Inr (if op = ''in'' then WOr clauses else WAnd clauses)
                   else Inr (Clause fieldName (chroma c) validated)
            | _ \<Rightarrow> Inr (Clause fieldName (chroma c) validated)))"

definition negationOf :: "string \<Rightarrow> failure + string" where
  "negationOf op =
     (case Option.bind (map_of COMPARISONS op) negated of None \<Rightarrow> unsupported op | Some n \<Rightarrow> Inr n)"

definition mirrorOf :: "string \<Rightarrow> failure + string" where
  "mirrorOf op =
     (if op = ''in'' then unsupported op
      else case Option.bind (map_of COMPARISONS op) mirrored of None \<Rightarrow> unsupported op | Some m \<Rightarrow> Inr m)"

text \<open>\<open>!value\<close> of a boolean.\<close>

fun js_not :: "jsval \<Rightarrow> jsval" where
  "js_not (VBool b) = VBool (\<not> b)"
| "js_not v = v"

text \<open>Its second argument has passed \<open>isChromaLiteral\<close>.\<close>

definition inequalityWithoutNe :: "ResolvedField \<Rightarrow> jsval \<Rightarrow> Where option" where
  "inequalityWithoutNe f val =
     (let key = name f
      in if valueType f = Some (js ''boolean'') \<and> typeof val = BooleanType then
           Some (Clause key C_eq (js_not val))
         else if numericType f = Some IntegerType then
           (case val of
              VNum x \<Rightarrow>
                if is_integer x then Some (WOr [Clause key C_lt val, Clause key C_gt val]) else None
            | _ \<Rightarrow> Some (WOr [Clause key C_lt (VInt 0), Clause key C_gte (VInt 0)]))
         else None)"

definition requirePresenceFor :: "ResolvedField \<Rightarrow> string \<Rightarrow> failure + unit" where
  "requirePresenceFor f op =
     (if \<not> isRequired f \<and> (case map_of COMPARISONS op of Some c \<Rightarrow> matchesMissingKey c | None \<Rightarrow> False)
      then unsupported op else Inr ())"

subsection \<open>The walk\<close>

definition compare :: "ResolvedField \<Rightarrow> string \<Rightarrow> jsval \<Rightarrow> failure + Where" where
  "compare f op val =
     (case map_of COMPARISONS op of
        None \<Rightarrow> unsupported op
      | Some comparison \<Rightarrow>
          (case (if op = ''ne'' \<and> isChromaLiteral val then inequalityWithoutNe f val else None) of
             Some lowered \<Rightarrow> Inr lowered
           | None \<Rightarrow>
               bindE (requirePresenceFor f op) (\<lambda>_.
                 if ordered comparison \<and> (case val of VNum x \<Rightarrow> \<not> is_integer x | _ \<Rightarrow> False) \<and>
                    numericType f \<noteq> Some FloatType
                 then unsupported op
                 else emit (name f) op val)))"

datatype KeyOrLiteral = Key jstring | Lit jsval

definition binaryOperands :: "string \<Rightarrow> operand list \<Rightarrow> failure + (jstring \<times> bool \<times> jsval)" where
  "binaryOperands op args =
     (if length args \<noteq> 2 then
        if isPlanComparison op then Inl (Error ''Expected exactly two operands'') else unsupported op
      else bindE
        (mapE (\<lambda>operand. case operand of
             Variable v \<Rightarrow> Inr (Key v)
           | Value v \<Rightarrow> Inr (Lit v)
           | Expression inner _ \<Rightarrow> unsupported (if isPlanComparison op then inner else op)
           | Malformed \<Rightarrow> unsupported (if isPlanComparison op then ''undefined'' else op)) args)
        (\<lambda>sides. case sides of
             [Key v, Lit w] \<Rightarrow> Inr (v, False, w)
           | [Lit w, Key v] \<Rightarrow> Inr (v, True, w)
           | _ \<Rightarrow> unsupported op))"

definition mapComparison :: "string \<Rightarrow> operand list \<Rightarrow> FieldResolver \<Rightarrow> bool \<Rightarrow> failure + Where" where
  "mapComparison planOperator args resolveField negate =
     bindE (if negate then bindE (negationOf planOperator) (\<lambda>_. Inr ()) else Inr ()) (\<lambda>_.
     bindE (binaryOperands planOperator args) (\<lambda>(var, literalFirst, val).
     bindE (if literalFirst then mirrorOf planOperator else Inr planOperator) (\<lambda>oriented.
     bindE (if negate then negationOf oriented else Inr oriented) (\<lambda>op.
     bindE (resolveField var) (\<lambda>f. compare f op val)))))"

definition mapBooleanVariable :: "jstring \<Rightarrow> FieldResolver \<Rightarrow> bool \<Rightarrow> failure + Where" where
  "mapBooleanVariable var resolveField negate =
     bindE (resolveField var) (\<lambda>f. compare f (if negate then ''ne'' else ''eq'') (VBool True))"

fun mapOperand :: "operand \<Rightarrow> FieldResolver \<Rightarrow> bool \<Rightarrow> failure + Where" where
  "mapOperand (Variable v) resolveField negate = mapBooleanVariable v resolveField negate"
| "mapOperand (Expression op args) resolveField negate =
     (if op = ''and'' \<or> op = ''or'' then
        if length args < 2 then Inl (Error ''Expected at least 2 operands'')
        else bindE (mapE (\<lambda>child. mapOperand child resolveField negate) args) (\<lambda>children.
          Inr (if (op = ''and'') \<noteq> negate then WAnd children else WOr children))
      else if op = ''not'' then
        (case args of
           [child] \<Rightarrow> mapOperand child resolveField (\<not> negate)
         | _ \<Rightarrow> Inl (Error ''Expected exactly one operand''))
      else mapComparison op args resolveField negate)"
| "mapOperand _ resolveField negate = Inl (Error ''Query plan did not contain an expression'')"

text \<open>The filter for an operand, \<open>None\<close> when Chroma cannot express it.\<close>

definition tryPushdown :: "operand \<Rightarrow> FieldResolver \<Rightarrow> failure + Where option" where
  "tryPushdown operand resolveField =
     (case mapOperand operand resolveField False of
        Inr w \<Rightarrow> Inr (Some w)
      | Inl (UnsupportedOperatorError op) \<Rightarrow> Inr None
      | Inl e \<Rightarrow> Inl e)"

end
