(* ===== verification/Chroma_PostFilter.thy ===== *)
theory Chroma_PostFilter
  imports Chroma_Where Convex_Regex
begin

text \<open>
  langchain-chromadb/src/postFilter.ts: the compiler from a plan to a predicate over one record's
  metadata. Compiling is where every refusal happens (\<open>failure + Compiled\<close>); a compiled operand carries
  its static type and a function of the environment. That function can still throw in the model exactly
  where the code can, at \<open>BigInt(value)\<close> in \<open>string()\<close>: \<open>Inl\<close> is that \<open>RangeError\<close>.

  The compilers take operands and a context. Each operator's compiler is a definition of its own, so
  the operand it receives is a \<open>node\<close>: the plan operand together with its own compilation and the nodes
  of its operands (a lambda's body, a map literal's values). \<open>nodeOf\<close> builds the nodes by recursion on
  the plan, and \<open>compile\<close> is the compilation of the plan's node.
\<close>

subsection \<open>Static types and the compiled form\<close>

datatype StaticType = TyInt | TyDouble | TyAmbiguous | TyAttribute | TyTimestamp | TyDuration | TyOther | TyUnknown

type_synonym metadata = "jstring \<Rightarrow> jsval option"

record PostFilterFields =
  isMapped :: "jstring \<Rightarrow> bool"
  metadataKey :: "jstring \<Rightarrow> failure + jstring"
  isBoolean :: "jstring \<Rightarrow> failure + bool"

record Env =
  metadata :: metadata
  bindings :: "jstring \<Rightarrow> jsval option"

record Compiled =
  ctype :: StaticType
  run :: "Env \<Rightarrow> failure + jsval"

text \<open>\<open>clock\<close> is \<open>Date.now()\<close> when the plan is translated, in milliseconds.\<close>

record Context =
  mappedFields :: PostFilterFields
  bindingTypes :: "jstring \<Rightarrow> StaticType option"
  parent :: string
  clock :: int

datatype node =
  Node (nodeOperand: operand) (compileNode: "Context \<Rightarrow> failure + Compiled") (operandNodes: "node list")

type_synonym Compiler = "node list \<Rightarrow> Context \<Rightarrow> failure + Compiled"

definition compiled_as :: "StaticType \<Rightarrow> (Env \<Rightarrow> failure + jsval) \<Rightarrow> failure + Compiled" where
  "compiled_as t f = Inr \<lparr>ctype = t, run = f\<rparr>"

definition const_compiled :: "StaticType \<Rightarrow> jsval \<Rightarrow> Compiled" where
  "const_compiled t val = \<lparr>ctype = t, run = (\<lambda>_. Inr val)\<rparr>"

subsection \<open>Leaves\<close>

fun containsNull :: "jsval \<Rightarrow> bool" where
  "containsNull VNull = True"
| "containsNull (VArr vs) = list_ex containsNull vs"
| "containsNull (VObj kvs) = list_ex (\<lambda>(k, v). containsNull v) kvs"
| "containsNull _ = False"

definition compileValue :: "jsval \<Rightarrow> Context \<Rightarrow> failure + Compiled" where
  "compileValue val ctx =
     (if containsNull val then unsupported (parent ctx)
      else case val of
        VNum x \<Rightarrow> Inr (const_compiled (if is_integer x then TyAmbiguous else TyDouble) val)
      | _ \<Rightarrow> Inr (const_compiled TyOther val))"

definition readMetadata :: "metadata \<Rightarrow> jstring \<Rightarrow> jsval" where
  "readMetadata m key =
     (case m key of
        None \<Rightarrow> VError
      | Some val \<Rightarrow>
          (case val of
             VStr _ \<Rightarrow> val
           | VBool _ \<Rightarrow> val
           | VNum x \<Rightarrow> if is_finite x then val else VError
           | _ \<Rightarrow> VError))"

definition root_name :: "jstring \<Rightarrow> jstring" where
  "root_name var = takeWhile (\<lambda>c. c \<noteq> dot) var"

definition path_after_root :: "jstring \<Rightarrow> jstring" where
  "path_after_root var = drop 1 (dropWhile (\<lambda>c. c \<noteq> dot) var)"

text \<open>A name the context binds is bound in the environment; anything else would read \<open>undefined\<close>.\<close>

definition read_binding :: "jstring \<Rightarrow> Env \<Rightarrow> failure + jsval" where
  "read_binding var env = (case bindings env var of Some v \<Rightarrow> Inr v | None \<Rightarrow> Inl (Error ''undefined''))"

definition compileVariable :: "jstring \<Rightarrow> Context \<Rightarrow> failure + Compiled" where
  "compileVariable var ctx =
     (let root = root_name var
      in case bindingTypes ctx root of
           Some bound \<Rightarrow>
             if dot \<notin> set var then compiled_as bound (read_binding var)
             else compiled_as TyUnknown (\<lambda>env.
               bindE (read_binding root env) (\<lambda>v. Inr (getNestedValue v (path_after_root var))))
         | None \<Rightarrow>
             if \<not> isMapped (mappedFields ctx) var then unsupported (parent ctx)
             else bindE (metadataKey (mappedFields ctx) var) (\<lambda>key.
                  bindE (isBoolean (mappedFields ctx) var) (\<lambda>boolean.
                    compiled_as (if boolean then TyOther else TyAttribute)
                      (\<lambda>env. Inr (readMetadata (metadata env) key)))))"

subsection \<open>Operand helpers\<close>

definition exactly :: "node list \<Rightarrow> nat \<Rightarrow> failure + node list" where
  "exactly nodes count =
     (if length nodes \<noteq> count then
        Inl (Error (if count = 1 then ''Expected exactly one operand''
                    else if count = 2 then ''Expected exactly two operands''
                    else ''Expected exactly three operands''))
      else Inr nodes)"

definition compileAll :: "node list \<Rightarrow> nat \<Rightarrow> Context \<Rightarrow> failure + Compiled list" where
  "compileAll nodes count ctx =
     bindE (exactly nodes count) (\<lambda>nodes. mapE (\<lambda>node. compileNode node ctx) nodes)"

text \<open>\<open>None\<close> is the evaluation error, at the first operand that gives it.\<close>

fun runAll :: "Compiled list \<Rightarrow> Env \<Rightarrow> failure + jsval list option" where
  "runAll [] env = Inr (Some [])"
| "runAll (operand # rest) env =
     bindE (run operand env) (\<lambda>v.
       if isEvaluationError v then Inr None
       else bindE (runAll rest env) (\<lambda>vs. Inr (map_option ((#) v) vs)))"

definition with_values :: "Compiled list \<Rightarrow> (jsval list \<Rightarrow> jsval) \<Rightarrow> Env \<Rightarrow> failure + jsval" where
  "with_values compiled f env =
     bindE (runAll compiled env) (\<lambda>r. Inr (case r of None \<Rightarrow> VError | Some vs \<Rightarrow> f vs))"

definition strict :: "nat \<Rightarrow> StaticType \<Rightarrow> (jsval list \<Rightarrow> jsval) \<Rightarrow> Compiler" where
  "strict count t f nodes ctx =
     bindE (compileAll nodes count ctx) (\<lambda>compiled. compiled_as t (with_values compiled f))"

text \<open>An operand in a boolean position: a list-valued macro is refused there.\<close>

definition is_operator :: "string \<Rightarrow> operand \<Rightarrow> bool" where
  "is_operator op operand = (case operand of Expression op' _ \<Rightarrow> op' = op | _ \<Rightarrow> False)"

definition compileCondition :: "node \<Rightarrow> Context \<Rightarrow> failure + Compiled" where
  "compileCondition node ctx =
     (if is_operator ''filter'' (nodeOperand node) then unsupported ''filter''
      else if is_operator ''map'' (nodeOperand node) then unsupported ''map''
      else compileNode node ctx)"

subsection \<open>Operator families\<close>

fun junction_loop :: "bool \<Rightarrow> bool \<Rightarrow> Compiled list \<Rightarrow> Env \<Rightarrow> failure + jsval" where
  "junction_loop decisive sawError [] env = Inr (if sawError then VError else VBool (\<not> decisive))"
| "junction_loop decisive sawError (operand # rest) env =
     bindE (run operand env) (\<lambda>v.
       let val = asBoolean v
       in if val = VBool decisive then Inr (VBool decisive)
          else junction_loop decisive (sawError \<or> isEvaluationError val) rest env)"

definition junction :: "bool \<Rightarrow> Compiler" where
  "junction decisive nodes ctx =
     (if length nodes < 2 then Inl (Error ''Expected at least 2 operands'')
      else bindE (mapE (\<lambda>node. compileCondition node ctx) nodes) (\<lambda>compiled.
        compiled_as TyOther (junction_loop decisive False compiled)))"

definition negation :: Compiler where
  "negation nodes ctx =
     bindE (exactly nodes 1) (\<lambda>nodes.
     bindE (compileCondition (hd nodes) ctx) (\<lambda>compiled.
       compiled_as TyOther (\<lambda>env.
         bindE (run compiled env) (\<lambda>v. Inr (case asBoolean v of VBool b \<Rightarrow> VBool (\<not> b) | e \<Rightarrow> e)))))"

text \<open>A function of two operand values.\<close>

definition binary :: "(jsval \<Rightarrow> jsval \<Rightarrow> jsval) \<Rightarrow> jsval list \<Rightarrow> jsval" where
  "binary f vs = f (vs ! 0) (vs ! 1)"

definition comparison :: "cmp_op \<Rightarrow> Compiler" where
  "comparison op = strict 2 TyOther (binary (compareValues op))"

definition stringTest :: "(jstring \<Rightarrow> jstring \<Rightarrow> bool) \<Rightarrow> Compiler" where
  "stringTest test = strict 2 TyOther (binary (\<lambda>receiver argument.
     case (receiver, argument) of (VStr s, VStr a) \<Rightarrow> VBool (test s a) | _ \<Rightarrow> VError))"

definition membership :: Compiler where
  "membership = strict 2 TyOther (binary (\<lambda>needle haystack.
     case haystack of
       VArr xs \<Rightarrow> VBool (list_ex (\<lambda>v. valuesEqual v needle) xs)
     | VObj kvs \<Rightarrow> VBool (case needle of VStr k \<Rightarrow> map_of kvs k \<noteq> None | _ \<Rightarrow> False)
     | _ \<Rightarrow> VError))"

definition hasIntersection :: Compiler where
  "hasIntersection = strict 2 TyOther (binary (\<lambda>left right.
     case (left, right) of
       (VArr xs, VArr ys) \<Rightarrow> VBool (list_ex (\<lambda>l. list_ex (\<lambda>r. valuesEqual l r) ys) xs)
     | _ \<Rightarrow> VError))"

definition upperAscii :: Compiler where
  "upperAscii = strict 1 TyOther (\<lambda>vs. case vs ! 0 of VStr s \<Rightarrow> VStr (upper_ascii s) | _ \<Rightarrow> VError)"

text \<open>regex.ts is the same text as convex's.\<close>

definition safe_pattern :: "operand \<Rightarrow> SafeRegexPattern option" where
  "safe_pattern pattern =
     (case pattern of
        Value v \<Rightarrow> (case v of VStr p \<Rightarrow> parseSafeRegexPattern p | _ \<Rightarrow> None)
      | _ \<Rightarrow> None)"

definition matches :: Compiler where
  "matches nodes ctx =
     bindE (exactly nodes 2) (\<lambda>nodes.
       case safe_pattern (nodeOperand (nodes ! 1)) of
         None \<Rightarrow> unsupported ''matches''
       | Some safe \<Rightarrow>
           bindE (compileNode (nodes ! 0) ctx) (\<lambda>compiled.
             compiled_as TyOther (\<lambda>env.
               bindE (run compiled env) (\<lambda>v.
                 Inr (case v of VStr s \<Rightarrow> VBool (matchesSafeRegexPattern s safe) | _ \<Rightarrow> VError)))))"

subsection \<open>Arithmetic\<close>

datatype Mode = IntMode | DynamicMode | ErrorMode

definition operator_name :: "arithmeticOperator \<Rightarrow> string" where
  "operator_name op = (case op of Add \<Rightarrow> ''add'' | Sub \<Rightarrow> ''sub'' | Mult \<Rightarrow> ''mult'' | Div \<Rightarrow> ''div'' | Mod \<Rightarrow> ''mod'')"

definition intLike :: "StaticType \<Rightarrow> bool" where
  "intLike t \<longleftrightarrow> t = TyInt \<or> t = TyAmbiguous"

definition arithmeticMode :: "arithmeticOperator \<Rightarrow> StaticType \<Rightarrow> StaticType \<Rightarrow> failure + Mode" where
  "arithmeticMode op left right =
     (let has = (\<lambda>t. left = t \<or> right = t)
      in if has TyUnknown \<or> has TyTimestamp then unsupported (operator_name op)
         else if op = Mod then Inr (if intLike left \<and> intLike right then IntMode else ErrorMode)
         else if has TyInt then
           (if intLike left \<and> intLike right then Inr IntMode
            else if has TyDouble then unsupported (operator_name op)
            else Inr ErrorMode)
         else if has TyDouble then Inr DynamicMode
         else if has TyAmbiguous \<and> has TyAttribute then unsupported (operator_name op)
         else if left = TyAmbiguous \<and> right = TyAmbiguous then unsupported (operator_name op)
         else Inr DynamicMode)"

definition temporal :: "StaticType \<Rightarrow> bool" where
  "temporal t \<longleftrightarrow> t = TyTimestamp \<or> t = TyDuration"

definition temporalType ::
  "arithmeticOperator \<Rightarrow> StaticType \<Rightarrow> StaticType \<Rightarrow> failure + StaticType option" where
  "temporalType op left right =
     (if \<not> temporal left \<and> \<not> temporal right then Inr None
      else if op = Add \<and> ((left, right) = (TyTimestamp, TyDuration) \<or> (left, right) = (TyDuration, TyTimestamp))
      then Inr (Some TyTimestamp)
      else if op = Add \<and> (left, right) = (TyDuration, TyDuration) then Inr (Some TyDuration)
      else if op = Sub \<and> (left, right) = (TyTimestamp, TyDuration) then Inr (Some TyTimestamp)
      else if op = Sub \<and> ((left, right) = (TyTimestamp, TyTimestamp) \<or> (left, right) = (TyDuration, TyDuration))
      then Inr (Some TyDuration)
      else unsupported (operator_name op))"

fun readsMetadata :: "operand \<Rightarrow> Context \<Rightarrow> bool" where
  "readsMetadata (Variable var) ctx = (bindingTypes ctx (root_name var) = None)"
| "readsMetadata (Expression op args) ctx = list_ex (\<lambda>operand. readsMetadata operand ctx) args"
| "readsMetadata _ ctx = False"

definition dynamicArithmetic :: "arithmeticOperator \<Rightarrow> jsval \<Rightarrow> jsval \<Rightarrow> jsval" where
  "dynamicArithmetic op left right =
     (case (left, right) of
        (VNum a, VNum b) \<Rightarrow>
          (case op of
             Add \<Rightarrow> VNum (num_add a b)
           | Sub \<Rightarrow> VNum (num_sub a b)
           | Mult \<Rightarrow> VNum (num_mul a b)
           | Div \<Rightarrow> VNum (num_div a b)
           | Mod \<Rightarrow> VError)
      | (VStr a, VStr b) \<Rightarrow> if op = Add then VStr (a @ b) else VError
      | (VArr a, VArr b) \<Rightarrow> if op = Add then VArr (a @ b) else VError
      | _ \<Rightarrow> VError)"

definition arithmetic_type :: "Mode \<Rightarrow> StaticType \<Rightarrow> StaticType \<Rightarrow> StaticType" where
  "arithmetic_type mode left right =
     (if mode = IntMode then TyInt
      else if mode = ErrorMode then TyOther
      else if left = TyDouble \<or> right = TyDouble then TyDouble
      else if left = TyAttribute \<or> right = TyAttribute then TyAttribute
      else TyOther)"

definition arithmetic_value :: "arithmeticOperator \<Rightarrow> Mode \<Rightarrow> jsval \<Rightarrow> jsval \<Rightarrow> jsval" where
  "arithmetic_value op mode a b =
     (case mode of
        ErrorMode \<Rightarrow> VError
      | IntMode \<Rightarrow> intArithmetic op a b
      | DynamicMode \<Rightarrow> dynamicArithmetic op a b)"

definition arithmetic :: "arithmeticOperator \<Rightarrow> Compiler" where
  "arithmetic op nodes ctx =
     bindE (compileAll nodes 2 ctx) (\<lambda>compiled.
       let left = ctype (compiled ! 0); right = ctype (compiled ! 1)
       in bindE (temporalType op left right) (\<lambda>temporal_result.
            case temporal_result of
              Some t \<Rightarrow> compiled_as t (with_values compiled (binary (temporalArithmetic op)))
            | None \<Rightarrow>
                bindE (arithmeticMode op left right) (\<lambda>mode.
                  if op = Div \<and> mode = DynamicMode \<and> readsMetadata (nodeOperand (nodes ! 1)) ctx
                  then unsupported ''div''
                  else compiled_as (arithmetic_type mode left right)
                         (with_values compiled (binary (arithmetic_value op mode))))))"

subsection \<open>Collections and lambdas\<close>

definition bare :: "operand \<Rightarrow> bool" where
  "bare operand = (case operand of Variable var \<Rightarrow> dot \<notin> set var | _ \<Rightarrow> False)"

definition variable_of :: "operand \<Rightarrow> jstring" where
  "variable_of operand = (case operand of Variable var \<Rightarrow> var | _ \<Rightarrow> [])"

definition lambdaComponents :: "node \<Rightarrow> failure + (node \<times> jstring)" where
  "lambdaComponents lambda =
     (if \<not> is_operator ''lambda'' (nodeOperand lambda) then Inl (Error ''Expected a lambda operand'')
      else if length (operandNodes lambda) = 3 then unsupported ''lambda''
      else bindE (exactly (operandNodes lambda) 2) (\<lambda>nodes.
        let first = nodes ! 0; second = nodes ! 1
        in if bare (nodeOperand second) then Inr (first, variable_of (nodeOperand second))
           else if bare (nodeOperand first) then Inr (second, variable_of (nodeOperand first))
           else Inl (Error ''Lambda requires a variable operand'')))"

fun isNumber :: "jsval \<Rightarrow> bool" where
  "isNumber (VNum _) = True"
| "isNumber _ = False"

fun isIntegerNumber :: "jsval \<Rightarrow> bool" where
  "isIntegerNumber (VNum x) = is_integer x"
| "isIntegerNumber _ = False"

definition elementType :: "operand \<Rightarrow> StaticType" where
  "elementType collection =
     (case collection of
        Value (VArr vs) \<Rightarrow>
          let numbers = filter isNumber vs
          in if numbers = [] then TyOther
             else if length numbers \<noteq> length vs then TyUnknown
             else if list_all (\<lambda>n. \<not> isIntegerNumber n) numbers then TyDouble
             else TyAmbiguous
      | _ \<Rightarrow> TyUnknown)"

datatype macro = MExists | MExistsOne | MAll | MFilter | MMap

fun filter_loop :: "(jsval \<Rightarrow> failure + jsval) \<Rightarrow> jsval list \<Rightarrow> jsval list \<Rightarrow> failure + jsval" where
  "filter_loop each out [] = Inr (VArr out)"
| "filter_loop each out (item # items) =
     bindE (each item) (\<lambda>v.
       case asBoolean v of
         VBool keep \<Rightarrow> filter_loop each (if keep then out @ [item] else out) items
       | _ \<Rightarrow> Inr VError)"

fun map_loop :: "(jsval \<Rightarrow> failure + jsval) \<Rightarrow> jsval list \<Rightarrow> jsval list \<Rightarrow> failure + jsval" where
  "map_loop each out [] = Inr (VArr out)"
| "map_loop each out (item # items) =
     bindE (each item) (\<lambda>v.
       if isEvaluationError v then Inr VError else map_loop each (out @ [v]) items)"

fun quantifier_loop :: "macro \<Rightarrow> nat \<Rightarrow> bool \<Rightarrow> (jsval \<Rightarrow> failure + jsval) \<Rightarrow> jsval list \<Rightarrow> failure + jsval" where
  "quantifier_loop m trueCount sawError each [] =
     Inr (if sawError then VError
          else if m = MExists then VBool False
          else if m = MExistsOne then VBool (trueCount = 1)
          else VBool True)"
| "quantifier_loop m trueCount sawError each (item # items) =
     bindE (each item) (\<lambda>v.
       let val = asBoolean v
       in if val = VBool True then
            (if m = MExists then Inr (VBool True)
             else quantifier_loop m (trueCount + 1) sawError each items)
          else if val = VBool False \<and> m = MAll then Inr (VBool False)
          else quantifier_loop m trueCount (sawError \<or> isEvaluationError val) each items)"

definition macro_loop :: "macro \<Rightarrow> (jsval \<Rightarrow> failure + jsval) \<Rightarrow> jsval list \<Rightarrow> failure + jsval" where
  "macro_loop m each items =
     (case m of
        MFilter \<Rightarrow> filter_loop each [] items
      | MMap \<Rightarrow> map_loop each [] items
      | _ \<Rightarrow> quantifier_loop m 0 False each items)"

text \<open>A CEL macro over a map ranges over its keys.\<close>

definition macro_items :: "jsval \<Rightarrow> jsval list option" where
  "macro_items iterated =
     (case iterated of
        VArr xs \<Rightarrow> Some xs
      | VObj kvs \<Rightarrow> Some (map (\<lambda>(k, v). VStr k) kvs)
      | _ \<Rightarrow> None)"

definition macro :: "macro \<Rightarrow> Compiler" where
  "macro m nodes ctx =
     bindE (exactly nodes 2) (\<lambda>nodes.
     bindE (compileNode (nodes ! 0) ctx) (\<lambda>collection.
     bindE (lambdaComponents (nodes ! 1)) (\<lambda>(body, var).
       let bodyCtx = ctx\<lparr>bindingTypes := (bindingTypes ctx)(var \<mapsto> elementType (nodeOperand (nodes ! 0)))\<rparr>
       in bindE (if m = MMap then compileNode body bodyCtx else compileCondition body bodyCtx) (\<lambda>compiledBody.
            compiled_as TyOther (\<lambda>env.
              bindE (run collection env) (\<lambda>iterated.
                case macro_items iterated of
                  None \<Rightarrow> Inr VError
                | Some items \<Rightarrow>
                    macro_loop m
                      (\<lambda>element. run compiledBody (env\<lparr>bindings := (bindings env)(var \<mapsto> element)\<rparr>)) items))))))"

subsection \<open>Conversions\<close>

definition conversion :: "string \<Rightarrow> StaticType \<Rightarrow> StaticType list \<Rightarrow> (jsval \<Rightarrow> jsval) \<Rightarrow> Compiler" where
  "conversion op t refused convert nodes ctx =
     bindE (compileAll nodes 1 ctx) (\<lambda>compiled.
       if ctype (hd compiled) \<in> set refused then unsupported op
       else compiled_as t (\<lambda>env.
         bindE (run (hd compiled) env) (\<lambda>v. Inr (if isEvaluationError v then v else convert v))))"

definition on_string :: "(jstring \<Rightarrow> jsval) \<Rightarrow> jsval \<Rightarrow> jsval" where
  "on_string f val = (case val of VStr s \<Rightarrow> f s | _ \<Rightarrow> VError)"

text \<open>\<open>BigInt(value)\<close> throws on a number that is not an integer.\<close>

definition string_value :: "bool \<Rightarrow> jsval \<Rightarrow> failure + jsval" where
  "string_value isInt val =
     (case val of
        VBig n \<Rightarrow> if isInt then Inr (VStr (int_to_string n)) else Inr (convertToString val)
      | VNum x \<Rightarrow>
          if isInt then
            (if is_integer x then Inr (VStr (int_to_string (num_trunc x))) else Inl (Error ''RangeError''))
          else Inr (convertToString val)
      | _ \<Rightarrow> Inr (convertToString val))"

definition string_conversion :: Compiler where
  "string_conversion nodes ctx =
     bindE (compileAll nodes 1 ctx) (\<lambda>compiled.
       let t = ctype (hd compiled)
       in if t = TyTimestamp \<or> t = TyDuration then unsupported ''string''
          else if t = TyAmbiguous \<or> t = TyUnknown then unsupported ''string''
          else if t \<noteq> TyInt \<and> t \<noteq> TyOther \<and> readsMetadata (nodeOperand (hd nodes)) ctx
          then unsupported ''string''
          else compiled_as TyOther (\<lambda>env.
            bindE (run (hd compiled) env) (string_value (t = TyInt))))"

definition time_since :: Compiler where
  "time_since nodes ctx =
     bindE (compileAll nodes 1 ctx) (\<lambda>compiled.
       let now = clock ctx * 1000000
       in compiled_as TyDuration (\<lambda>env.
            bindE (run (hd compiled) env) (\<lambda>v. Inr (if isEvaluationError v then v else timeSince now v))))"

subsection \<open>Hierarchies, indexing, records\<close>

datatype hierarchy_relation = AncestorOf | DescendentOf | Overlaps

definition hierarchyRelation :: "hierarchy_relation \<Rightarrow> Compiler" where
  "hierarchyRelation op = strict 2 TyOther (binary (\<lambda>left right.
     case (left, right) of
       (VHier l, VHier r) \<Rightarrow>
         VBool (case op of
           AncestorOf \<Rightarrow> isStrictAncestor l r
         | DescendentOf \<Rightarrow> isStrictAncestor r l
         | Overlaps \<Rightarrow> isSegmentPrefix l r \<or> isSegmentPrefix r l)
     | _ \<Rightarrow> VError))"

definition hierarchy :: Compiler where
  "hierarchy nodes ctx =
     (if length nodes < 1 \<or> length nodes > 2 then Inl (Error ''Expected one or two operands for hierarchy'')
      else bindE (mapE (\<lambda>node. compileNode node ctx) nodes) (\<lambda>compiled.
        compiled_as TyOther (\<lambda>env.
          bindE (run (compiled ! 0) env) (\<lambda>path.
            if isEvaluationError path then Inr path
            else case nth_opt compiled 1 of
              None \<Rightarrow> Inr (toHierarchy path None)
            | Some delimiter \<Rightarrow>
                bindE (run delimiter env) (\<lambda>separator.
                  Inr (if isEvaluationError separator then separator
                       else toHierarchy path (Some separator)))))))"

definition indexValue :: "jsval \<Rightarrow> jsval \<Rightarrow> jsval" where
  "indexValue collection index =
     (case collection of
        VArr xs \<Rightarrow>
          (let position = (case index of
                 VBig n \<Rightarrow> Some (num_of_int n)
               | VNum x \<Rightarrow> if is_integer x then Some x else None
               | _ \<Rightarrow> None)
           in case position of
                None \<Rightarrow> VError
              | Some i \<Rightarrow>
                  if num_le (Fin 0) i \<and> num_lt i (Fin (of_nat (length xs))) then xs ! nat (num_trunc i) else VError)
      | VObj kvs \<Rightarrow>
          (case index of VStr k \<Rightarrow> (case map_of kvs k of Some v \<Rightarrow> v | None \<Rightarrow> VError) | _ \<Rightarrow> VError)
      | _ \<Rightarrow> VError)"

definition indexInto :: "Compiled \<Rightarrow> Compiled \<Rightarrow> failure + Compiled" where
  "indexInto collection key = compiled_as TyUnknown (with_values [collection, key] (binary indexValue))"

definition literal_key :: "operand \<Rightarrow> jstring option" where
  "literal_key key = (case key of Value v \<Rightarrow> (case v of VStr k \<Rightarrow> Some k | _ \<Rightarrow> None) | _ \<Rightarrow> None)"

text \<open>The entries in order, with the keys seen so far.\<close>

fun compile_entries :: "jstring list \<Rightarrow> node list \<Rightarrow> Context \<Rightarrow> failure + (jstring \<times> Compiled) list" where
  "compile_entries seen [] ctx = Inr []"
| "compile_entries seen (entry # entries) ctx =
     (if \<not> is_operator ''set-field'' (nodeOperand entry) then unsupported ''struct''
      else bindE (exactly (operandNodes entry) 2) (\<lambda>parts.
        case literal_key (nodeOperand (parts ! 0)) of
          None \<Rightarrow> unsupported ''struct''
        | Some key \<Rightarrow>
            if key \<in> set seen then unsupported ''struct''
            else bindE (compileNode (parts ! 1) (ctx\<lparr>parent := ''set-field''\<rparr>)) (\<lambda>compiled.
                 bindE (compile_entries (seen @ [key]) entries ctx) (\<lambda>rest.
                   Inr ((key, compiled) # rest)))))"

definition from_entries :: "(jstring \<times> jsval) list \<Rightarrow> jsval" where
  "from_entries kvs = VObj (foldl (\<lambda>obj (k, v). add_property k v obj) [] kvs)"

definition compileMapLiteral :: "node list \<Rightarrow> Context \<Rightarrow> failure + Compiled" where
  "compileMapLiteral entries ctx =
     bindE (compile_entries [] entries ctx) (\<lambda>entry_fields.
       compiled_as TyOther
         (with_values (map snd entry_fields) (\<lambda>vs. from_entries (zip (map fst entry_fields) vs))))"

definition index_access :: Compiler where
  "index_access nodes ctx =
     bindE (exactly nodes 2) (\<lambda>nodes.
     bindE (if is_operator ''struct'' (nodeOperand (nodes ! 0))
            then compileMapLiteral (operandNodes (nodes ! 0)) ctx
            else compileNode (nodes ! 0) ctx) (\<lambda>collection.
     bindE (compileNode (nodes ! 1) ctx) (\<lambda>key. indexInto collection key)))"

definition field_name_of :: "operand \<Rightarrow> jstring option" where
  "field_name_of operand =
     (case operand of
        Variable var \<Rightarrow> Some var
      | Value v \<Rightarrow> (case v of VStr f \<Rightarrow> Some f | _ \<Rightarrow> None)
      | _ \<Rightarrow> None)"

definition get_field :: Compiler where
  "get_field nodes ctx =
     bindE (exactly nodes 2) (\<lambda>nodes.
       case field_name_of (nodeOperand (nodes ! 1)) of
         None \<Rightarrow> Inl (Error ''get-field requires a field name'')
       | Some f \<Rightarrow>
           bindE (compileNode (nodes ! 0) ctx) (\<lambda>target.
             compiled_as TyUnknown (\<lambda>env.
               bindE (run target env) (\<lambda>v.
                 Inr (case v of
                        VObj kvs \<Rightarrow> (case map_of kvs f of Some w \<Rightarrow> w | None \<Rightarrow> VError)
                      | _ \<Rightarrow> VError)))))"

definition size_of :: Compiler where
  "size_of = strict 1 TyInt (\<lambda>vs.
     case vs ! 0 of
       VStr s \<Rightarrow> VInt (int (length (array_from s)))
     | VArr xs \<Rightarrow> VInt (int (length xs))
     | VHier h \<Rightarrow> VInt (int (length h))
     | VObj kvs \<Rightarrow> VInt (int (length kvs))
     | _ \<Rightarrow> VError)"

definition list_literal :: Compiler where
  "list_literal nodes ctx =
     bindE (mapE (\<lambda>node. compileNode node ctx) nodes) (\<lambda>compiled. compiled_as TyOther (with_values compiled VArr))"

subsection \<open>Conditionals\<close>

definition joinTypes :: "StaticType \<Rightarrow> StaticType \<Rightarrow> StaticType" where
  "joinTypes a b =
     (if a = b then a
      else let pair = [a, b]
           in if TyAmbiguous \<in> set pair then
                (if TyInt \<in> set pair then TyInt else if TyDouble \<in> set pair then TyDouble else TyUnknown)
              else if list_all (\<lambda>t. t = TyAttribute \<or> t = TyDouble \<or> t = TyOther) pair then TyAttribute
              else TyUnknown)"

definition conditional :: Compiler where
  "conditional nodes ctx =
     bindE (compileAll nodes 3 ctx) (\<lambda>compiled.
       compiled_as (joinTypes (ctype (compiled ! 1)) (ctype (compiled ! 2))) (\<lambda>env.
         bindE (run (compiled ! 0) env) (\<lambda>v.
           case asBoolean v of
             VBool b \<Rightarrow> run (compiled ! (if b then 1 else 2)) env
           | e \<Rightarrow> Inr e)))"

subsection \<open>The roster\<close>

definition OPERATORS :: "(string \<times> Compiler) list" where
  "OPERATORS =
     [(''and'', junction False), (''or'', junction True), (''not'', negation),
      (''eq'', comparison Eq), (''ne'', comparison Ne), (''lt'', comparison Lt), (''le'', comparison Le),
      (''gt'', comparison Gt), (''ge'', comparison Ge), (''in'', membership),
      (''contains'', stringTest js_includes), (''startsWith'', stringTest startsWith),
      (''endsWith'', stringTest endsWith), (''upperAscii'', upperAscii), (''matches'', matches),
      (''hasIntersection'', hasIntersection),
      (''exists'', macro MExists), (''exists_one'', macro MExistsOne), (''all'', macro MAll),
      (''filter'', macro MFilter), (''map'', macro MMap),
      (''add'', arithmetic Add), (''sub'', arithmetic Sub), (''mult'', arithmetic Mult),
      (''div'', arithmetic Div), (''mod'', arithmetic Mod),
      (''list'', list_literal), (''index'', index_access), (''get-field'', get_field), (''size'', size_of),
      (''string'', string_conversion),
      (''double'', conversion ''double'' TyDouble [TyTimestamp, TyDuration, TyUnknown] convertToDouble),
      (''int'', conversion ''int'' TyInt [TyTimestamp, TyDuration, TyUnknown] convertToInt),
      (''timestamp'', conversion ''timestamp'' TyTimestamp [TyInt, TyAmbiguous, TyDuration, TyUnknown]
         (on_string parseRfc3339Timestamp)),
      (''duration'', conversion ''duration'' TyDuration [TyInt, TyAmbiguous, TyTimestamp, TyUnknown]
         (on_string parseGoDuration)),
      (''timeSince'', time_since), (''if'', conditional), (''hierarchy'', hierarchy),
      (''ancestorOf'', hierarchyRelation AncestorOf), (''descendentOf'', hierarchyRelation DescendentOf),
      (''overlaps'', hierarchyRelation Overlaps)]"

text \<open>\<open>compile\<close> of a node whose operands are already nodes.\<close>

definition dispatch :: "string \<Rightarrow> Compiler" where
  "dispatch op nodes ctx =
     (case map_of OPERATORS op of
        None \<Rightarrow> unsupported op
      | Some compiler \<Rightarrow> compiler nodes (ctx\<lparr>parent := op\<rparr>))"

fun nodeOf :: "operand \<Rightarrow> node" where
  "nodeOf (Variable var) = Node (Variable var) (compileVariable var) []"
| "nodeOf (Value v) = Node (Value v) (compileValue v) []"
| "nodeOf (Expression op args) =
     Node (Expression op args) (dispatch op (map nodeOf args)) (map nodeOf args)"
| "nodeOf Malformed = Node Malformed (\<lambda>_. Inl (Error ''Query plan did not contain an expression'')) []"

lemma nodeOperand_nodeOf [simp]: "nodeOperand (nodeOf e) = e"
  by (cases e) simp_all

lemma operandNodes_nodeOf [simp]: "operandNodes (nodeOf e) = map nodeOf (subOperands e)"
  by (cases e) simp_all

definition compile :: "operand \<Rightarrow> Context \<Rightarrow> failure + Compiled" where
  "compile operand ctx = compileNode (nodeOf operand) ctx"

text \<open>
  The predicate over one record; a record stored without metadata is \<open>None\<close>. \<open>Inl\<close> is an exception of the
  predicate itself.
\<close>

type_synonym PostFilter = "metadata option \<Rightarrow> failure + bool"

definition empty_env :: "metadata \<Rightarrow> Env" where
  "empty_env m = \<lparr>metadata = m, bindings = (\<lambda>_. None)\<rparr>"

definition compilePostFilter :: "int \<Rightarrow> operand \<Rightarrow> PostFilterFields \<Rightarrow> failure + PostFilter" where
  "compilePostFilter now condition record_fields =
     bindE (compileCondition (nodeOf condition)
              \<lparr>mappedFields = record_fields, bindingTypes = (\<lambda>_. None), parent = ''eq'', clock = now\<rparr>)
       (\<lambda>compiled. Inr (\<lambda>m.
          bindE (run compiled (empty_env (case m of Some m \<Rightarrow> m | None \<Rightarrow> (\<lambda>_. None))))
            (\<lambda>v. Inr (v = VBool True))))"

end
