(* ===== verification/Chroma_Plan.thy ===== *)
theory Chroma_Plan
  imports Chroma_PostFilter
begin

text \<open>
  langchain-chromadb/src/index.ts, the entry point: routing a plan to a \<open>Where\<close> filter, a post-filter, or
  both.
\<close>

text \<open>\<open>filters: {}\<close> of an unconditional plan is \<open>ResultAllowed\<close>; an absent part is \<open>None\<close>.\<close>

datatype QueryPlanToChromaDBResult =
    ResultAllowed
  | ResultDenied
  | ResultConditional "Where option" "PostFilter option"

definition postFilterFields :: "FieldMapper \<Rightarrow> FieldResolver \<Rightarrow> PostFilterFields" where
  "postFilterFields fieldNameMapper resolveField =
     \<lparr>isMapped = (\<lambda>reference.
        case fieldNameMapper of
          FieldFunction f \<Rightarrow> (case f reference of None \<Rightarrow> False | Some v \<Rightarrow> v \<noteq> FieldName [])
        | FieldRecord entries \<Rightarrow> reference \<in> fst ` set entries),
      metadataKey = (\<lambda>reference. bindE (resolveField reference) (\<lambda>f. Inr (name f))),
      isBoolean = (\<lambda>reference. bindE (resolveField reference) (\<lambda>f. Inr (valueType f = Some (js ''boolean''))))\<rparr>"

text \<open>The conjuncts Chroma can express, and the rest, in order.\<close>

fun split_conjuncts :: "FieldResolver \<Rightarrow> operand list \<Rightarrow> failure + (Where list \<times> operand list)" where
  "split_conjuncts resolveField [] = Inr ([], [])"
| "split_conjuncts resolveField (conjunct # conjuncts) =
     bindE (tryPushdown conjunct resolveField) (\<lambda>r.
     bindE (split_conjuncts resolveField conjuncts) (\<lambda>(pushed, rest).
       Inr (case r of
              None \<Rightarrow> (pushed, conjunct # rest)
            | Some w \<Rightarrow> (w # pushed, rest))))"

definition is_splittable :: "operand \<Rightarrow> bool" where
  "is_splittable condition \<longleftrightarrow>
     is_operator ''and'' condition \<and> length (subOperands condition) \<ge> 2"

definition splitCondition ::
  "int \<Rightarrow> operand \<Rightarrow> FieldMapper \<Rightarrow> FieldResolver \<Rightarrow> failure + QueryPlanToChromaDBResult" where
  "splitCondition now condition mapping resolveField =
     bindE (tryPushdown condition resolveField) (\<lambda>whole.
       case whole of
         Some w \<Rightarrow> Inr (ResultConditional (Some w) None)
       | None \<Rightarrow>
           let record_fields = postFilterFields mapping resolveField
           in if is_splittable condition then
                bindE (split_conjuncts resolveField (subOperands condition)) (\<lambda>(pushed, rest).
                bindE (compilePostFilter now
                         (if length rest = 1 then hd rest else Expression ''and'' rest) record_fields) (\<lambda>postFilter.
                  if pushed = [] then Inr (ResultConditional None (Some postFilter))
                  else Inr (ResultConditional
                         (Some (if length pushed = 1 then hd pushed else WAnd pushed)) (Some postFilter))))
              else bindE (compilePostFilter now condition record_fields) (\<lambda>postFilter.
                Inr (ResultConditional None (Some postFilter))))"

record QueryPlanToChromaDBArgs =
  queryPlan :: plan
  fieldNameMapper :: FieldMapper
  allowPostFilter :: bool

definition queryPlanToChromaDB :: "int \<Rightarrow> QueryPlanToChromaDBArgs \<Rightarrow> failure + QueryPlanToChromaDBResult" where
  "queryPlanToChromaDB now args =
     (case queryPlan args of
        AlwaysAllowed \<Rightarrow> Inr ResultAllowed
      | AlwaysDenied \<Rightarrow> Inr ResultDenied
      | Conditional condition \<Rightarrow>
          let resolveField = fieldResolver (fieldNameMapper args)
          in if \<not> allowPostFilter args then
               bindE (mapOperand condition resolveField False) (\<lambda>w. Inr (ResultConditional (Some w) None))
             else splitCondition now condition (fieldNameMapper args) resolveField
      | UnknownKind \<Rightarrow> Inl (Error ''Invalid query plan.''))"

end
