(* ===== verification/Chroma_Server.thy ===== *)
theory Chroma_Server
  imports Chroma_Plan "HOL-Library.Multiset"
begin

text \<open>
  What a ChromaDB server makes of a \<open>Where\<close> filter, as the locale \<open>chroma_server\<close>: the clauses the adapter
  emits, over records whose metadata are scalars. Inside it, the translation of one comparison is exact:
  the clause selects a record exactly when the CEL comparison of the stored value is true. A reference
  server that evaluates a filter directly interprets the locale.
\<close>

subsection \<open>Records\<close>

text \<open>Chroma metadata values are strings, finite numbers and booleans.\<close>

definition storable :: "metadata \<Rightarrow> bool" where
  "storable m \<longleftrightarrow> (\<forall>k v. m k = Some v \<longrightarrow> isChromaLiteral v)"

definition uniform :: "jsval list \<Rightarrow> bool" where
  "uniform vs \<longleftrightarrow> vs \<noteq> [] \<and> list_all isChromaLiteral vs \<and> (\<exists>t. list_all (\<lambda>v. typeof v = t) vs)"

fun order_holds :: "chroma_op \<Rightarrow> jsnum \<Rightarrow> jsnum \<Rightarrow> bool" where
  "order_holds C_lt a b = num_lt a b"
| "order_holds C_lte a b = num_le a b"
| "order_holds C_gt a b = num_lt b a"
| "order_holds C_gte a b = num_le b a"
| "order_holds _ a b = False"

definition is_order :: "chroma_op \<Rightarrow> bool" where
  "is_order op \<longleftrightarrow> op \<in> {C_lt, C_lte, C_gt, C_gte}"

text \<open>
  The laws. Comparisons are type-exact and match only a record that carries the key, but \<open>$ne\<close> and \<open>$nin\<close>
  are the complements of \<open>$eq\<close> and \<open>$in\<close> and so match a record without it. A threshold is compared exactly
  when it is integral or every number stored under the key is a float (\<open>float_key\<close>); a list's values are
  all of one type.
\<close>

locale chroma_server =
  fixes selects :: "Where \<Rightarrow> metadata \<Rightarrow> bool"
    and float_key :: "jstring \<Rightarrow> bool"
  assumes and_law: "selects (WAnd ws) m \<longleftrightarrow> (\<forall>w \<in> set ws. selects w m)"
    and or_law: "selects (WOr ws) m \<longleftrightarrow> (\<exists>w \<in> set ws. selects w m)"
    and eq_law: "storable m \<Longrightarrow> isChromaLiteral v \<Longrightarrow>
      selects (Clause k C_eq v) m \<longleftrightarrow> (\<exists>w. m k = Some w \<and> valuesEqual w v)"
    and ne_law: "storable m \<Longrightarrow> isChromaLiteral v \<Longrightarrow>
      selects (Clause k C_ne v) m \<longleftrightarrow> \<not> selects (Clause k C_eq v) m"
    and order_law: "storable m \<Longrightarrow> is_order op \<Longrightarrow> is_finite x \<Longrightarrow> is_integer x \<or> float_key k \<Longrightarrow>
      selects (Clause k op (VNum x)) m \<longleftrightarrow> (\<exists>y. m k = Some (VNum y) \<and> order_holds op y x)"
    and in_law: "storable m \<Longrightarrow> uniform vs \<Longrightarrow>
      selects (Clause k C_in (VArr vs)) m \<longleftrightarrow> (\<exists>w. m k = Some w \<and> list_ex (valuesEqual w) vs)"
    and nin_law: "storable m \<Longrightarrow> uniform vs \<Longrightarrow>
      selects (Clause k C_nin (VArr vs)) m \<longleftrightarrow> \<not> selects (Clause k C_in (VArr vs)) m"

text \<open>
  What the integrator declares of a key, which every stored record must honour: a required key is present,
  an integer key holds integers, a boolean key booleans, a float key floats.
\<close>

definition declared :: "(jstring \<Rightarrow> bool) \<Rightarrow> ResolvedField \<Rightarrow> metadata \<Rightarrow> bool" where
  "declared float_key f m \<longleftrightarrow>
     (isRequired f \<longrightarrow> m (name f) \<noteq> None) \<and>
     (numericType f = Some FloatType \<longrightarrow> float_key (name f)) \<and>
     (case m (name f) of
        None \<Rightarrow> True
      | Some v \<Rightarrow> (numericType f = Some IntegerType \<longrightarrow> isIntegerNumber v) \<and>
                  (valueType f = Some (js ''boolean'') \<longrightarrow> typeof v = BooleanType))"

subsection \<open>The partition by type\<close>

lemma insert_group_lookup:
  "map_of (insert_group t v groups) t' =
     (if t' = t then Some ((case map_of groups t of Some g \<Rightarrow> g | None \<Rightarrow> []) @ [v]) else map_of groups t')"
  by (induction t v groups rule: insert_group.induct) (auto split: option.splits)

lemma insert_group_keys: "fst ` set (insert_group t v groups) = insert t (fst ` set groups)"
  by (induction t v groups rule: insert_group.induct) auto

lemma insert_group_distinct:
  "distinct (map fst groups) \<Longrightarrow> distinct (map fst (insert_group t v groups))"
  by (induction t v groups rule: insert_group.induct) (auto simp: insert_group_keys)

definition type_groups :: "jsval list \<Rightarrow> (scalar_type \<times> jsval list) list" where
  "type_groups vals = foldl (\<lambda>groups v. insert_group (typeof v) v groups) [] vals"

lemma type_groups_snoc: "type_groups (vs @ [v]) = insert_group (typeof v) v (type_groups vs)"
  by (simp add: type_groups_def)

lemma type_groups_distinct: "distinct (map fst (type_groups vs))"
proof (induction vs rule: rev_induct)
  case (snoc v vs)
  then show ?case by (simp add: type_groups_snoc insert_group_distinct)
qed (simp add: type_groups_def)

lemma type_groups_lookup:
  "map_of (type_groups vs) t =
     (let members = filter (\<lambda>v. typeof v = t) vs in if members = [] then None else Some members)"
proof (induction vs rule: rev_induct)
  case (snoc v vs)
  show ?case
  proof (cases "typeof v = t")
    case True
    then show ?thesis using snoc by (cases "filter (\<lambda>v. typeof v = t) vs") (simp_all add: type_groups_snoc insert_group_lookup)
  next
    case False
    then have "filter (\<lambda>v. typeof v = t) (vs @ [v]) = filter (\<lambda>v. typeof v = t) vs" by simp
    then show ?thesis using snoc False by (simp only: type_groups_snoc insert_group_lookup simp_thms if_False not_sym)
  qed
qed (simp add: type_groups_def)

lemma type_groups_mem:
  "(t, members) \<in> set (type_groups vs) \<longleftrightarrow> members = filter (\<lambda>v. typeof v = t) vs \<and> members \<noteq> []"
proof -
  define g where "g = filter (\<lambda>v. typeof v = t) vs"
  have "(t, members) \<in> set (type_groups vs) \<longleftrightarrow> map_of (type_groups vs) t = Some members"
    by (rule map_of_eq_Some_iff [OF type_groups_distinct, symmetric])
  also have "\<dots> \<longleftrightarrow> members = g \<and> members \<noteq> []"
    unfolding type_groups_lookup Let_def g_def [symmetric] by (cases "g = []") auto
  finally show ?thesis unfolding g_def .
qed

lemma splitByType_mem:
  "members \<in> set (splitByType vs) \<longleftrightarrow> members \<noteq> [] \<and> (\<exists>t. members = filter (\<lambda>v. typeof v = t) vs)"
proof -
  have "members \<in> set (splitByType vs) \<longleftrightarrow> (\<exists>t. (t, members) \<in> set (type_groups vs))"
    unfolding splitByType_def type_groups_def by force
  then show ?thesis using type_groups_mem by blast
qed

lemma splitByType_ex:
  "(\<exists>members \<in> set (splitByType vs). list_ex P members) \<longleftrightarrow> list_ex P vs"
proof
  assume "list_ex P vs"
  then obtain v where v: "v \<in> set vs" "P v" by (auto simp: list_ex_iff)
  then show "\<exists>members \<in> set (splitByType vs). list_ex P members"
    by (intro bexI [of _ "filter (\<lambda>w. typeof w = typeof v) vs"])
      (auto simp: splitByType_mem list_ex_iff filter_empty_conv)
qed (force simp: splitByType_mem list_ex_iff)

lemma splitByType_uniform:
  assumes "list_all isChromaLiteral vs" "members \<in> set (splitByType vs)"
  shows "uniform members"
  using assms by (auto simp: uniform_def splitByType_mem list_all_iff)

lemma type_groups_concat: "mset (concat (map snd (type_groups vs))) = mset vs"
proof (induction vs rule: rev_induct)
  case (snoc v vs)
  have "mset (concat (map snd (insert_group t w groups))) = add_mset w (mset (concat (map snd groups)))" for t w groups
    by (induction t w groups rule: insert_group.induct) auto
  then show ?case using snoc by (simp add: type_groups_snoc)
qed (simp add: type_groups_def)

lemma splitByType_single:
  assumes "\<not> 1 < length (splitByType vs)" "vs \<noteq> []" "list_all isChromaLiteral vs"
  shows "uniform vs"
proof -
  obtain v where v: "v \<in> set vs" using assms(2) by (cases vs) auto
  define g where "g = filter (\<lambda>w. typeof w = typeof v) vs"
  have g: "g \<in> set (splitByType vs)" using v by (auto simp: splitByType_mem g_def filter_empty_conv)
  then have "splitByType vs = [g]" using assms(1) by (cases "splitByType vs") auto
  moreover have "mset (concat (splitByType vs)) = mset vs"
    using type_groups_concat [of vs] by (simp add: splitByType_def type_groups_def)
  ultimately have "mset g = mset vs" by simp
  then have "set g = set vs" by (metis set_mset_mset)
  then show ?thesis using assms by (auto simp: uniform_def list_all_iff g_def)
qed

subsection \<open>Comparing a stored value with a literal\<close>

lemma chromaLiteralE:
  assumes "isChromaLiteral v"
  obtains (string) s where "v = VStr s" | (boolean) b where "v = VBool b" | (number) x where "v = VNum x" "is_finite x"
  using assms by (cases v) (auto simp: isChromaLiteral_def)

lemma literal_simps [simp]:
  "isChromaLiteral (VStr s)" "isChromaLiteral (VBool b)" "isChromaLiteral (VNum x) \<longleftrightarrow> is_finite x"
  "\<not> isChromaLiteral VError" "\<not> isChromaLiteral (VArr xs)" "\<not> isChromaLiteral VNull"
  by (simp_all add: isChromaLiteral_def)

lemma typeof_simps [simp]:
  "typeof (VStr s) = StringType" "typeof (VBool b) = BooleanType" "typeof (VNum x) = NumberType"
  by (simp_all add: typeof_def)

lemma literal_equal [simp]:
  "valuesEqual (VStr a) (VStr b) \<longleftrightarrow> a = b" "valuesEqual (VBool x) (VBool y) \<longleftrightarrow> x = y"
  "valuesEqual (VNum p) (VNum q) \<longleftrightarrow> numericEqual (VNum p) (VNum q)"
  "\<not> valuesEqual (VStr a) (VBool y)" "\<not> valuesEqual (VStr a) (VNum q)"
  "\<not> valuesEqual (VBool x) (VStr b)" "\<not> valuesEqual (VBool x) (VNum q)"
  "\<not> valuesEqual (VNum p) (VStr b)" "\<not> valuesEqual (VNum p) (VBool y)"
  by (simp_all add: valuesEqual.simps)

lemma valuesEqual_commute_literal:
  assumes "isChromaLiteral a" "isChromaLiteral b"
  shows "valuesEqual a b \<longleftrightarrow> valuesEqual b a"
  using assms by (elim chromaLiteralE) (auto simp: numericEqual_def)

text \<open>The value of \<open>key <op> literal\<close> on a stored value, for the operators of \<open>COMPARISONS\<close>.\<close>

definition cmp_of :: "string \<Rightarrow> cmp_op option" where
  "cmp_of op = map_of
     [(''eq'', Eq), (''ne'', Ne), (''lt'', Lt), (''le'', Le), (''gt'', Gt), (''ge'', Ge)] op"

definition in_list :: "jsval \<Rightarrow> jsval \<Rightarrow> bool" where
  "in_list stored literal_list = (case literal_list of VArr vs \<Rightarrow> list_ex (\<lambda>v. valuesEqual v stored) vs | _ \<Rightarrow> False)"

definition atom :: "string \<Rightarrow> jsval \<Rightarrow> jsval \<Rightarrow> jsval" where
  "atom op stored lit =
     (if stored = VError then VError
      else if op = ''in'' then VBool (in_list stored lit)
      else if op = ''nin'' then VBool (\<not> in_list stored lit)
      else case cmp_of op of Some c \<Rightarrow> compareValues c stored lit | None \<Rightarrow> VError)"

lemma cmp_of_simps [simp]:
  "cmp_of ''eq'' = Some Eq" "cmp_of ''ne'' = Some Ne" "cmp_of ''lt'' = Some Lt" "cmp_of ''le'' = Some Le"
  "cmp_of ''gt'' = Some Gt" "cmp_of ''ge'' = Some Ge" "cmp_of ''in'' = None" "cmp_of ''nin'' = None"
  by (simp_all add: cmp_of_def)

lemma storableD: "storable m \<Longrightarrow> m k = Some v \<Longrightarrow> isChromaLiteral v"
  by (auto simp: storable_def)

lemma readMetadata_storable:
  assumes "storable m"
  shows "readMetadata m k = (case m k of None \<Rightarrow> VError | Some v \<Rightarrow> v)"
proof (cases "m k")
  case (Some v)
  show ?thesis using storableD [OF assms Some]
    by (cases rule: chromaLiteralE) (simp_all add: readMetadata_def Some)
qed (simp add: readMetadata_def)

lemma compare_literals_eq:
  assumes "isChromaLiteral a" "isChromaLiteral b"
  shows "compareValues Eq a b = VBool (valuesEqual a b)" "compareValues Ne a b = VBool (\<not> valuesEqual a b)"
  using assms by (elim chromaLiteralE; auto simp: compareValues_def isEvaluationError_def Let_def)+

lemma ordering_keys_number:
  assumes "isChromaLiteral v" "is_finite x"
  shows "ordering_keys v (VNum x) = (case v of VNum y \<Rightarrow> Some (y, x) | _ \<Rightarrow> None)"
proof -
  have nan: "\<not> is_nan x" using assms(2) by (cases x) auto
  show ?thesis using assms(1)
  proof (cases rule: chromaLiteralE)
    case (number y)
    then have "\<not> is_nan y" by (cases y) auto
    then show ?thesis using nan number by (simp add: ordering_keys_def)
  qed (use nan in \<open>simp_all add: ordering_keys_def\<close>)
qed

lemma compare_number_order:
  assumes "isChromaLiteral v" "is_finite x" "c \<noteq> Eq" "c \<noteq> Ne"
  shows "compareValues c v (VNum x) = (case v of VNum y \<Rightarrow> VBool (holds c y x) | _ \<Rightarrow> VError)"
  using assms
  by (auto simp: compareValues_def isEvaluationError_def ordering_keys_number split: jsval.splits)

lemma COMPARISONS_keys:
  assumes "map_of COMPARISONS op = Some c"
  obtains "op = ''eq''" | "op = ''ne''" | "op = ''lt''" | "op = ''le''" | "op = ''gt''" | "op = ''ge''"
    | "op = ''in''" | "op = ''nin''"
proof -
  have "op \<in> set (map fst COMPARISONS)"
    using map_of_SomeD [OF assms] by (metis fst_conv image_eqI set_map)
  then have "op \<in> {''eq'', ''ne'', ''lt'', ''le'', ''gt'', ''ge'', ''in'', ''nin''}"
    by (simp only: COMPARISONS_def list.map fst_conv list.set)
  then show thesis using that by (elim insertE emptyE) simp_all
qed

lemma COMPARISONS_simps [simp]:
  "map_of COMPARISONS ''eq'' = Some (comparison_row C_eq requireLiteral (Some ''ne'') (Some ''eq''))"
  "map_of COMPARISONS ''ne'' = Some ((comparison_row C_ne requireLiteral (Some ''eq'') (Some ''ne''))\<lparr>matchesMissingKey := True\<rparr>)"
  "map_of COMPARISONS ''lt'' = Some ((comparison_row C_lt requireNumber (Some ''ge'') (Some ''gt''))\<lparr>ordered := True\<rparr>)"
  "map_of COMPARISONS ''le'' = Some ((comparison_row C_lte requireNumber (Some ''gt'') (Some ''ge''))\<lparr>ordered := True\<rparr>)"
  "map_of COMPARISONS ''gt'' = Some ((comparison_row C_gt requireNumber (Some ''le'') (Some ''lt''))\<lparr>ordered := True\<rparr>)"
  "map_of COMPARISONS ''ge'' = Some ((comparison_row C_gte requireNumber (Some ''lt'') (Some ''le''))\<lparr>ordered := True\<rparr>)"
  "map_of COMPARISONS ''in'' = Some (comparison_row C_in requireLiteralList (Some ''nin'') None)"
  "map_of COMPARISONS ''nin'' = Some ((comparison_row C_nin requireLiteralList None None)
     \<lparr>matchesMissingKey := True, negationOnly := True\<rparr>)"
  by (simp_all add: COMPARISONS_def)

lemma comparison_row_simps [simp]:
  "chroma (comparison_row c l n r) = c" "literal (comparison_row c l n r) = l"
  "negated (comparison_row c l n r) = n" "mirrored (comparison_row c l n r) = r"
  "\<not> matchesMissingKey (comparison_row c l n r)" "\<not> ordered (comparison_row c l n r)"
  "\<not> negationOnly (comparison_row c l n r)"
  by (simp_all add: comparison_row_def)

lemma integer_number:
  assumes "isIntegerNumber v"
  obtains y where "v = VNum y" "is_integer y" "\<not> is_nan y"
proof (cases v)
  case (VNum y)
  then show ?thesis using assms that by (cases y) auto
qed (use assms in auto)

lemma finite_is_number: "is_finite x \<Longrightarrow> \<not> is_nan x"
  by (cases x) auto

lemma requirePresence_ok:
  "requirePresenceFor f op = Inr u \<Longrightarrow>
     isRequired f \<or> (case map_of COMPARISONS op of Some c \<Rightarrow> \<not> matchesMissingKey c | None \<Rightarrow> True)"
  by (auto simp: requirePresenceFor_def split: if_splits option.splits)

lemma compare_Inr:
  assumes "compare f op v = Inr w"
  obtains (lowered) "op = ''ne''" "isChromaLiteral v" "inequalityWithoutNe f v = Some w"
  | (emitted) c where "map_of COMPARISONS op = Some c" "emit (name f) op v = Inr w"
      "matchesMissingKey c \<longrightarrow> isRequired f"
      "ordered c \<Longrightarrow> (case v of VNum x \<Rightarrow> \<not> is_integer x | _ \<Rightarrow> False) \<Longrightarrow> numericType f = Some FloatType"
proof -
  obtain c where c: "map_of COMPARISONS op = Some c"
    using assms by (auto simp: compare_def split: option.splits)
  show ?thesis
  proof (cases "if op = ''ne'' \<and> isChromaLiteral v then inequalityWithoutNe f v else None")
    case None
    then show ?thesis using assms c emitted [of c] requirePresence_ok [of f op "()"]
      by (auto simp: compare_def bindE_eq_Inr split: if_splits)
  next
    case (Some w')
    then show ?thesis using assms c lowered by (auto simp: compare_def split: if_splits)
  qed
qed

definition chroma_order :: "string \<Rightarrow> chroma_op" where
  "chroma_order op = (if op = ''lt'' then C_lt else if op = ''le'' then C_lte else if op = ''gt'' then C_gt else C_gte)"

context chroma_server
begin

lemma inequality_exact:
  assumes "inequalityWithoutNe f v = Some w" "isChromaLiteral v" "storable m" "declared float_key f m"
  shows "selects w m \<longleftrightarrow> (\<exists>s. m (name f) = Some s \<and> \<not> valuesEqual s v)"
proof (cases "valueType f = Some (js ''boolean'') \<and> typeof v = BooleanType")
  case True
  then obtain b where b: "v = VBool b" using assms(2) by (auto elim: chromaLiteralE)
  have w: "w = Clause (name f) C_eq (VBool (\<not> b))"
    using assms(1) True by (simp add: inequalityWithoutNe_def Let_def b)
  have "valuesEqual s (VBool (\<not> b)) \<longleftrightarrow> \<not> valuesEqual s v" if s: "m (name f) = Some s" for s
  proof -
    have "typeof s = BooleanType" using assms(4) s True by (simp add: declared_def)
    then obtain a where "s = VBool a" using storableD [OF assms(3) s] by (auto elim: chromaLiteralE)
    then show ?thesis by (auto simp: b)
  qed
  then show ?thesis using eq_law [OF assms(3), of "VBool (\<not> b)"] by (auto simp: w)
next
  case False
  then have int: "numericType f = Some IntegerType"
    using assms(1) by (auto simp: inequalityWithoutNe_def Let_def split: if_splits)
  have stored: "\<exists>y. s = VNum y \<and> \<not> is_nan y" if "m (name f) = Some s" for s
    using assms(4) that int integer_number by (fastforce simp: declared_def)
  show ?thesis
  proof (cases "isNumber v")
    case True
    then obtain x where v: "v = VNum x" by (cases v) auto
    have x: "is_finite x" using assms(2) v by simp
    have w: "is_integer x" "w = WOr [Clause (name f) C_lt v, Clause (name f) C_gt v]"
      using assms(1) int False by (auto simp: inequalityWithoutNe_def Let_def v split: if_splits)
    have "selects w m \<longleftrightarrow> (\<exists>y. m (name f) = Some (VNum y) \<and> (num_lt y x \<or> num_lt x y))"
      using order_law [OF assms(3) _ x] w(1) by (auto simp: w(2) or_law v is_order_def)
    then show ?thesis using stored x by (fastforce simp: v numericEqual_def finite_is_number)
  next
    case nn: False
    have w: "w = WOr [Clause (name f) C_lt (VInt 0), Clause (name f) C_gte (VInt 0)]"
      using assms(1) int False nn assms(2)
      by (auto simp: inequalityWithoutNe_def Let_def elim: chromaLiteralE split: if_splits)
    have "selects w m \<longleftrightarrow> (\<exists>y. m (name f) = Some (VNum y) \<and> (num_lt y (Fin 0) \<or> num_le (Fin 0) y))"
      using order_law [OF assms(3), of _ "Fin 0"] by (auto simp: w or_law is_order_def)
    moreover have "num_lt y (Fin 0) \<or> num_le (Fin 0) y" if "\<not> is_nan y" for y
      using that by (simp add: num_le_def)
    moreover have "\<not> valuesEqual (VNum y) v" for y
      using nn assms(2) by (auto elim!: chromaLiteralE)
    ultimately show ?thesis using stored by blast
  qed
qed

lemma emit_equality_exact:
  assumes "emit k op v = Inr w" "op = ''eq'' \<or> op = ''ne''" "storable m"
  shows "isChromaLiteral v \<and> selects w m = (if op = ''eq'' then \<exists>s. m k = Some s \<and> valuesEqual s v
    else \<not> (\<exists>s. m k = Some s \<and> valuesEqual s v))"
proof -
  have lit: "isChromaLiteral v"
    using assms(1,2) by (auto simp: emit_def bindE_eq_Inr requireLiteral_def split: if_splits)
  have "w = Clause k (if op = ''eq'' then C_eq else C_ne) v"
    using assms(1,2) lit by (auto simp: emit_def requireLiteral_def elim: chromaLiteralE)
  then show ?thesis using eq_law [OF assms(3) lit] ne_law [OF assms(3) lit] lit by auto
qed

lemma emit_order_exact:
  assumes "emit k op v = Inr w" "op \<in> {''lt'', ''le'', ''gt'', ''ge''}" "storable m"
    "(case v of VNum x \<Rightarrow> \<not> is_integer x | _ \<Rightarrow> False) \<Longrightarrow> float_key k"
  shows "\<exists>x. v = VNum x \<and> is_finite x \<and>
    selects w m = (\<exists>y. m k = Some (VNum y) \<and> order_holds (chroma_order op) y x)"
proof -
  have "\<exists>x. v = VNum x \<and> is_finite x"
    using assms(1,2) by (auto simp: emit_def bindE_eq_Inr requireNumber_def split: if_splits jsval.splits)
  then obtain x where v: "v = VNum x" and x: "is_finite x" by blast
  have w: "w = Clause k (chroma_order op) v"
    using assms(1,2) x by (auto simp: emit_def requireNumber_def chroma_order_def v)
  have "is_order (chroma_order op)" by (simp add: chroma_order_def is_order_def)
  then show ?thesis using order_law [OF assms(3) _ x] assms(4) x by (auto simp: v w)
qed

lemma emit_list_exact:
  assumes "emit k op v = Inr w" "op = ''in'' \<or> op = ''nin''" "storable m"
  shows "\<exists>vs. v = VArr vs \<and> list_all isChromaLiteral vs \<and>
    selects w m = (if op = ''in'' then \<exists>s. m k = Some s \<and> list_ex (valuesEqual s) vs
      else \<not> (\<exists>s. m k = Some s \<and> list_ex (valuesEqual s) vs))"
proof -
  have "\<exists>vs. v = VArr vs \<and> vs \<noteq> [] \<and> list_all isChromaLiteral vs"
    using assms(1,2) by (auto simp: emit_def bindE_eq_Inr requireLiteralList_def split: if_splits jsval.splits)
  then obtain vs where v: "v = VArr vs" and ne: "vs \<noteq> []" and lit: "list_all isChromaLiteral vs" by blast
  define c where "c = (if op = ''in'' then C_in else C_nin)"
  have in_one: "selects (Clause k c (VArr g)) m = (if op = ''in'' then \<exists>s. m k = Some s \<and> list_ex (valuesEqual s) g
      else \<not> (\<exists>s. m k = Some s \<and> list_ex (valuesEqual s) g))" if "uniform g" for g
    using in_law [OF assms(3) that] nin_law [OF assms(3) that] assms(2) by (auto simp: c_def)
  show ?thesis
  proof (cases "1 < length (splitByType vs)")
    case False
    then have "w = Clause k c v"
      using assms(1,2) ne lit by (auto simp: emit_def requireLiteralList_def v c_def Let_def)
    then show ?thesis using in_one [OF splitByType_single [OF False ne lit]] lit by (simp add: v)
  next
    case True
    then have w: "w = (if op = ''in'' then WOr else WAnd) (map (\<lambda>g. Clause k c (VArr g)) (splitByType vs))"
      using assms(1,2) ne lit by (auto simp: emit_def requireLiteralList_def v c_def Let_def)
    have "selects w m = (if op = ''in'' then \<exists>s. m k = Some s \<and> (\<exists>g \<in> set (splitByType vs). list_ex (valuesEqual s) g)
        else \<not> (\<exists>s. m k = Some s \<and> (\<exists>g \<in> set (splitByType vs). list_ex (valuesEqual s) g)))"
      using in_one splitByType_uniform [OF lit] by (auto simp: w and_law or_law)
    then show ?thesis using lit by (simp add: v splitByType_ex)
  qed
qed

text \<open>One comparison: the clause selects exactly the records on which the CEL comparison is true.\<close>

lemma compare_exact:
  assumes "compare f op v = Inr w" "storable m" "declared float_key f m"
  shows "selects w m \<longleftrightarrow> atom op (readMetadata m (name f)) v = VBool True"
  using assms(1)
proof (cases rule: compare_Inr)
  case lowered
  note ex = inequality_exact [OF lowered(3,2) assms(2,3)]
  show ?thesis
  proof (cases "m (name f)")
    case (Some s)
    then have s: "isChromaLiteral s" using assms(2) storableD by blast
    then have "s \<noteq> VError" by auto
    then show ?thesis using ex Some s lowered
      by (simp add: readMetadata_storable [OF assms(2)] atom_def compare_literals_eq)
  qed (use ex in \<open>simp add: readMetadata_storable [OF assms(2)] atom_def\<close>)
next
  case (emitted c)
  have stored: "readMetadata m (name f) = (case m (name f) of None \<Rightarrow> VError | Some s \<Rightarrow> s)"
    using readMetadata_storable [OF assms(2)] .
  have lit: "isChromaLiteral s \<and> s \<noteq> VError" if "m (name f) = Some s" for s
    using storableD [OF assms(2) that] by auto
  have present: "m (name f) \<noteq> None" if "matchesMissingKey c"
    using that emitted(3) assms(3) by (auto simp: declared_def)
  from emitted(1) consider (equality) "op = ''eq'' \<or> op = ''ne''" | (order) "op \<in> {''lt'', ''le'', ''gt'', ''ge''}"
    | (list) "op = ''in'' \<or> op = ''nin''"
    by (elim COMPARISONS_keys) auto
  then show ?thesis
  proof cases
    case equality
    have ne: "op = ''ne'' \<Longrightarrow> m (name f) \<noteq> None" using present emitted(1) by auto
    show ?thesis
      using emit_equality_exact [OF emitted(2) equality assms(2)] equality lit ne
      by (cases "m (name f)") (auto simp: stored atom_def compare_literals_eq)
  next
    case order
    have fl: "float_key (name f)" if "case v of VNum x \<Rightarrow> \<not> is_integer x | _ \<Rightarrow> False"
      using emitted(1,4) that order assms(3) by (auto simp: declared_def)
    obtain x where v: "v = VNum x" and x: "is_finite x" and
      sel: "selects w m = (\<exists>y. m (name f) = Some (VNum y) \<and> order_holds (chroma_order op) y x)"
      using emit_order_exact [OF emitted(2) order assms(2) fl] by blast
    obtain o' where o': "cmp_of op = Some o'" "o' \<noteq> Eq" "o' \<noteq> Ne" "op \<noteq> ''in''" "op \<noteq> ''nin''"
      "\<And>y. order_holds (chroma_order op) y x = holds o' y x"
      using order by (auto simp: chroma_order_def)
    show ?thesis
    proof (cases "m (name f)")
      case (Some s)
      show ?thesis using lit [OF Some] x
        by (auto simp: sel stored atom_def Some o' v compare_number_order elim!: chromaLiteralE)
    qed (simp add: sel stored atom_def)
  next
    case list
    obtain vs where v: "v = VArr vs" "list_all isChromaLiteral vs" and
      sel: "selects w m = (if op = ''in'' then \<exists>s. m (name f) = Some s \<and> list_ex (valuesEqual s) vs
        else \<not> (\<exists>s. m (name f) = Some s \<and> list_ex (valuesEqual s) vs))"
      using emit_list_exact [OF emitted(2) list assms(2)] by blast
    have flip: "list_ex (\<lambda>x. valuesEqual x s) vs = list_ex (valuesEqual s) vs" if "m (name f) = Some s" for s
      using v(2) lit [OF that] valuesEqual_commute_literal by (auto simp: list_ex_iff list_all_iff)
    have ne: "op = ''nin'' \<Longrightarrow> m (name f) \<noteq> None" using present emitted(1) by auto
    show ?thesis
      using list lit ne flip by (cases "m (name f)") (auto simp: sel stored atom_def in_list_def v)
  qed
qed

end

subsection \<open>A reference server\<close>

definition clause_holds :: "chroma_op \<Rightarrow> jsval \<Rightarrow> jsval option \<Rightarrow> bool" where
  "clause_holds op v stored =
     (let equal = (case stored of None \<Rightarrow> False | Some w \<Rightarrow> valuesEqual w v);
          listed = (case (stored, v) of (Some w, VArr vs) \<Rightarrow> list_ex (valuesEqual w) vs | _ \<Rightarrow> False)
      in if op = C_eq then equal
         else if op = C_ne then \<not> equal
         else if op = C_in then listed
         else if op = C_nin then \<not> listed
         else case (stored, v) of (Some (VNum y), VNum x) \<Rightarrow> order_holds op y x | _ \<Rightarrow> False)"

fun where_holds :: "Where \<Rightarrow> metadata \<Rightarrow> bool" where
  "where_holds (Clause k op v) m = clause_holds op v (m k)"
| "where_holds (WAnd ws) m = list_all (\<lambda>w. where_holds w m) ws"
| "where_holds (WOr ws) m = list_ex (\<lambda>w. where_holds w m) ws"

interpretation reference: chroma_server where_holds "\<lambda>_. True"
  by unfold_locales
    (auto simp: clause_holds_def is_order_def list_all_iff list_ex_iff Let_def split: option.splits jsval.splits)

end
