(* ===== verification/Chroma_Exact.thy ===== *)
theory Chroma_Exact
  imports Chroma_Server
begin

text \<open>
  The \<open>Where\<close> filter and the post-filter agree: whenever both translate a condition, the filter selects
  exactly the records on which the compiled predicate is true, under either polarity, and so does every
  split of a plan between the two.
\<close>

subsection \<open>Negation and mirroring\<close>

text \<open>The literal an operator's row accepts.\<close>

definition operand_fits :: "string \<Rightarrow> jsval \<Rightarrow> bool" where
  "operand_fits op v \<longleftrightarrow>
     (if op = ''in'' \<or> op = ''nin'' then \<exists>vs. v = VArr vs \<and> list_all isChromaLiteral vs
      else if op = ''eq'' \<or> op = ''ne'' then isChromaLiteral v
      else \<exists>x. v = VNum x \<and> is_finite x)"

lemma compare_operand_fits:
  assumes "compare f op v = Inr w"
  shows "operand_fits op v"
  using assms
proof (cases rule: compare_Inr)
  case emitted
  from emitted(1) show ?thesis
    by (rule COMPARISONS_keys)
      (use emitted(2) in \<open>auto simp: operand_fits_def emit_def bindE_eq_Inr requireLiteral_def requireNumber_def
          requireLiteralList_def split: if_splits jsval.splits\<close>)
qed (simp_all add: operand_fits_def)

text \<open>What a reference reads: a scalar or the missing-attribute error.\<close>

definition readable :: "jsval \<Rightarrow> bool" where
  "readable s \<longleftrightarrow> s = VError \<or> isChromaLiteral s"

lemma readable_readMetadata: "readable (readMetadata m k)"
  by (auto simp: readable_def readMetadata_def isChromaLiteral_def split: option.splits jsval.splits)

lemma negationOf_cases:
  assumes "negationOf op = Inr n"
  obtains "op = ''eq''" "n = ''ne''" | "op = ''ne''" "n = ''eq''" | "op = ''lt''" "n = ''ge''"
    | "op = ''ge''" "n = ''lt''" | "op = ''gt''" "n = ''le''" | "op = ''le''" "n = ''gt''"
    | "op = ''in''" "n = ''nin''"
proof -
  obtain c where c: "map_of COMPARISONS op = Some c" "negated c = Some n"
    using assms by (auto simp: negationOf_def split: option.splits bind_splits)
  from c(1) show thesis by (rule COMPARISONS_keys) (use c that in auto)
qed

lemma mirrorOf_cases:
  assumes "mirrorOf op = Inr n"
  obtains "op = ''eq''" "n = ''eq''" | "op = ''ne''" "n = ''ne''" | "op = ''lt''" "n = ''gt''"
    | "op = ''gt''" "n = ''lt''" | "op = ''le''" "n = ''ge''" | "op = ''ge''" "n = ''le''"
proof -
  obtain c where c: "map_of COMPARISONS op = Some c" "mirrored c = Some n" "op \<noteq> ''in''"
    using assms by (auto simp: mirrorOf_def split: option.splits bind_splits if_splits)
  from c(1) show thesis by (rule COMPARISONS_keys) (use c that in auto)
qed

lemma atom_negation:
  assumes "negationOf op = Inr n" "readable s" "operand_fits n v"
  shows "atom n s v = VBool True \<longleftrightarrow> atom op s v = VBool False"
proof (cases "s = VError")
  case False
  then have s: "isChromaLiteral s" using assms(2) by (simp add: readable_def)
  have num: "num_le a b \<longleftrightarrow> \<not> num_lt b a" if "is_finite a" "is_finite b" for a b
    using finite_is_number that by (simp add: num_le_def)
  from assms(1) show ?thesis
  proof (cases rule: negationOf_cases)
    case 7
    then show ?thesis using False by (simp add: atom_def)
  qed (use assms(3) s False num in \<open>auto simp: atom_def operand_fits_def compare_literals_eq
         compare_number_order elim!: chromaLiteralE\<close>)
qed (simp add: atom_def)

lemma code_point_mirror:
  "compareCodePoints b a < 0 \<longleftrightarrow> 0 < compareCodePoints a b" "0 < compareCodePoints b a \<longleftrightarrow> compareCodePoints a b < 0"
  using compareCodePoints_flip [of a b] by linarith+

lemma ordering_keys_literals [simp]:
  "ordering_keys (VStr a) (VStr b) = Some (Fin (of_int (compareCodePoints a b)), Fin 0)"
  "ordering_keys (VBool p) (VBool q) = Some (bool_num p, bool_num q)"
  "is_finite x \<Longrightarrow> is_finite y \<Longrightarrow> ordering_keys (VNum x) (VNum y) = Some (x, y)"
  "ordering_keys (VStr a) (VBool q) = None" "ordering_keys (VBool q) (VStr a) = None"
  "is_finite x \<Longrightarrow> ordering_keys (VStr a) (VNum x) = None" "is_finite x \<Longrightarrow> ordering_keys (VNum x) (VStr a) = None"
  "is_finite x \<Longrightarrow> ordering_keys (VBool p) (VNum x) = None" "is_finite x \<Longrightarrow> ordering_keys (VNum x) (VBool p) = None"
  by (simp_all add: ordering_keys_def finite_is_number)

text \<open>The comparison with its sides exchanged.\<close>

fun mirror_cmp :: "cmp_op \<Rightarrow> cmp_op" where
  "mirror_cmp Lt = Gt" | "mirror_cmp Le = Ge" | "mirror_cmp Gt = Lt" | "mirror_cmp Ge = Le"
| "mirror_cmp Eq = Eq" | "mirror_cmp Ne = Ne"

lemma holds_mirror: "holds (mirror_cmp c) a b = holds c b a"
  by (cases c) simp_all

lemma compareValues_mirror:
  assumes "isChromaLiteral s" "isChromaLiteral v"
  shows "compareValues (mirror_cmp c) s v = compareValues c v s"
proof (cases "c = Eq \<or> c = Ne")
  case True
  then show ?thesis
    using assms by (auto simp: compare_literals_eq valuesEqual_commute_literal [OF assms])
next
  case False
  then have m: "mirror_cmp c \<noteq> Eq" "mirror_cmp c \<noteq> Ne" by (cases c; simp)+
  have o: "compareValues c' l r = (case ordering_keys l r of None \<Rightarrow> VError | Some (a, b) \<Rightarrow> VBool (holds c' a b))"
    if "isChromaLiteral l" "isChromaLiteral r" "c' \<noteq> Eq" "c' \<noteq> Ne" for c' l r
    using that by (auto simp: compareValues_def isEvaluationError_def)
  have str: "holds c (Fin 0) (Fin (of_int (compareCodePoints a b))) =
      holds c (Fin (of_int (compareCodePoints b a))) (Fin 0)" for a b
    using code_point_mirror [of b a] by (cases c) (auto simp: num_le_def)
  have "(case ordering_keys s v of None \<Rightarrow> VError | Some (a, b) \<Rightarrow> VBool (holds (mirror_cmp c) a b)) =
      (case ordering_keys v s of None \<Rightarrow> VError | Some (a, b) \<Rightarrow> VBool (holds c a b))"
    using assms by (elim chromaLiteralE) (simp_all add: str holds_mirror)
  then show ?thesis using False m assms by (simp add: o)
qed

text \<open>The value of a comparison as the plan writes it, on the value its reference reads.\<close>

definition oriented_atom :: "string \<Rightarrow> bool \<Rightarrow> jsval \<Rightarrow> jsval \<Rightarrow> jsval" where
  "oriented_atom op literalFirst stored lit =
     (if literalFirst
      then (if stored = VError then VError
            else case cmp_of op of Some c \<Rightarrow> compareValues c lit stored | None \<Rightarrow> VError)
      else atom op stored lit)"

lemma atom_mirror:
  assumes "mirrorOf op = Inr n" "readable s" "isChromaLiteral v"
  shows "oriented_atom op True s v = atom n s v"
proof (cases "s = VError")
  case False
  then have s: "isChromaLiteral s" using assms(2) by (simp add: readable_def)
  note mirror = compareValues_mirror [OF s assms(3), of Eq] compareValues_mirror [OF s assms(3), of Ne]
    compareValues_mirror [OF s assms(3), of Lt] compareValues_mirror [OF s assms(3), of Le]
    compareValues_mirror [OF s assms(3), of Gt] compareValues_mirror [OF s assms(3), of Ge]
  from assms(1) show ?thesis
    by (rule mirrorOf_cases) (use False mirror in \<open>simp_all add: oriented_atom_def atom_def\<close>)
qed (simp add: oriented_atom_def atom_def)

subsection \<open>The compiled comparison\<close>

lemma roster_simps [simp]:
  "map_of OPERATORS ''and'' = Some (junction False)" "map_of OPERATORS ''or'' = Some (junction True)"
  "map_of OPERATORS ''not'' = Some negation" "map_of OPERATORS ''in'' = Some membership"
  "map_of OPERATORS ''eq'' = Some (comparison Eq)" "map_of OPERATORS ''ne'' = Some (comparison Ne)"
  "map_of OPERATORS ''lt'' = Some (comparison Lt)" "map_of OPERATORS ''le'' = Some (comparison Le)"
  "map_of OPERATORS ''gt'' = Some (comparison Gt)" "map_of OPERATORS ''ge'' = Some (comparison Ge)"
  "map_of OPERATORS ''nin'' = None"
  by (simp_all add: OPERATORS_def)

text \<open>A context with the mapper's fields and no lambda variable in scope.\<close>

definition root_context :: "FieldMapper \<Rightarrow> Context \<Rightarrow> bool" where
  "root_context mapping ctx \<longleftrightarrow>
     mappedFields ctx = postFilterFields mapping (fieldResolver mapping) \<and> bindingTypes ctx = (\<lambda>_. None)"

lemma root_context_parent [simp]: "root_context mapping (ctx\<lparr>parent := p\<rparr>) = root_context mapping ctx"
  by (simp add: root_context_def)

lemma compile_variable_run:
  assumes "compileVariable var ctx = Inr c" "root_context mapping ctx"
  obtains f where "fieldResolver mapping var = Inr f"
    "\<And>env. run c env = Inr (readMetadata (metadata env) (name f))"
  using assms
  by (auto simp: compileVariable_def root_context_def bindE_eq_Inr postFilterFields_def compiled_as_def
      split: if_splits)

lemma compile_value_run: "compileValue v ctx = Inr c \<Longrightarrow> run c env = Inr v"
  by (auto simp: compileValue_def const_compiled_def split: if_splits jsval.splits)

lemma strict_Inr:
  assumes "strict n t f nodes ctx = Inr c"
  obtains cs where "length nodes = n" "list_all2 (\<lambda>node c. compileNode node ctx = Inr c) nodes cs"
    "ctype c = t" "run c = with_values cs f"
  using assms
  by (auto simp: strict_def compileAll_def exactly_def bindE_eq_Inr compiled_as_def mapE_ok_iff split: if_splits)

lemma with_two_values:
  "run c1 env = Inr v1 \<Longrightarrow> run c2 env = Inr v2 \<Longrightarrow>
   with_values [c1, c2] (binary f) env = Inr (if v1 = VError \<or> v2 = VError then VError else f v1 v2)"
  by (simp add: with_values_def binary_def isEvaluationError_def)

lemma compile_binary_run:
  assumes "strict 2 t (binary g) (map nodeOf [a, b]) ctx = Inr c"
    "\<And>ca. compile a ctx = Inr ca \<Longrightarrow> run ca env = Inr va" "\<And>cb. compile b ctx = Inr cb \<Longrightarrow> run cb env = Inr vb"
  shows "run c env = Inr (if va = VError \<or> vb = VError then VError else g va vb)"
proof -
  from assms(1) obtain ca cb where "compile a ctx = Inr ca" "compile b ctx = Inr cb"
    "run c = with_values [ca, cb] (binary g)"
    by (rule strict_Inr) (auto simp: compile_def list_all2_Cons1)
  then show ?thesis using with_two_values assms(2,3) by simp
qed

lemma cmp_of_OPERATORS: "cmp_of op = Some c \<Longrightarrow> map_of OPERATORS op = Some (comparison c)"
  by (auto simp: cmp_of_def split: if_splits)

lemma compareValues_strict: "compareValues c VError v = VError" "compareValues c v VError = VError"
  by (simp_all add: compareValues_def isEvaluationError_def)

text \<open>A comparison of a mapped reference with a literal, compiled: its value is that of the atom.\<close>

lemma comparison_run:
  assumes "dispatch op (map nodeOf (if literalFirst then [Value v, Variable var] else [Variable var, Value v])) ctx = Inr c"
    "root_context mapping ctx" "fieldResolver mapping var = Inr f" "v \<noteq> VError"
    "cmp_of op \<noteq> None \<or> op = ''in'' \<and> \<not> literalFirst \<and> (\<exists>vs. v = VArr vs)"
  shows "run c env = Inr (oriented_atom op literalFirst (readMetadata (metadata env) (name f)) v)"
proof -
  define s where "s = readMetadata (metadata env) (name f)"
  have var: "run c env = Inr s" if comp: "compile (Variable var) (ctx\<lparr>parent := p\<rparr>) = Inr c" for p c
  proof -
    obtain f' where "fieldResolver mapping var = Inr f'" "run c env = Inr (readMetadata (metadata env) (name f'))"
      by (rule compile_variable_run [of var "ctx\<lparr>parent := p\<rparr>" c mapping])
        (use comp assms(2) in \<open>auto simp: compile_def\<close>)
    then show ?thesis using assms(3) by (simp add: s_def)
  qed
  have val: "run c env = Inr v" if "compile (Value v) (ctx\<lparr>parent := p\<rparr>) = Inr c" for p c
    using compile_value_run that by (auto simp: compile_def)
  show ?thesis
  proof (cases "cmp_of op")
    case (Some o')
    then have run: "strict 2 TyOther (binary (compareValues o'))
        (map nodeOf (if literalFirst then [Value v, Variable var] else [Variable var, Value v])) (ctx\<lparr>parent := op\<rparr>) = Inr c"
      using assms(1) cmp_of_OPERATORS [OF Some] by (simp add: dispatch_def comparison_def)
    have ops: "op \<noteq> ''in''" "op \<noteq> ''nin''" using Some by auto
    show ?thesis
    proof (cases literalFirst)
      case True
      then show ?thesis
        using compile_binary_run [OF run [unfolded if_P [OF True]] val var] assms(4) Some
        by (simp add: oriented_atom_def s_def)
    next
      case False
      then show ?thesis
        using compile_binary_run [OF run [unfolded if_not_P [OF False]] var val] assms(4) Some ops
        by (simp add: oriented_atom_def atom_def s_def)
    qed
  next
    case None
    then obtain vs where op: "op = ''in''" "\<not> literalFirst" "v = VArr vs" using assms(5) by auto
    have run: "strict 2 TyOther (binary (\<lambda>needle haystack.
       case haystack of
         VArr xs \<Rightarrow> VBool (list_ex (\<lambda>v. valuesEqual v needle) xs)
       | VObj kvs \<Rightarrow> VBool (case needle of VStr k \<Rightarrow> map_of kvs k \<noteq> None | _ \<Rightarrow> False)
       | _ \<Rightarrow> VError)) (map nodeOf [Variable var, Value v]) (ctx\<lparr>parent := op\<rparr>) = Inr c"
      using assms(1) op by (simp add: dispatch_def membership_def)
    show ?thesis
      using compile_binary_run [OF run var val] op
      by (simp add: oriented_atom_def atom_def in_list_def s_def)
  qed
qed

subsection \<open>The walk\<close>

text \<open>The references of a plan, and those standing bare in a condition's position.\<close>

fun references :: "operand \<Rightarrow> jstring list" where
  "references (Variable var) = [var]"
| "references (Expression op args) = concat (map references args)"
| "references _ = []"

fun bare_conditions :: "operand \<Rightarrow> jstring list" where
  "bare_conditions (Variable var) = [var]"
| "bare_conditions (Expression op args) =
     (if op = ''and'' \<or> op = ''or'' \<or> op = ''not'' then concat (map bare_conditions args) else [])"
| "bare_conditions _ = []"

text \<open>
  The record honours what the mapper declares of the plan's references, and a reference used as a condition
  by itself is a boolean where it is present.
\<close>

definition record_fits :: "(jstring \<Rightarrow> bool) \<Rightarrow> FieldMapper \<Rightarrow> metadata \<Rightarrow> operand \<Rightarrow> bool" where
  "record_fits float_key mapping m e \<longleftrightarrow>
     storable m \<and>
     (\<forall>var \<in> set (references e). \<forall>f. fieldResolver mapping var = Inr f \<longrightarrow> declared float_key f m) \<and>
     (\<forall>var \<in> set (bare_conditions e). \<forall>f. fieldResolver mapping var = Inr f \<longrightarrow>
        (case m (name f) of None \<Rightarrow> True | Some v \<Rightarrow> typeof v = BooleanType))"

lemma record_fits_child:
  "record_fits k mapping m (Expression op args) \<Longrightarrow> op \<in> {''and'', ''or'', ''not''} \<Longrightarrow> x \<in> set args \<Longrightarrow>
     record_fits k mapping m x"
  by (auto simp: record_fits_def)

lemma junction_loop_decides:
  assumes "\<And>c. c \<in> set cs \<Longrightarrow> \<exists>v. run c env = Inr v"
  shows "\<exists>v. junction_loop d saw cs env = Inr v \<and>
     (v = VBool d \<longleftrightarrow> (\<exists>c \<in> set cs. run c env = Inr (VBool d))) \<and>
     (v = VBool (\<not> d) \<longleftrightarrow> \<not> saw \<and> (\<forall>c \<in> set cs. run c env = Inr (VBool (\<not> d))))"
  using assms
proof (induction cs arbitrary: saw)
  case (Cons c cs)
  obtain v where v: "run c env = Inr v" using Cons.prems [of c] by auto
  have IH: "\<exists>v. junction_loop d saw' cs env = Inr v \<and>
     (v = VBool d \<longleftrightarrow> (\<exists>c \<in> set cs. run c env = Inr (VBool d))) \<and>
     (v = VBool (\<not> d) \<longleftrightarrow> \<not> saw' \<and> (\<forall>c \<in> set cs. run c env = Inr (VBool (\<not> d))))" for saw'
    using Cons by simp
  show ?case
  proof (cases v)
    case (VBool b)
    show ?thesis
    proof (cases "b = d")
      case True
      then show ?thesis using v VBool by simp
    next
      case False
      then have "b = (\<not> d)" by simp
      then show ?thesis using v VBool IH [of saw] by (simp add: isEvaluationError_def)
    qed
  qed (use v IH [of True] in \<open>auto simp: isEvaluationError_def\<close>)
qed simp

lemma binaryOperands_Inr:
  assumes "binaryOperands op args = Inr (var, literalFirst, v)"
  shows "args = (if literalFirst then [Value v, Variable var] else [Variable var, Value v])"
proof -
  have len: "length args = 2" using assms by (auto simp: binaryOperands_def split: if_splits)
  then obtain a b where args: "args = [a, b]" by (auto simp: numeral_2_eq_2 length_Suc_conv)
  show ?thesis using assms
    by (cases a; cases b) (auto simp: binaryOperands_def args split: if_splits)
qed

lemma mapComparison_Inr:
  assumes "mapComparison op args r neg = Inr w"
  obtains var literalFirst v oriented final f where
    "args = (if literalFirst then [Value v, Variable var] else [Variable var, Value v])"
    "if literalFirst then mirrorOf op = Inr oriented else oriented = op"
    "if neg then negationOf oriented = Inr final else final = oriented"
    "r var = Inr f" "compare f final v = Inr w"
proof -
  obtain b where b: "binaryOperands op args = Inr b" and rest: "(\<lambda>(var, literalFirst, v).
     bindE (if literalFirst then mirrorOf op else Inr op) (\<lambda>oriented.
     bindE (if neg then negationOf oriented else Inr oriented) (\<lambda>op.
     bindE (r var) (\<lambda>f. compare f op v)))) b = Inr w"
    using assms by (auto simp: mapComparison_def bindE_eq_Inr [of _ "\<lambda>_. bindE _ _"]
        bindE_eq_Inr [of "binaryOperands op args"])
  obtain var literalFirst v where b': "b = (var, literalFirst, v)" by (cases b)
  from rest obtain oriented final f where
    "(if literalFirst then mirrorOf op else Inr op) = Inr oriented"
    "(if neg then negationOf oriented else Inr oriented) = Inr final" "r var = Inr f" "compare f final v = Inr w"
    unfolding b' split_conv bindE_eq_Inr by blast
  then show thesis
    by - (rule that [OF binaryOperands_Inr [OF b [unfolded b']], of oriented final f]; simp split: if_splits)
qed

lemma operand_fits_literal: "operand_fits op v \<Longrightarrow> op \<notin> {''in'', ''nin''} \<Longrightarrow> isChromaLiteral v"
  by (auto simp: operand_fits_def split: if_splits)

lemma operand_fits_not_error: "operand_fits op v \<Longrightarrow> v \<noteq> VError"
  by (auto simp: operand_fits_def split: if_splits)

text \<open>The operator as the plan has it, given the key-first operator and its negation.\<close>

lemma oriented_atom_exact:
  assumes "if literalFirst then mirrorOf op = Inr oriented else oriented = op"
    "if neg then negationOf oriented = Inr final else final = oriented"
    "operand_fits final v" "readable s"
  shows "atom final s v = VBool True \<longleftrightarrow> oriented_atom op literalFirst s v = VBool (\<not> neg)"
proof -
  have "atom final s v = VBool True \<longleftrightarrow> atom oriented s v = VBool (\<not> neg)"
    using assms(2,3) atom_negation [OF _ assms(4)] by (cases neg) auto
  also have "atom oriented s v = oriented_atom op literalFirst s v"
  proof (cases literalFirst)
    case True
    then have m: "mirrorOf op = Inr oriented" using assms(1) by simp
    then have "oriented \<notin> {''in'', ''nin''}" by (rule mirrorOf_cases) auto
    then have "final \<notin> {''in'', ''nin''}"
      using assms(2) by (cases neg) (auto elim: negationOf_cases)
    then show ?thesis using atom_mirror [OF m assms(4)] operand_fits_literal [OF assms(3)] True by simp
  qed (use assms(1) in \<open>simp add: oriented_atom_def\<close>)
  finally show ?thesis .
qed

lemma plan_operator:
  assumes "if literalFirst then mirrorOf op = Inr oriented else oriented = op"
    "if neg then negationOf oriented = Inr final else final = oriented"
    "compare f final v = Inr w" "map_of OPERATORS op \<noteq> None"
  shows "cmp_of op \<noteq> None \<or> op = ''in'' \<and> \<not> literalFirst \<and> (\<exists>vs. v = VArr vs)"
proof (cases literalFirst)
  case True
  then have "mirrorOf op = Inr oriented" using assms(1) by simp
  then show ?thesis by (rule mirrorOf_cases) simp_all
next
  case lf: False
  show ?thesis
  proof (cases neg)
    case True
    then have "negationOf op = Inr final" using assms(1,2) lf by simp
    then show ?thesis
      by (rule negationOf_cases) (use compare_operand_fits [OF assms(3)] lf in \<open>auto simp: operand_fits_def\<close>)
  next
    case False
    then have final: "final = op" using assms(1,2) lf by simp
    then obtain c where "map_of COMPARISONS op = Some c"
      using assms(3) by (auto simp: compare_def split: option.splits)
    then show ?thesis
      by (rule COMPARISONS_keys)
        (use compare_operand_fits [OF assms(3)] lf assms(4) in \<open>auto simp: operand_fits_def final\<close>)
  qed
qed

lemma compileCondition_Inr:
  "compileCondition node ctx = Inr c \<Longrightarrow> compileNode node ctx = Inr c"
  by (auto simp: compileCondition_def split: if_splits)

context chroma_server
begin

lemma mapComparison_exact:
  assumes "mapComparison op args (fieldResolver mapping) neg = Inr w"
    "dispatch op (map nodeOf args) ctx = Inr c" "root_context mapping ctx"
    "record_fits float_key mapping m (Expression op args)"
  shows "\<exists>v. run c (empty_env m) = Inr v \<and> (selects w m \<longleftrightarrow> v = VBool (\<not> neg))"
proof -
  obtain var literalFirst v oriented final f where
    args: "args = (if literalFirst then [Value v, Variable var] else [Variable var, Value v])" and
    o: "if literalFirst then mirrorOf op = Inr oriented else oriented = op"
       "if neg then negationOf oriented = Inr final else final = oriented" and
    f: "fieldResolver mapping var = Inr f" and cmp: "compare f final v = Inr w"
    by (rule mapComparison_Inr [OF assms(1)])
  have decl: "storable m" "declared float_key f m"
    using assms(4) f by (auto simp: record_fits_def args split: if_splits)
  have known: "map_of OPERATORS op \<noteq> None" using assms(2) by (auto simp: dispatch_def split: option.splits)
  note fits = compare_operand_fits [OF cmp]
  define s where "s = readMetadata m (name f)"
  have "run c (empty_env m) = Inr (oriented_atom op literalFirst s v)"
    using comparison_run [OF assms(2) [unfolded args] assms(3) f operand_fits_not_error [OF fits]
        plan_operator [OF o cmp known], of "empty_env m"] by (simp add: s_def empty_env_def)
  moreover have "selects w m \<longleftrightarrow> atom final s v = VBool True"
    using compare_exact [OF cmp decl] by (simp add: s_def)
  ultimately show ?thesis
    using oriented_atom_exact [OF o fits] readable_readMetadata by (auto simp: s_def)
qed

lemma mapBooleanVariable_exact:
  assumes "mapBooleanVariable var (fieldResolver mapping) neg = Inr w"
    "compileVariable var ctx = Inr c" "root_context mapping ctx"
    "record_fits float_key mapping m (Variable var)"
  shows "\<exists>v. run c (empty_env m) = Inr v \<and> (selects w m \<longleftrightarrow> v = VBool (\<not> neg))"
proof -
  obtain f where f: "fieldResolver mapping var = Inr f" and
    r: "run c (empty_env m) = Inr (readMetadata m (name f))"
    using compile_variable_run [OF assms(2,3)] by (metis Env.select_convs(1) empty_env_def)
  have cmp: "compare f (if neg then ''ne'' else ''eq'') (VBool True) = Inr w"
    using assms(1) f by (simp add: mapBooleanVariable_def)
  have decl: "storable m" "declared float_key f m" and
    bool: "m (name f) = Some v \<Longrightarrow> typeof v = BooleanType" for v
    using assms(4) f by (auto simp: record_fits_def)
  note sel = compare_exact [OF cmp decl]
  show ?thesis
  proof (cases "m (name f)")
    case (Some v)
    then obtain b where "v = VBool b"
      using storableD [OF decl(1) Some] bool [OF Some] by (auto elim: chromaLiteralE)
    then show ?thesis
      using sel r Some by (cases neg) (auto simp: readMetadata_storable [OF decl(1)] atom_def compare_literals_eq)
  qed (use sel r in \<open>simp add: readMetadata_storable [OF decl(1)] atom_def\<close>)
qed

lemma mapOperand_exact:
  assumes "mapOperand e (fieldResolver mapping) neg = Inr w" "compileCondition (nodeOf e) ctx = Inr c"
    "root_context mapping ctx" "record_fits float_key mapping m e"
  shows "\<exists>v. run c (empty_env m) = Inr v \<and> (selects w m \<longleftrightarrow> v = VBool (\<not> neg))"
  using assms
proof (induction e "fieldResolver mapping" neg arbitrary: w c ctx rule: mapOperand.induct)
  case (1 var neg)
  then show ?case using mapBooleanVariable_exact compileCondition_Inr by fastforce
next
  case (2 op args neg)
  note comp = compileCondition_Inr [OF 2(4), simplified]
  consider (junction) "op = ''and'' \<or> op = ''or''" | (negation) "op = ''not''"
    | (other) "op \<notin> {''and'', ''or'', ''not''}" by blast
  then show ?case
  proof cases
    case junction
    define d where "d = (op = ''or'')"
    have len: "\<not> length args < 2" using 2(3) junction by (auto split: if_splits)
    obtain ws where ws: "mapE (\<lambda>x. mapOperand x (fieldResolver mapping) neg) args = Inr ws"
      and w: "w = (if (op = ''and'') \<noteq> neg then WAnd ws else WOr ws)"
      using 2(3) junction len by (auto simp: bindE_eq_Inr)
    have "Chroma_PostFilter.junction d (map nodeOf args) (ctx\<lparr>parent := op\<rparr>) = Inr c"
      using comp junction by (auto simp: dispatch_def d_def)
    then obtain cs where cs: "mapE (\<lambda>node. compileCondition node (ctx\<lparr>parent := op\<rparr>)) (map nodeOf args) = Inr cs"
      and run: "run c = junction_loop d False cs"
      using len by (auto simp: junction_def bindE_eq_Inr compiled_as_def)
    have l2: "list_all2 (\<lambda>w c. \<exists>v. run c (empty_env m) = Inr v \<and> (selects w m \<longleftrightarrow> v = VBool (\<not> neg))) ws cs"
    proof (rule list_all2_all_nthI)
      have l: "length ws = length args" "length cs = length args"
        using mapE_Inr_length [OF ws] mapE_Inr_length [OF cs] by simp_all
      show "length ws = length cs" using l by simp
      fix i assume i: "i < length ws"
      have a: "args ! i \<in> set args" using i l by simp
      have "mapOperand (args ! i) (fieldResolver mapping) neg = Inr (ws ! i)"
        using ws i by (auto simp: mapE_ok_iff list_all2_conv_all_nth)
      moreover have "compileCondition (nodeOf (args ! i)) (ctx\<lparr>parent := op\<rparr>) = Inr (cs ! i)"
        using cs i l by (auto simp: mapE_ok_iff list_all2_conv_all_nth)
      ultimately show "\<exists>v. run (cs ! i) (empty_env m) = Inr v \<and> (selects (ws ! i) m \<longleftrightarrow> v = VBool (\<not> neg))"
        using 2(1) [OF junction len a] 2(5,6) junction a record_fits_child [of float_key mapping m op args "args ! i"]
        by auto
    qed
    have ok: "\<exists>v. run c (empty_env m) = Inr v" if "c \<in> set cs" for c
      using l2 that by (auto simp: list_all2_conv_all_nth in_set_conv_nth)
    have ex: "(\<exists>w \<in> set ws. selects w m) \<longleftrightarrow> (\<exists>c \<in> set cs. run c (empty_env m) = Inr (VBool (\<not> neg)))"
      and al: "(\<forall>w \<in> set ws. selects w m) \<longleftrightarrow> (\<forall>c \<in> set cs. run c (empty_env m) = Inr (VBool (\<not> neg)))"
      using l2 by (induction rule: list_all2_induct) auto
    obtain v where v: "junction_loop d False cs (empty_env m) = Inr v"
      "v = VBool d \<longleftrightarrow> (\<exists>c \<in> set cs. run c (empty_env m) = Inr (VBool d))"
      "v = VBool (\<not> d) \<longleftrightarrow> (\<forall>c \<in> set cs. run c (empty_env m) = Inr (VBool (\<not> d)))"
      using junction_loop_decides [OF ok, of cs d False] by auto
    have "selects w m \<longleftrightarrow> v = VBool (\<not> neg)"
    proof (cases "neg = d")
      case True
      then have "(op = ''and'') \<noteq> neg" using junction by (auto simp: d_def)
      then show ?thesis using v(3) al True by (simp add: w and_law)
    next
      case False
      then have "\<not> (op = ''and'') \<noteq> neg" "(\<not> neg) = d" using junction by (auto simp: d_def)
      then show ?thesis using v(2) ex by (simp add: w or_law)
    qed
    then show ?thesis using v(1) by (simp add: run)
  next
    case negation
    obtain child where args: "args = [child]" and w: "mapOperand child (fieldResolver mapping) (\<not> neg) = Inr w"
      using 2(3) negation by (auto split: list.splits)
    obtain c' where c': "compileCondition (nodeOf child) (ctx\<lparr>parent := op\<rparr>) = Inr c'"
      and run: "run c = (\<lambda>env. bindE (run c' env) (\<lambda>v. Inr (case asBoolean v of VBool b \<Rightarrow> VBool (\<not> b) | e \<Rightarrow> e)))"
      using comp by (auto simp: negation dispatch_def Chroma_PostFilter.negation_def exactly_def args bindE_eq_Inr compiled_as_def)
    obtain v where v: "run c' (empty_env m) = Inr v" "selects w m \<longleftrightarrow> v = VBool neg"
      using 2(2) [OF _ negation args _ w c'] 2(5) record_fits_child [OF 2(6), of child]
      by (simp add: args negation) blast
    then show ?thesis by (cases v) (auto simp: run)
  next
    case other
    then have "mapComparison op args (fieldResolver mapping) neg = Inr w" using 2(3) by (auto split: if_splits)
    then show ?thesis using mapComparison_exact comp 2(5,6) by blast
  qed
qed simp_all

end

end
