(* ===== verification/Chroma_Correct.thy ===== *)
theory Chroma_Correct
  imports Chroma_Exact
begin

text \<open>
  The ChromaDB adapter's promise, end to end: whatever \<open>queryPlanToChromaDB\<close> returns, the records a caller
  ends up with are those on which the whole plan, compiled as a post-filter, is true.
\<close>

subsection \<open>Running a result\<close>

text \<open>The filter goes to the query and the post-filter decides every record the query returns.\<close>

fun run_chroma :: "(Where \<Rightarrow> metadata \<Rightarrow> bool) \<Rightarrow> metadata \<Rightarrow> QueryPlanToChromaDBResult \<Rightarrow> failure + bool" where
  "run_chroma selects m ResultAllowed = Inr True"
| "run_chroma selects m ResultDenied = Inr False"
| "run_chroma selects m (ResultConditional filters post) =
     (if (case filters of Some w \<Rightarrow> selects w m | None \<Rightarrow> True)
      then (case post of Some p \<Rightarrow> p (Some m) | None \<Rightarrow> Inr True)
      else Inr False)"

text \<open>The record fits the parts of the plan that go to Chroma.\<close>

definition expressible :: "FieldMapper \<Rightarrow> operand \<Rightarrow> bool" where
  "expressible mapping e \<longleftrightarrow> (\<exists>w. mapOperand e (fieldResolver mapping) False = Inr w)"

definition pushed_record_fits :: "(jstring \<Rightarrow> bool) \<Rightarrow> FieldMapper \<Rightarrow> metadata \<Rightarrow> operand \<Rightarrow> bool" where
  "pushed_record_fits float_key mapping m e \<longleftrightarrow>
     (if expressible mapping e then record_fits float_key mapping m e
      else is_splittable e \<longrightarrow>
        (\<forall>x \<in> set (subOperands e). expressible mapping x \<longrightarrow> record_fits float_key mapping m x))"

definition root_ctx :: "FieldMapper \<Rightarrow> int \<Rightarrow> Context" where
  "root_ctx mapping now =
     \<lparr>mappedFields = postFilterFields mapping (fieldResolver mapping), bindingTypes = (\<lambda>_. None),
      parent = ''eq'', clock = now\<rparr>"

lemma root_ctx_root [simp]: "root_context mapping (root_ctx mapping now)"
  by (simp add: root_ctx_def root_context_def)

text \<open>The whole plan as a post-filter: what the adapter's result is measured against.\<close>

definition whole_post_filter :: "FieldMapper \<Rightarrow> int \<Rightarrow> operand \<Rightarrow> failure + PostFilter" where
  "whole_post_filter mapping now e = compilePostFilter now e (postFilterFields mapping (fieldResolver mapping))"

lemma whole_post_filter_Inr:
  assumes "whole_post_filter mapping now e = Inr p"
  obtains c where "compileCondition (nodeOf e) (root_ctx mapping now) = Inr c"
    "\<And>m. p (Some m) = bindE (run c (empty_env m)) (\<lambda>v. Inr (v = VBool True))"
  using assms by (auto simp: whole_post_filter_def compilePostFilter_def root_ctx_def bindE_eq_Inr)

lemma compile_any_parent:
  "compileNode (nodeOf e) (ctx\<lparr>parent := p\<rparr>) = Inr c \<Longrightarrow> compileNode (nodeOf e) ctx = Inr c"
  by (cases e) (auto simp: compileVariable_def compileValue_def dispatch_def Let_def split: if_splits option.splits)

lemma compileCondition_any_parent:
  "compileCondition (nodeOf e) (ctx\<lparr>parent := p\<rparr>) = Inr c \<Longrightarrow> compileCondition (nodeOf e) ctx = Inr c"
  by (auto simp: compileCondition_def intro: compile_any_parent split: if_splits)

lemma compileCondition_change_parent:
  assumes "compileCondition (nodeOf e) ctx = Inr c"
  shows "compileCondition (nodeOf e) (ctx\<lparr>parent := p\<rparr>) = Inr c"
  by (rule compileCondition_any_parent [where p = "parent ctx"]) (use assms in simp)

lemma junction_loop_saw: "junction_loop False True cs env \<noteq> Inr (VBool True)"
proof (induction cs)
  case (Cons c cs)
  then show ?case by (cases "run c env") (auto simp: Let_def)
qed simp

lemma junction_loop_step:
  "junction_loop False saw (c # cs) env =
     (case run c env of
        Inl e \<Rightarrow> Inl e
      | Inr v \<Rightarrow>
          if v = VBool False then Inr (VBool False)
          else junction_loop False (saw \<or> v \<noteq> VBool True) cs env)"
proof (cases "run c env")
  case (Inr v)
  then show ?thesis by (cases v) (auto simp: isEvaluationError_def)
qed simp

lemma junction_loop_all_true:
  "junction_loop False saw cs env = Inr (VBool True) \<Longrightarrow> c \<in> set cs \<Longrightarrow> run c env = Inr (VBool True)"
proof (induction cs arbitrary: saw)
  case (Cons c' cs)
  have v: "run c' env = Inr (VBool True)"
  proof (rule ccontr)
    assume "run c' env \<noteq> Inr (VBool True)"
    then show False
      using Cons.prems(1) junction_loop_saw [of cs env]
      by (auto simp: junction_loop_step simp del: junction_loop.simps split: sum.splits if_splits)
  qed
  then show ?case using Cons by (auto simp: junction_loop_step simp del: junction_loop.simps)
qed simp

text \<open>Which conjuncts are pushed, and what the rest decides.\<close>

lemma tryPushdown_Inr:
  "tryPushdown e r = Inr (Some w) \<longleftrightarrow> mapOperand e r False = Inr w"
  "tryPushdown e r = Inr None \<Longrightarrow> \<nexists>w. mapOperand e r False = Inr w"
  by (auto simp: tryPushdown_def split: sum.splits failure.splits)

lemma split_conjuncts_exact:
  assumes "split_conjuncts r args = Inr (pushed, rest)"
    "mapE (\<lambda>x. compileCondition (nodeOf x) ctx) args = Inr cs"
    "\<And>x w c. x \<in> set args \<Longrightarrow> mapOperand x r False = Inr w \<Longrightarrow> compileCondition (nodeOf x) ctx = Inr c \<Longrightarrow>
       sel w \<longleftrightarrow> run c env = Inr (VBool True)"
  shows "\<exists>crest. mapE (\<lambda>x. compileCondition (nodeOf x) ctx) rest = Inr crest \<and>
    (if \<forall>w \<in> set pushed. sel w
     then \<forall>saw. junction_loop False saw cs env = junction_loop False saw crest env
     else \<exists>c \<in> set cs. run c env \<noteq> Inr (VBool True))"
  using assms
proof (induction args arbitrary: pushed rest cs)
  case (Cons x args)
  obtain t pushed' rest' where t: "tryPushdown x r = Inr t" and sp: "split_conjuncts r args = Inr (pushed', rest')"
    and pr: "(pushed, rest) = (case t of None \<Rightarrow> (pushed', x # rest') | Some w \<Rightarrow> (w # pushed', rest'))"
    using Cons.prems(1) by (auto simp: bindE_eq_Inr split: prod.splits)
  obtain c cs' where c: "compileCondition (nodeOf x) ctx = Inr c"
    "mapE (\<lambda>x. compileCondition (nodeOf x) ctx) args = Inr cs'" "cs = c # cs'"
    using Cons.prems(2) by (auto simp: bindE_eq_Inr)
  obtain crest where IH: "mapE (\<lambda>x. compileCondition (nodeOf x) ctx) rest' = Inr crest"
    "if \<forall>w \<in> set pushed'. sel w
     then \<forall>saw. junction_loop False saw cs' env = junction_loop False saw crest env
     else \<exists>c \<in> set cs'. run c env \<noteq> Inr (VBool True)"
    using Cons.IH [OF sp c(2)] Cons.prems(3) by auto
  show ?case
  proof (cases t)
    case None
    then show ?thesis using IH pr c by (auto simp: junction_loop_step simp del: junction_loop.simps split: if_splits sum.splits)
  next
    case (Some w)
    then have "sel w \<longleftrightarrow> run c env = Inr (VBool True)"
      using Cons.prems(3) [of x w c] t c(1) by (simp add: tryPushdown_Inr)
    then show ?thesis using IH pr c Some by (auto simp: junction_loop_step simp del: junction_loop.simps split: if_splits)
  qed
qed auto

lemma compileCondition_and:
  assumes "compileCondition (nodeOf (Expression ''and'' args)) (root_ctx mapping now) = Inr c"
  obtains cs where "mapE (\<lambda>x. compileCondition (nodeOf x) (root_ctx mapping now)) args = Inr cs"
    "run c = junction_loop False False cs"
proof -
  have "junction False (map nodeOf args) ((root_ctx mapping now)\<lparr>parent := ''and''\<rparr>) = Inr c"
    using compileCondition_Inr [OF assms] by (simp add: dispatch_def)
  then obtain cs where "mapE (\<lambda>n. compileCondition n ((root_ctx mapping now)\<lparr>parent := ''and''\<rparr>)) (map nodeOf args) = Inr cs"
    "run c = junction_loop False False cs"
    by (auto simp: junction_def bindE_eq_Inr compiled_as_def split: if_splits)
  moreover from this(1) have "mapE (\<lambda>x. compileCondition (nodeOf x) (root_ctx mapping now)) args = Inr cs"
    by (auto simp: mapE_ok_iff list_all2_map1 elim!: list_all2_mono intro: compileCondition_any_parent)
  ultimately show thesis using that by blast
qed

lemma rest_post_filter:
  assumes "mapE (\<lambda>x. compileCondition (nodeOf x) (root_ctx mapping now)) rest = Inr crest"
    "whole_post_filter mapping now (if length rest = 1 then hd rest else Expression ''and'' rest) = Inr p"
    "junction_loop False False crest (empty_env m) = Inr v"
  shows "p (Some m) = Inr (v = VBool True)"
proof (cases "length rest = 1")
  case True
  then obtain x where rest: "rest = [x]" by (cases rest) auto
  obtain c where c: "compileCondition (nodeOf x) (root_ctx mapping now) = Inr c"
    "\<And>m. p (Some m) = bindE (run c (empty_env m)) (\<lambda>v. Inr (v = VBool True))"
    using whole_post_filter_Inr [OF assms(2)] rest by auto
  then have "crest = [c]" using assms(1) by (simp add: rest)
  then show ?thesis
    using assms(3) c(2) by (auto simp: junction_loop_step simp del: junction_loop.simps split: sum.splits if_splits)
      (simp_all split: if_splits)
next
  case False
  obtain c where c: "compileCondition (nodeOf (Expression ''and'' rest)) (root_ctx mapping now) = Inr c"
    "\<And>m. p (Some m) = bindE (run c (empty_env m)) (\<lambda>v. Inr (v = VBool True))"
    using whole_post_filter_Inr [OF assms(2)] False by auto
  obtain cs where "mapE (\<lambda>x. compileCondition (nodeOf x) (root_ctx mapping now)) rest = Inr cs"
    "run c = junction_loop False False cs" by (rule compileCondition_and [OF c(1)])
  then show ?thesis using assms(1,3) c(2) by simp
qed

context chroma_server
begin

lemma pushed_exact:
  assumes "mapOperand e (fieldResolver mapping) False = Inr w" "whole_post_filter mapping now e = Inr p"
    "record_fits float_key mapping m e"
  shows "p (Some m) = Inr (selects w m)"
proof -
  obtain c where c: "compileCondition (nodeOf e) (root_ctx mapping now) = Inr c"
    "p (Some m) = bindE (run c (empty_env m)) (\<lambda>v. Inr (v = VBool True))"
    using whole_post_filter_Inr [OF assms(2)] by metis
  then show ?thesis using mapOperand_exact [OF assms(1) c(1) _ assms(3)] by auto
qed

lemma splitCondition_exact:
  assumes "splitCondition now e mapping (fieldResolver mapping) = Inr res" "whole_post_filter mapping now e = Inr p"
    "pushed_record_fits float_key mapping m e" "p (Some m) = Inr b"
  shows "run_chroma selects m res = Inr b"
proof -
  obtain t where t: "tryPushdown e (fieldResolver mapping) = Inr t"
    using assms(1) by (auto simp: splitCondition_def bindE_eq_Inr)
  show ?thesis
  proof (cases t)
    case (Some w)
    then have w: "mapOperand e (fieldResolver mapping) False = Inr w" using t by (simp add: tryPushdown_Inr)
    then have "record_fits float_key mapping m e"
      using assms(3) by (auto simp: pushed_record_fits_def expressible_def)
    then show ?thesis
      using pushed_exact [OF w assms(2)] assms(1,4) t Some by (auto simp: splitCondition_def)
  next
    case None
    have nex: "\<not> expressible mapping e" using tryPushdown_Inr(2) t None by (auto simp: expressible_def)
    show ?thesis
    proof (cases "is_splittable e")
      case False
      then have "res = ResultConditional None (Some p)"
        using assms(1,2) t None by (simp add: splitCondition_def whole_post_filter_def)
      then show ?thesis using assms(4) by simp
    next
      case True
      then obtain args where e: "e = Expression ''and'' args"
        by (cases e) (auto simp: is_splittable_def is_operator_def)
      obtain pushed rest p' where sp: "split_conjuncts (fieldResolver mapping) args = Inr (pushed, rest)"
        and p': "whole_post_filter mapping now (if length rest = 1 then hd rest else Expression ''and'' rest) = Inr p'"
        and res: "res = ResultConditional (if pushed = [] then None
            else Some (if length pushed = 1 then hd pushed else WAnd pushed)) (Some p')"
        using assms(1) t None True
        by (auto simp: splitCondition_def e whole_post_filter_def bindE_eq_Inr Let_def split: if_splits)
      obtain c where c: "compileCondition (nodeOf e) (root_ctx mapping now) = Inr c"
        "p (Some m) = bindE (run c (empty_env m)) (\<lambda>v. Inr (v = VBool True))"
        using whole_post_filter_Inr [OF assms(2)] by metis
      obtain cs where cs: "mapE (\<lambda>x. compileCondition (nodeOf x) (root_ctx mapping now)) args = Inr cs"
        "run c = junction_loop False False cs" by (rule compileCondition_and [OF c(1) [unfolded e]])
      have sel: "selects w m \<longleftrightarrow> run c (empty_env m) = Inr (VBool True)"
        if "x \<in> set args" "mapOperand x (fieldResolver mapping) False = Inr w"
          "compileCondition (nodeOf x) (root_ctx mapping now) = Inr c" for x w c
      proof -
        have "record_fits float_key mapping m x"
          using assms(3) nex True that by (auto simp: pushed_record_fits_def expressible_def e)
        from mapOperand_exact [OF that(2,3) root_ctx_root this] show ?thesis by auto
      qed
      obtain v where v: "junction_loop False False cs (empty_env m) = Inr v" "b = (v = VBool True)"
        using assms(4) c(2) cs(2) by (auto simp: bindE_eq_Inr)
      have filt: "(case (if pushed = [] then None
            else Some (if length pushed = 1 then hd pushed else WAnd pushed)) of Some w \<Rightarrow> selects w m | None \<Rightarrow> True)
          \<longleftrightarrow> (\<forall>w \<in> set pushed. selects w m)"
        by (cases pushed) (auto simp: and_law)
      obtain crest where crest: "mapE (\<lambda>x. compileCondition (nodeOf x) (root_ctx mapping now)) rest = Inr crest"
        "if \<forall>w \<in> set pushed. selects w m
         then \<forall>saw. junction_loop False saw cs (empty_env m) = junction_loop False saw crest (empty_env m)
         else \<exists>c \<in> set cs. run c (empty_env m) \<noteq> Inr (VBool True)"
        using split_conjuncts_exact [OF sp cs(1), of "\<lambda>w. selects w m" "empty_env m"] sel by blast
      show ?thesis
      proof (cases "\<forall>w \<in> set pushed. selects w m")
        case True
        then have "junction_loop False False crest (empty_env m) = Inr v" using crest(2) v(1) by simp
        then show ?thesis using rest_post_filter [OF crest(1) p'] v(2) True by (simp add: res filt)
      next
        case False
        then have "\<exists>c \<in> set cs. run c (empty_env m) \<noteq> Inr (VBool True)"
          using crest(2) by (simp only: if_False)
        then have "v \<noteq> VBool True" using v(1) by (auto dest: junction_loop_all_true)
        then show ?thesis using v(2) False by (auto simp: res filt)
      qed
    qed
  qed
qed

text \<open>Every key the plan reads is optional and absent: no comparison selects the record.\<close>

lemma missing_compare:
  assumes "compare f op v = Inr w" "storable m" "m (name f) = None" "\<not> isRequired f"
    "numericType f = Some FloatType \<longrightarrow> float_key (name f)"
  shows "\<not> selects w m"
  using compare_exact [OF assms(1,2)] assms
  by (simp add: declared_def readMetadata_storable atom_def)

lemma missing_mapOperand:
  assumes "mapOperand e r neg = Inr w" "storable m"
    "\<forall>var \<in> set (references e). \<forall>f. r var = Inr f \<longrightarrow>
       m (name f) = None \<and> \<not> isRequired f \<and> (numericType f = Some FloatType \<longrightarrow> float_key (name f))"
  shows "\<not> selects w m"
  using assms(1,3)
proof (induction e r neg arbitrary: w rule: mapOperand.induct)
  case (1 var r neg)
  then show ?case
    using missing_compare [OF _ assms(2)] by (auto simp: mapBooleanVariable_def bindE_eq_Inr)
next
  case (2 op args r neg)
  have child: "\<forall>var \<in> set (references x). \<forall>f. r var = Inr f \<longrightarrow>
       m (name f) = None \<and> \<not> isRequired f \<and> (numericType f = Some FloatType \<longrightarrow> float_key (name f))"
    if "x \<in> set args" for x
    using 2(4) that by auto
  consider (junction) "op = ''and'' \<or> op = ''or''" | (negation) "op = ''not''"
    | (other) "op \<notin> {''and'', ''or'', ''not''}" by blast
  then show ?case
  proof cases
    case junction
    then obtain ws where len: "\<not> length args < 2" and ws: "mapE (\<lambda>x. mapOperand x r neg) args = Inr ws"
      and w: "w = (if (op = ''and'') \<noteq> neg then WAnd ws else WOr ws)"
      using 2(3) by (auto simp: bindE_eq_Inr split: if_splits)
    have none: "\<not> selects w' m" if w': "w' \<in> set ws" for w'
    proof -
      obtain x where "x \<in> set args" "mapOperand x r neg = Inr w'"
        using ws w' by (auto simp: mapE_ok_iff list_all2_conv_all_nth in_set_conv_nth) (metis nth_mem)
      then show ?thesis using 2(1) [OF junction len] child by blast
    qed
    have "ws \<noteq> []" using len mapE_Inr_length [OF ws] by auto
    then show ?thesis using none by (auto simp: w and_law or_law)
  next
    case negation
    then obtain child_operand where args: "args = [child_operand]"
      and w: "mapOperand child_operand r (\<not> neg) = Inr w"
      using 2(3) by (auto split: list.splits)
    show ?thesis
      by (rule 2(2) [OF _ negation args refl w]) (use negation child args in auto)
  next
    case other
    then have "mapComparison op args r neg = Inr w" using 2(3) by (auto split: if_splits)
    then obtain var literalFirst v final f where
      "args = (if literalFirst then [Value v, Variable var] else [Variable var, Value v])"
      "r var = Inr f" "compare f final v = Inr w"
      by (rule mapComparison_Inr)
    then show ?thesis using missing_compare [OF _ assms(2)] 2(4) by (auto split: if_splits)
  qed
qed simp_all

end

subsection \<open>A sample\<close>

definition sample_fields :: FieldMapper where
  "sample_fields = FieldRecord
     [(js ''count'', FieldConfig \<lparr>field = js ''n'', required = None, config_numericType = Some IntegerType,
         config_valueType = None\<rparr>),
      (js ''title'', FieldName (js ''title''))]"

definition sample_condition :: operand where
  "sample_condition = Expression ''and''
     [Expression ''ne'' [Variable (js ''count''), Value (VInt 5)],
      Expression ''contains'' [Variable (js ''title''), Value (VStr (js ''a''))]]"

definition sample_record :: metadata where
  "sample_record = [js ''n'' \<mapsto> VInt 3, js ''title'' \<mapsto> VStr (js ''ab'')]"

lemma js_distinct [simp]: "js ''count'' \<noteq> js ''title''" "js ''n'' \<noteq> js ''title''" "js ''title'' \<noteq> js ''count''"
  "js ''title'' \<noteq> js ''n''"
  by (simp_all add: js_def)

lemma sample_resolve [simp]:
  "fieldResolver sample_fields (js ''count'') =
     Inr \<lparr>name = js ''n'', numericType = Some IntegerType, valueType = None, isRequired = False\<rparr>"
  "fieldResolver sample_fields (js ''title'') =
     Inr \<lparr>name = js ''title'', numericType = None, valueType = None, isRequired = False\<rparr>"
  by (simp_all add: fieldResolver_def sample_fields_def Let_def, simp_all add: js_def)

lemma sample_pushed:
  "mapComparison ''ne'' [Variable (js ''count''), Value (VNum (Fin 5))] (fieldResolver sample_fields) False =
     Inr (WOr [Clause (js ''n'') C_lt (VInt 5), Clause (js ''n'') C_gt (VInt 5)])"
  by (simp add: mapComparison_def binaryOperands_def compare_def inequalityWithoutNe_def Let_def)

lemma sample_not_pushed:
  "mapComparison ''contains'' [Variable (js ''title''), Value (VStr (js ''a''))] (fieldResolver sample_fields) False =
     unsupported ''contains''"
  by (simp add: mapComparison_def binaryOperands_def compare_def COMPARISONS_def)

lemma sample_no_dot [simp]: "root_name (js ''count'') = js ''count''" "root_name (js ''title'') = js ''title''"
  by (simp_all add: root_name_def js_def dot_def)

lemma sample_compiles:
  "\<exists>c. compileCondition (nodeOf sample_condition) (root_ctx sample_fields now) = Inr c \<and>
     run c (empty_env sample_record) = Inr (VBool True)"
proof -
  have mapped: "isMapped (postFilterFields sample_fields r) (js ''count'')" "isMapped (postFilterFields sample_fields r) (js ''title'')" for r
    by (simp_all add: postFilterFields_def sample_fields_def)
  have contains: "map_of OPERATORS ''contains'' = Some (stringTest js_includes)" by (simp add: OPERATORS_def)
  have ne: "compareValues Ne (VNum (Fin 3)) (VNum (Fin 5)) = VBool True"
    by (simp add: compareValues_def isEvaluationError_def numericEqual_def)
  have inc: "js_includes (js ''ab'') (js ''a'')" by (simp add: js_def startsWith_def)
  show ?thesis
    by (simp add: sample_condition_def compileCondition_def is_operator_def dispatch_def junction_def contains
        comparison_def stringTest_def strict_def compileAll_def exactly_def compileVariable_def compileValue_def
        root_ctx_def mapped compiled_as_def const_compiled_def with_values_def binary_def Let_def)
      (simp add: postFilterFields_def compiled_as_def empty_env_def readMetadata_def sample_record_def isEvaluationError_def
        ne inc with_values_def binary_def Let_def)
qed

definition sample_args :: QueryPlanToChromaDBArgs where
  "sample_args = \<lparr>queryPlan = Conditional sample_condition, fieldNameMapper = sample_fields, allowPostFilter = True\<rparr>"

lemma sample_whole:
  "\<exists>p. whole_post_filter sample_fields now sample_condition = Inr p \<and> p (Some sample_record) = Inr True"
  using sample_compiles [of now] by (auto simp: whole_post_filter_def compilePostFilter_def root_ctx_def)

lemma sample_plan_translates: "\<exists>res. queryPlanToChromaDB now sample_args = Inr res"
proof -
  have ne: "tryPushdown sample_condition (fieldResolver sample_fields) = Inr None"
    by (simp add: tryPushdown_def sample_condition_def sample_pushed sample_not_pushed)
  have split: "split_conjuncts (fieldResolver sample_fields) (subOperands sample_condition) =
      Inr ([WOr [Clause (js ''n'') C_lt (VInt 5), Clause (js ''n'') C_gt (VInt 5)]],
        [Expression ''contains'' [Variable (js ''title''), Value (VStr (js ''a''))]])"
    by (simp add: tryPushdown_def sample_condition_def sample_pushed sample_not_pushed)
  obtain c where "compileCondition (nodeOf sample_condition) (root_ctx sample_fields now) = Inr c"
    using sample_compiles by blast
  then obtain cs where "mapE (\<lambda>x. compileCondition (nodeOf x) (root_ctx sample_fields now)) (subOperands sample_condition) = Inr cs"
    unfolding sample_condition_def subOperands.simps by (rule compileCondition_and)
  then obtain c' where
    "compileCondition (nodeOf (Expression ''contains'' [Variable (js ''title''), Value (VStr (js ''a''))])) (root_ctx sample_fields now) = Inr c'"
    by (auto simp: sample_condition_def bindE_eq_Inr simp del: nodeOf.simps)
  then obtain p where "compilePostFilter now (Expression ''contains'' [Variable (js ''title''), Value (VStr (js ''a''))])
      (postFilterFields sample_fields (fieldResolver sample_fields)) = Inr p"
    by (auto simp: compilePostFilter_def root_ctx_def)
  moreover have "is_splittable sample_condition"
    by (simp add: is_splittable_def is_operator_def sample_condition_def)
  ultimately show ?thesis
    by (simp add: queryPlanToChromaDB_def sample_args_def splitCondition_def Let_def ne split)
qed

lemma sample_storable: "storable sample_record"
  by (auto simp: storable_def sample_record_def split: if_splits)

lemma sample_record_fits: "pushed_record_fits (\<lambda>_. True) sample_fields sample_record sample_condition"
proof -
  have "record_fits (\<lambda>_. True) sample_fields sample_record
      (Expression ''ne'' [Variable (js ''count''), Value (VInt 5)])"
    by (simp add: record_fits_def sample_storable declared_def) (simp add: sample_record_def)
  then show ?thesis
    by (auto simp: pushed_record_fits_def sample_condition_def expressible_def sample_not_pushed bindE_eq_Inr)
qed

subsection \<open>Properties\<close>

text \<open>
  C5. Against every server that meets the documented laws, the result of a plan (a filter, a post-filter or
  both) grants a record exactly when the whole plan, run as a post-filter, is true on it, provided the whole
  plan compiles as a post-filter and its predicate returns a verdict on the record and does not throw. The record
  must fit the parts of the plan that go to Chroma (\<open>pushed_record_fits\<close>): its metadata are the scalars Chroma
  stores, it honours what the mapper declares of every reference (required keys are present, integer keys
  hold integers, boolean keys booleans, float keys are the server's float keys), and, whatever the mapper
  declares, a reference that is a condition by itself holds a boolean where it is present, without which the
  property is false (C10).
\<close>

theorem chroma_plan_grants_exactly:
  assumes "chroma_server selects float_key" "queryPlanToChromaDB now args = Inr res"
    "queryPlan args = Conditional e" "whole_post_filter (fieldNameMapper args) now e = Inr p"
    "pushed_record_fits float_key (fieldNameMapper args) m e" "p (Some m) = Inr b"
  shows "run_chroma selects m res = Inr b"
proof (cases "allowPostFilter args")
  case True
  then show ?thesis
    using chroma_server.splitCondition_exact [OF assms(1) _ assms(4,5,6)] assms(2,3)
    by (simp add: queryPlanToChromaDB_def Let_def)
next
  case False
  then obtain w where w: "mapOperand e (fieldResolver (fieldNameMapper args)) False = Inr w"
    and res: "res = ResultConditional (Some w) None"
    using assms(2,3) by (auto simp: queryPlanToChromaDB_def Let_def bindE_eq_Inr)
  then show ?thesis
    using chroma_server.pushed_exact [OF assms(1) w assms(4), of m] assms(5,6)
    by (auto simp: pushed_record_fits_def expressible_def)
qed

theorem chroma_plan_grants_exactly_witness:
  "\<exists>res. queryPlanToChromaDB 0 sample_args = Inr res \<and> run_chroma where_holds sample_record res = Inr True"
proof -
  obtain res where "queryPlanToChromaDB 0 sample_args = Inr res" using sample_plan_translates by blast
  moreover obtain p where "whole_post_filter sample_fields 0 sample_condition = Inr p" "p (Some sample_record) = Inr True"
    using sample_whole by blast
  ultimately show ?thesis
    using chroma_plan_grants_exactly [OF reference.chroma_server_axioms, of 0 sample_args res sample_condition p
        sample_record True] sample_record_fits
    by (simp add: sample_args_def)
qed

text \<open>
  C6. The translation of a condition is exact under both polarities: for a condition that translates to a filter
  and also compiles as a post-filter outside every lambda, the filter for the condition selects the records on
  which the compiled condition is true, the filter for its negation those on which it is false, and a record on
  which it is an error is selected by neither. The server meets the documented laws, and the record fits the
  condition (\<open>record_fits\<close>): its metadata are the scalars Chroma stores, it honours what the mapper declares of
  every reference (required keys are present, integer keys hold integers, boolean keys booleans, float keys are
  the server's float keys), and a reference that is a condition by itself holds a boolean where it is present,
  without which the property is false (C10).
\<close>

theorem chroma_pushdown_exact:
  assumes "chroma_server selects float_key" "mapOperand e (fieldResolver mapping) neg = Inr w"
    "compileCondition (nodeOf e) ctx = Inr c" "root_context mapping ctx" "record_fits float_key mapping m e"
  shows "\<exists>v. run c (empty_env m) = Inr v \<and> (selects w m \<longleftrightarrow> v = VBool (\<not> neg))"
  using assms by (rule chroma_server.mapOperand_exact)

definition sample_comparison :: operand where
  "sample_comparison = Expression ''ne'' [Variable (js ''count''), Value (VInt 5)]"

lemma sample_comparison_fits: "record_fits (\<lambda>_. True) sample_fields sample_record sample_comparison"
  by (simp add: record_fits_def sample_storable declared_def sample_comparison_def) (simp add: sample_record_def)

theorem chroma_pushdown_exact_witness:
  "\<exists>c v. compileCondition (nodeOf sample_comparison) (root_ctx sample_fields 0) = Inr c \<and>
     run c (empty_env sample_record) = Inr v \<and>
     (where_holds (WOr [Clause (js ''n'') C_lt (VInt 5), Clause (js ''n'') C_gt (VInt 5)]) sample_record \<longleftrightarrow> v = VBool True)"
proof -
  obtain c where "compileCondition (nodeOf sample_condition) (root_ctx sample_fields 0) = Inr c"
    using sample_compiles by blast
  then obtain cs where "mapE (\<lambda>x. compileCondition (nodeOf x) (root_ctx sample_fields 0))
      [sample_comparison, Expression ''contains'' [Variable (js ''title''), Value (VStr (js ''a''))]] = Inr cs"
    unfolding sample_condition_def sample_comparison_def by (rule compileCondition_and)
  then obtain c' where c': "compileCondition (nodeOf sample_comparison) (root_ctx sample_fields 0) = Inr c'"
    by (auto simp: bindE_eq_Inr simp del: nodeOf.simps)
  have "mapOperand sample_comparison (fieldResolver sample_fields) False =
      Inr (WOr [Clause (js ''n'') C_lt (VInt 5), Clause (js ''n'') C_gt (VInt 5)])"
    by (simp add: sample_comparison_def sample_pushed)
  from chroma_pushdown_exact [OF reference.chroma_server_axioms this c' root_ctx_root sample_comparison_fits] c'
  show ?thesis by blast
qed

text \<open>
  C9. A record that carries none of the keys a plan reads is selected by no filter, in either polarity, unless
  the mapper declares one of them required: the \<open>$ne\<close> and \<open>$nin\<close> of Chroma, which match such a record, are
  never emitted for an optional key.
\<close>

theorem missing_keys_never_match:
  assumes "chroma_server selects float_key" "mapOperand e r neg = Inr w" "storable m"
    "\<forall>var \<in> set (references e). \<forall>f. r var = Inr f \<longrightarrow>
       m (name f) = None \<and> \<not> isRequired f \<and> (numericType f = Some FloatType \<longrightarrow> float_key (name f))"
  shows "\<not> selects w m"
  using assms by (rule chroma_server.missing_mapOperand)

theorem missing_keys_never_match_witness:
  "\<not> where_holds (WOr [Clause (js ''n'') C_lt (VInt 5), Clause (js ''n'') C_gt (VInt 5)]) (\<lambda>_. None)"
  by (rule missing_keys_never_match [OF reference.chroma_server_axioms, of sample_comparison "fieldResolver sample_fields" False])
    (simp_all add: sample_comparison_def sample_pushed storable_def)

text \<open>
  C12. A mixed list is partitioned by type: every value is in exactly one part, the parts are uniform, as
  Chroma's \<open>$in\<close> and \<open>$nin\<close> require, and each keeps its values' order.
\<close>

theorem splitByType_partition:
  "mset (concat (splitByType vs)) = mset vs \<and>
   (\<forall>members. members \<in> set (splitByType vs) \<longleftrightarrow>
      members \<noteq> [] \<and> (\<exists>t. members = filter (\<lambda>v. typeof v = t) vs)) \<and>
   distinct (map (\<lambda>members. typeof (hd members)) (splitByType vs))"
proof -
  have heads: "map (\<lambda>members. typeof (hd members)) (splitByType vs) = map fst (type_groups vs)"
    unfolding splitByType_def type_groups_def [symmetric] map_map
  proof (rule map_cong [OF refl])
    fix g assume "g \<in> set (type_groups vs)"
    then have "(fst g, snd g) \<in> set (type_groups vs)" by simp
    then have "snd g = filter (\<lambda>v. typeof v = fst g) vs" "snd g \<noteq> []"
      unfolding type_groups_mem by blast+
    then have "hd (snd g) \<in> set (filter (\<lambda>v. typeof v = fst g) vs)" by (metis hd_in_set)
    then show "((\<lambda>members. typeof (hd members)) \<circ> snd) g = fst g" by simp
  qed
  have "mset (concat (splitByType vs)) = mset vs"
    using type_groups_concat [of vs] by (simp add: splitByType_def type_groups_def)
  then show ?thesis
    using type_groups_distinct [of vs] splitByType_mem unfolding heads by blast
qed

subsection \<open>The hypothesis on bare references is needed\<close>

definition negated_count :: operand where
  "negated_count = Expression ''not'' [Variable (js ''count'')]"

lemma negated_count_error:
  assumes "storable m" "m (js ''n'') = Some (VNum y)"
  shows "\<exists>c. compileCondition (nodeOf negated_count) (root_ctx sample_fields now) = Inr c \<and> run c (empty_env m) = Inr VError"
proof -
  have "isMapped (postFilterFields sample_fields r) (js ''count'')" for r
    by (simp add: postFilterFields_def sample_fields_def)
  then show ?thesis
    by (simp add: negated_count_def compileCondition_def is_operator_def dispatch_def negation_def exactly_def compileVariable_def
        compiled_as_def root_ctx_def Let_def)
      (simp add: postFilterFields_def compiled_as_def empty_env_def readMetadata_storable [OF assms(1)] assms(2))
qed

text \<open>
  C10. The hypothesis on bare references is needed: let a mapper declare the key \<open>n\<close> of the reference \<open>count\<close> an
  integer, and take the condition \<open>not(count)\<close>. It becomes the filter for "any integer", which, on every server
  that meets the documented laws, selects every record of scalars that holds a number under \<open>n\<close>. On each of these
  records the condition compiled as a post-filter is the evaluation error, and the predicate of the post-filter
  denies the record.
\<close>

theorem negated_bare_integer_overgrants:
  assumes "chroma_server selects float_key" "storable m" "m (js ''n'') = Some (VNum y)"
  shows "\<exists>w. mapOperand negated_count (fieldResolver sample_fields) False = Inr w \<and> selects w m \<and>
     (\<exists>c. compileCondition (nodeOf negated_count) (root_ctx sample_fields now) = Inr c \<and> run c (empty_env m) = Inr VError) \<and>
     (\<exists>p. whole_post_filter sample_fields now negated_count = Inr p \<and> p (Some m) = Inr False)"
proof -
  let ?w = "WOr [Clause (js ''n'') C_lt (VInt 0), Clause (js ''n'') C_gte (VInt 0)]"
  have "mapOperand negated_count (fieldResolver sample_fields) False = Inr ?w"
    by (simp add: negated_count_def mapBooleanVariable_def compare_def inequalityWithoutNe_def Let_def)
  moreover have "num_lt y (Fin 0) \<or> num_le (Fin 0) y"
    using storableD [OF assms(2,3)] by (cases y) (auto simp: num_le_def)
  then have "selects ?w m"
    using chroma_server.order_law [OF assms(1,2), of _ "Fin 0" "js ''n''"] assms(3)
    by (auto simp: chroma_server.or_law [OF assms(1)] is_order_def)
  moreover obtain c where c: "compileCondition (nodeOf negated_count) (root_ctx sample_fields now) = Inr c"
      "run c (empty_env m) = Inr VError"
    using negated_count_error [OF assms(2,3)] by blast
  then have "\<exists>p. whole_post_filter sample_fields now negated_count = Inr p \<and> p (Some m) = Inr False"
    by (simp add: whole_post_filter_def compilePostFilter_def root_ctx_def)
  ultimately show ?thesis using c by blast
qed

theorem negated_bare_integer_overgrants_witness:
  "\<exists>w. mapOperand negated_count (fieldResolver sample_fields) False = Inr w \<and> where_holds w sample_record \<and>
     (\<exists>p. whole_post_filter sample_fields 0 negated_count = Inr p \<and> p (Some sample_record) = Inr False)"
  using negated_bare_integer_overgrants [OF reference.chroma_server_axioms sample_storable, of "Fin 3" 0]
  by (auto simp: sample_record_def)

end
