(* ===== verification/Chroma_Types.thy ===== *)
theory Chroma_Types
  imports Chroma_PostFilter
begin

text \<open>
  The static types of the post-filter's compiler are sound: a compiled operand evaluates, without an
  exception, to the evaluation error or to a value of its static type. The one shape excluded is a macro
  over a literal list that mixes integral and fractional numbers.
\<close>

subsection \<open>What a static type says of a value\<close>

fun has_type :: "StaticType \<Rightarrow> jsval \<Rightarrow> bool" where
  "has_type TyInt v = (toBigInt v \<noteq> None)"
| "has_type TyDouble v = isNumber v"
| "has_type TyAmbiguous v = isIntegerNumber v"
| "has_type TyAttribute v = (case v of VBig _ \<Rightarrow> False | VTime _ \<Rightarrow> False | VDur _ \<Rightarrow> False | _ \<Rightarrow> True)"
| "has_type TyTimestamp v = (case v of VTime _ \<Rightarrow> True | _ \<Rightarrow> False)"
| "has_type TyDuration v = (case v of VDur _ \<Rightarrow> True | _ \<Rightarrow> False)"
| "has_type TyOther v =
     (case v of VNum _ \<Rightarrow> False | VBig _ \<Rightarrow> False | VTime _ \<Rightarrow> False | VDur _ \<Rightarrow> False | _ \<Rightarrow> True)"
| "has_type TyUnknown v = True"

definition typed :: "StaticType \<Rightarrow> jsval \<Rightarrow> bool" where
  "typed t v \<longleftrightarrow> v = VError \<or> has_type t v"

lemma typed_simps [simp]:
  "typed t VError" "typed TyOther (VBool b)" "typed TyOther (VStr s)" "typed TyOther (VArr xs)"
  "typed TyOther (VObj kvs)" "typed TyOther (VHier h)" "typed TyUnknown v"
  "typed TyInt (VNum (Fin (of_int n)))" "typed TyDuration (VDur n)" "typed TyTimestamp (VTime n)"
  "typed TyDouble (VNum x)"
  by (simp_all add: typed_def toBigInt_def)

lemma typed_TyIntE:
  assumes "typed TyInt v"
  obtains "v = VError" | n where "v = VBig n" | x where "v = VNum x" "is_integer x"
  using assms by (cases v) (auto simp: typed_def toBigInt_def split: if_splits)

lemma typed_celInt [simp]: "typed TyInt (celInt n)"
  by (auto simp: typed_def celInt_eq celInt_form toBigInt_def)

subsection \<open>Environments\<close>

text \<open>A reference declared boolean holds a boolean in the record, where it is present.\<close>

definition booleans_kept :: "PostFilterFields \<Rightarrow> metadata \<Rightarrow> bool" where
  "booleans_kept f m \<longleftrightarrow>
     (\<forall>var key. metadataKey f var = Inr key \<longrightarrow> isBoolean f var = Inr True \<longrightarrow>
        (case m key of Some (VNum x) \<Rightarrow> False | _ \<Rightarrow> True))"

definition env_ok :: "Context \<Rightarrow> Env \<Rightarrow> bool" where
  "env_ok ctx env \<longleftrightarrow>
     booleans_kept (mappedFields ctx) (metadata env) \<and>
     (\<forall>x t. bindingTypes ctx x = Some t \<longrightarrow> (\<exists>v. bindings env x = Some v \<and> typed t v))"

lemma env_ok_parent [simp]: "env_ok (ctx\<lparr>parent := p\<rparr>) env = env_ok ctx env"
  by (simp add: env_ok_def)

lemma env_ok_bind:
  "env_ok ctx env \<Longrightarrow> typed t v \<Longrightarrow>
   env_ok (ctx\<lparr>bindingTypes := (bindingTypes ctx)(x \<mapsto> t)\<rparr>) (env\<lparr>bindings := (bindings env)(x \<mapsto> v)\<rparr>)"
  by (auto simp: env_ok_def)

definition sound_compiled :: "Context \<Rightarrow> Compiled \<Rightarrow> bool" where
  "sound_compiled ctx c \<longleftrightarrow> (\<forall>env. env_ok ctx env \<longrightarrow> (\<exists>v. run c env = Inr v \<and> typed (ctype c) v))"

definition sound_node :: "node \<Rightarrow> bool" where
  "sound_node n \<longleftrightarrow> (\<forall>ctx c. compileNode n ctx = Inr c \<longrightarrow> sound_compiled ctx c)"

lemma sound_compiledI:
  "(\<And>env. env_ok ctx env \<Longrightarrow> \<exists>v. f env = Inr v \<and> typed t v) \<Longrightarrow> compiled_as t f = Inr c \<Longrightarrow> sound_compiled ctx c"
  by (auto simp: compiled_as_def sound_compiled_def)

lemma sound_compiled_run:
  assumes "sound_compiled ctx c" "env_ok ctx env"
  obtains v where "run c env = Inr v" "typed (ctype c) v"
  using assms by (auto simp: sound_compiled_def)

lemma sound_compiled_parent [simp]: "sound_compiled (ctx\<lparr>parent := p\<rparr>) c = sound_compiled ctx c"
  by (simp add: sound_compiled_def)

lemma sound_nodeD: "sound_node n \<Longrightarrow> compileNode n ctx = Inr c \<Longrightarrow> sound_compiled ctx c"
  by (simp add: sound_node_def)

lemma sound_condition: "sound_node n \<Longrightarrow> compileCondition n ctx = Inr c \<Longrightarrow> sound_compiled ctx c"
  by (auto simp: compileCondition_def sound_node_def split: if_splits)

lemma mapE_sound:
  assumes "\<forall>n \<in> set nodes. sound_node n"
    "mapE (\<lambda>n. compileNode n ctx) nodes = Inr cs \<or> mapE (\<lambda>n. compileCondition n ctx) nodes = Inr cs"
  shows "\<forall>c \<in> set cs. sound_compiled ctx c"
  using assms sound_nodeD sound_condition
  by (auto simp: mapE_ok_iff list_all2_conv_all_nth in_set_conv_nth) (metis nth_mem)+

lemma compileAll_sound:
  assumes "\<forall>n \<in> set nodes. sound_node n" "compileAll nodes k ctx = Inr cs"
  shows "\<forall>c \<in> set cs. sound_compiled ctx c" "length cs = k" "length nodes = k"
  using assms mapE_sound [OF assms(1)] mapE_Inr_length
  by (auto simp: compileAll_def exactly_def bindE_eq_Inr split: if_splits)

text \<open>The operands' values, each of its static type, or the error.\<close>

lemma runAll_sound:
  assumes "\<forall>c \<in> set cs. sound_compiled ctx c" "env_ok ctx env"
  shows "\<exists>r. runAll cs env = Inr r \<and>
    (case r of None \<Rightarrow> True | Some vs \<Rightarrow> list_all2 (\<lambda>c v. v \<noteq> VError \<and> has_type (ctype c) v) cs vs)"
  using assms(1)
proof (induction cs)
  case (Cons c cs)
  obtain v where v: "run c env = Inr v" "typed (ctype c) v"
    using Cons.prems assms(2) by (auto elim: sound_compiled_run)
  obtain r where "runAll cs env = Inr r"
    "case r of None \<Rightarrow> True | Some vs \<Rightarrow> list_all2 (\<lambda>c v. v \<noteq> VError \<and> has_type (ctype c) v) cs vs"
    using Cons by auto
  then show ?case using v by (cases r) (auto simp: isEvaluationError_def typed_def)
qed simp

lemma with_values_sound:
  assumes "\<forall>c \<in> set cs. sound_compiled ctx c" "env_ok ctx env"
    "\<And>vs. list_all2 (\<lambda>c v. v \<noteq> VError \<and> has_type (ctype c) v) cs vs \<Longrightarrow> typed t (f vs)"
  shows "\<exists>v. with_values cs f env = Inr v \<and> typed t v"
  using runAll_sound [OF assms(1,2)] assms(3) by (auto simp: with_values_def split: option.splits)

lemma strict_sound:
  assumes "strict k t f nodes ctx = Inr c" "\<forall>n \<in> set nodes. sound_node n"
    "\<And>vs. length vs = k \<Longrightarrow> typed t (f vs)"
  shows "sound_compiled ctx c"
proof -
  obtain cs where cs: "compileAll nodes k ctx = Inr cs" and c: "compiled_as t (with_values cs f) = Inr c"
    using assms(1) by (auto simp: strict_def bindE_eq_Inr)
  note s = compileAll_sound [OF assms(2) cs]
  show ?thesis
    by (rule sound_compiledI [OF _ c], rule with_values_sound [OF s(1)])
      (use assms(3) s(2) in \<open>auto dest: list_all2_lengthD\<close>)
qed

subsection \<open>Leaves\<close>

lemma typed_readMetadata:
  "typed TyAttribute (readMetadata m key)"
  "(case m key of Some (VNum x) \<Rightarrow> False | _ \<Rightarrow> True) \<Longrightarrow> typed TyOther (readMetadata m key)"
  by (auto simp: readMetadata_def typed_def split: option.splits jsval.splits)

lemma compileVariable_sound:
  assumes "compileVariable var ctx = Inr c"
  shows "sound_compiled ctx c"
proof (cases "bindingTypes ctx (root_name var)")
  case None
  then obtain key boolean where k: "metadataKey (mappedFields ctx) var = Inr key"
    "isBoolean (mappedFields ctx) var = Inr boolean"
    and c: "compiled_as (if boolean then TyOther else TyAttribute) (\<lambda>env. Inr (readMetadata (metadata env) key)) = Inr c"
    using assms by (auto simp: compileVariable_def Let_def bindE_eq_Inr split: if_splits)
  show ?thesis
  proof (rule sound_compiledI [OF _ c])
    fix env assume "env_ok ctx env"
    then show "\<exists>v. Inr (readMetadata (metadata env) key) = Inr v \<and> typed (if boolean then TyOther else TyAttribute) v"
      using k typed_readMetadata by (auto simp: env_ok_def booleans_kept_def)
  qed
next
  case (Some t)
  show ?thesis
  proof (cases "dot \<in> set var")
    case False
    then have "root_name var = var" by (auto simp: root_name_def takeWhile_eq_all_conv)
    then show ?thesis
      using assms Some False
      by (auto simp: compileVariable_def Let_def read_binding_def env_ok_def intro!: sound_compiledI)
        (force simp: compiled_as_def sound_compiled_def env_ok_def read_binding_def)
  next
    case True
    then have c: "compiled_as TyUnknown (\<lambda>env.
         bindE (read_binding (root_name var) env) (\<lambda>v. Inr (getNestedValue v (path_after_root var)))) = Inr c"
      using assms Some by (simp add: compileVariable_def Let_def)
    show ?thesis
      by (rule sound_compiledI [OF _ c]) (use Some in \<open>fastforce simp: env_ok_def read_binding_def\<close>)
  qed
qed

lemma compileValue_sound:
  assumes "compileValue v ctx = Inr c" "json v"
  shows "sound_compiled ctx c"
  using assms
  by (auto simp: compileValue_def const_compiled_def sound_compiled_def typed_def split: if_splits jsval.splits)

subsection \<open>Operators\<close>

lemma two_values: "length vs = 2 \<Longrightarrow> \<exists>a b. vs = [a, b]"
  by (auto simp: numeral_2_eq_2 length_Suc_conv)

lemma one_value: "length vs = Suc 0 \<Longrightarrow> \<exists>a. vs = [a]"
  by (auto simp: length_Suc_conv)

lemma typed_compareValues [simp]: "typed TyOther (compareValues op a b)"
  by (auto simp: compareValues_def Let_def split: option.splits)

named_theorems op_sound "each compiler gives sound code"

lemma comparison_sound [op_sound]:
  "comparison op nodes ctx = Inr c \<Longrightarrow> \<forall>n \<in> set nodes. sound_node n \<Longrightarrow> sound_compiled ctx c"
  unfolding comparison_def by (erule strict_sound) (auto simp: binary_def)

lemma stringTest_sound [op_sound]:
  "stringTest test nodes ctx = Inr c \<Longrightarrow> \<forall>n \<in> set nodes. sound_node n \<Longrightarrow> sound_compiled ctx c"
  unfolding stringTest_def by (erule strict_sound) (auto simp: binary_def split: jsval.splits)

lemma membership_sound [op_sound]:
  "membership nodes ctx = Inr c \<Longrightarrow> \<forall>n \<in> set nodes. sound_node n \<Longrightarrow> sound_compiled ctx c"
  unfolding membership_def by (erule strict_sound) (auto simp: binary_def split: jsval.splits)

lemma hasIntersection_sound [op_sound]:
  "hasIntersection nodes ctx = Inr c \<Longrightarrow> \<forall>n \<in> set nodes. sound_node n \<Longrightarrow> sound_compiled ctx c"
  unfolding hasIntersection_def by (erule strict_sound) (auto simp: binary_def split: jsval.splits)

lemma upperAscii_sound [op_sound]:
  "upperAscii nodes ctx = Inr c \<Longrightarrow> \<forall>n \<in> set nodes. sound_node n \<Longrightarrow> sound_compiled ctx c"
  unfolding upperAscii_def by (erule strict_sound) (auto split: jsval.splits)

lemma hierarchyRelation_sound [op_sound]:
  "hierarchyRelation op nodes ctx = Inr c \<Longrightarrow> \<forall>n \<in> set nodes. sound_node n \<Longrightarrow> sound_compiled ctx c"
  unfolding hierarchyRelation_def by (erule strict_sound) (auto simp: binary_def split: jsval.splits)

lemma size_of_sound [op_sound]:
  "size_of nodes ctx = Inr c \<Longrightarrow> \<forall>n \<in> set nodes. sound_node n \<Longrightarrow> sound_compiled ctx c"
  unfolding size_of_def by (erule strict_sound) (auto simp: typed_def toBigInt_def split: jsval.splits)

lemma junction_loop_sound:
  assumes "\<forall>c \<in> set cs. sound_compiled ctx c" "env_ok ctx env"
  shows "\<exists>v. junction_loop d saw cs env = Inr v \<and> typed TyOther v"
  using assms(1)
proof (induction cs arbitrary: saw)
  case (Cons c cs)
  obtain v where v: "run c env = Inr v" using Cons.prems assms(2) by (auto elim: sound_compiled_run)
  show ?case using Cons v by (auto simp: Let_def)
qed simp

lemma junction_sound [op_sound]:
  assumes "junction d nodes ctx = Inr c" "\<forall>n \<in> set nodes. sound_node n"
  shows "sound_compiled ctx c"
proof -
  obtain cs where cs: "mapE (\<lambda>n. compileCondition n ctx) nodes = Inr cs"
    and c: "compiled_as TyOther (junction_loop d False cs) = Inr c"
    using assms(1) by (auto simp: junction_def bindE_eq_Inr split: if_splits)
  show ?thesis
    by (rule sound_compiledI [OF junction_loop_sound c]) (use mapE_sound [OF assms(2)] cs in blast)+
qed

lemma exactly_Inr: "exactly nodes k = Inr nodes' \<longleftrightarrow> length nodes = k \<and> nodes' = nodes"
  by (auto simp: exactly_def)

lemma negation_sound [op_sound]:
  assumes "negation nodes ctx = Inr c" "\<forall>n \<in> set nodes. sound_node n"
  shows "sound_compiled ctx c"
proof -
  obtain d where n: "length nodes = 1" and d: "compileCondition (hd nodes) ctx = Inr d"
    and c: "compiled_as TyOther (\<lambda>env. bindE (run d env) (\<lambda>v. Inr (case asBoolean v of VBool b \<Rightarrow> VBool (\<not> b) | e \<Rightarrow> e))) = Inr c"
    using assms(1) by (auto simp: negation_def bindE_eq_Inr exactly_Inr)
  have s: "sound_compiled ctx d" by (rule sound_condition [OF _ d]) (use assms(2) n in \<open>auto simp: length_Suc_conv\<close>)
  show ?thesis
  proof (rule sound_compiledI [OF _ c])
    fix env assume "env_ok ctx env"
    then obtain v where "run d env = Inr v" using s by (auto elim: sound_compiled_run)
    then show "\<exists>v. bindE (run d env) (\<lambda>v. Inr (case asBoolean v of VBool b \<Rightarrow> VBool (\<not> b) | e \<Rightarrow> e)) = Inr v \<and> typed TyOther v"
      by (cases v) auto
  qed
qed

lemma unary_sound:
  assumes "compiled_as t (\<lambda>env. bindE (run d env) (f env)) = Inr c" "sound_compiled ctx d"
    "\<And>env v. env_ok ctx env \<Longrightarrow> typed (ctype d) v \<Longrightarrow> \<exists>w. f env v = Inr w \<and> typed t w"
  shows "sound_compiled ctx c"
proof (rule sound_compiledI [OF _ assms(1)])
  fix env assume env: "env_ok ctx env"
  then obtain v where "run d env = Inr v" "typed (ctype d) v" using assms(2) by (auto elim: sound_compiled_run)
  then show "\<exists>v. bindE (run d env) (f env) = Inr v \<and> typed t v" using assms(3) [OF env] by auto
qed

lemma matches_sound [op_sound]:
  assumes "matches nodes ctx = Inr c" "\<forall>n \<in> set nodes. sound_node n"
  shows "sound_compiled ctx c"
proof -
  obtain d safe where n: "length nodes = 2" and d: "compileNode (nodes ! 0) ctx = Inr d"
    and c: "compiled_as TyOther (\<lambda>env. bindE (run d env) (\<lambda>v.
      Inr (case v of VStr s \<Rightarrow> VBool (matchesSafeRegexPattern s safe) | _ \<Rightarrow> VError))) = Inr c"
    using assms(1) by (auto simp: matches_def bindE_eq_Inr exactly_Inr split: option.splits)
  have "sound_compiled ctx d" by (rule sound_nodeD [OF _ d]) (use assms(2) n in simp)
  then show ?thesis by (rule unary_sound [OF c]) (auto split: jsval.splits)
qed

lemma compileAll_one:
  assumes "compileAll nodes 1 ctx = Inr cs" "\<forall>n \<in> set nodes. sound_node n"
  obtains d where "cs = [d]" "sound_compiled ctx d"
  using compileAll_sound [OF assms(2,1)] that by (auto simp: length_Suc_conv)

lemma conversion_sound:
  assumes "conversion op t refused convert nodes ctx = Inr c" "\<forall>n \<in> set nodes. sound_node n"
    "\<And>v. typed t (convert v)"
  shows "sound_compiled ctx c"
proof -
  obtain cs where cs: "compileAll nodes 1 ctx = Inr cs" and
    c: "compiled_as t (\<lambda>env. bindE (run (hd cs) env) (\<lambda>v. Inr (if isEvaluationError v then v else convert v))) = Inr c"
    using assms(1) by (auto simp: conversion_def bindE_eq_Inr split: if_splits)
  obtain d where d: "cs = [d]" "sound_compiled ctx d" by (rule compileAll_one [OF cs assms(2)])
  show ?thesis
    by (rule unary_sound [OF c]) (use d assms(3) in \<open>auto simp: isEvaluationError_def\<close>)
qed

lemma typed_conversions [simp]:
  "typed TyDouble (convertToDouble v)" "typed TyInt (convertToInt v)"
  "typed TyTimestamp (on_string parseRfc3339Timestamp v)" "typed TyDuration (on_string parseGoDuration v)"
proof -
  show "typed TyDouble (convertToDouble v)"
    by (auto simp: convertToDouble_def Let_def split: jsval.splits option.splits)
  show "typed TyInt (convertToInt v)"
    by (auto simp: convertToInt_def split: jsval.splits option.splits)
  show "typed TyTimestamp (on_string parseRfc3339Timestamp v)"
    by (auto simp: on_string_def parseRfc3339Timestamp_def Let_def split: jsval.splits option.splits)
  show "typed TyDuration (on_string parseGoDuration v)"
    by (auto simp: on_string_def parseGoDuration_def Let_def split: jsval.splits option.splits)
qed

lemma string_value_sound:
  assumes "typed t v"
  shows "\<exists>w. string_value (t = TyInt) v = Inr w \<and> typed TyOther w"
proof (cases "t = TyInt")
  case True
  then have "typed TyInt v" using assms by simp
  then show ?thesis
    by (rule typed_TyIntE) (simp_all add: string_value_def True convertToString_def)
next
  case False
  then show ?thesis by (cases v) (simp_all add: string_value_def convertToString_def)
qed

lemma string_conversion_sound [op_sound]:
  assumes "string_conversion nodes ctx = Inr c" "\<forall>n \<in> set nodes. sound_node n"
  shows "sound_compiled ctx c"
proof -
  obtain cs where cs: "compileAll nodes 1 ctx = Inr cs" and
    c: "compiled_as TyOther (\<lambda>env. bindE (run (hd cs) env) (string_value (ctype (hd cs) = TyInt))) = Inr c"
    using assms(1) by (auto simp: string_conversion_def Let_def bindE_eq_Inr split: if_splits)
  obtain d where d: "cs = [d]" "sound_compiled ctx d" by (rule compileAll_one [OF cs assms(2)])
  show ?thesis
    by (rule unary_sound [OF c]) (use d string_value_sound in auto)
qed

lemma time_since_sound [op_sound]:
  assumes "time_since nodes ctx = Inr c" "\<forall>n \<in> set nodes. sound_node n"
  shows "sound_compiled ctx c"
proof -
  obtain cs where cs: "compileAll nodes 1 ctx = Inr cs" and
    c: "compiled_as TyDuration (\<lambda>env. bindE (run (hd cs) env)
          (\<lambda>v. Inr (if isEvaluationError v then v else timeSince (clock ctx * 1000000) v))) = Inr c"
    using assms(1) by (auto simp: time_since_def Let_def bindE_eq_Inr)
  obtain d where d: "cs = [d]" "sound_compiled ctx d" by (rule compileAll_one [OF cs assms(2)])
  have "typed TyDuration (timeSince now v)" for now v
    by (cases v) (auto simp: timeSince_def Let_def)
  then show ?thesis
    by (intro unary_sound [OF c]) (use d in \<open>auto simp: isEvaluationError_def\<close>)
qed

lemma get_field_sound [op_sound]:
  assumes "get_field nodes ctx = Inr c" "\<forall>n \<in> set nodes. sound_node n"
  shows "sound_compiled ctx c"
proof -
  obtain d f where n: "length nodes = 2" and d: "compileNode (nodes ! 0) ctx = Inr d"
    and c: "compiled_as TyUnknown (\<lambda>env. bindE (run d env) (\<lambda>v. Inr (case v of
        VObj kvs \<Rightarrow> (case map_of kvs f of Some w \<Rightarrow> w | None \<Rightarrow> VError) | _ \<Rightarrow> VError))) = Inr c"
    using assms(1) by (auto simp: get_field_def bindE_eq_Inr exactly_Inr split: option.splits)
  have "sound_compiled ctx d" by (rule sound_nodeD [OF _ d]) (use assms(2) n in simp)
  then show ?thesis by (rule unary_sound [OF c]) simp
qed

lemma list_literal_sound [op_sound]:
  assumes "list_literal nodes ctx = Inr c" "\<forall>n \<in> set nodes. sound_node n"
  shows "sound_compiled ctx c"
proof -
  obtain cs where cs: "mapE (\<lambda>n. compileNode n ctx) nodes = Inr cs"
    and c: "compiled_as TyOther (with_values cs VArr) = Inr c"
    using assms(1) by (auto simp: list_literal_def bindE_eq_Inr)
  have "\<forall>c \<in> set cs. sound_compiled ctx c" using mapE_sound [OF assms(2)] cs by blast
  then show ?thesis by (intro sound_compiledI [OF with_values_sound c]) simp_all
qed

lemma typed_toHierarchy [simp]: "typed TyOther (toHierarchy p d)"
  by (auto simp: toHierarchy_def split: option.splits jsval.splits)

lemma hierarchy_sound [op_sound]:
  assumes "hierarchy nodes ctx = Inr c" "\<forall>n \<in> set nodes. sound_node n"
  shows "sound_compiled ctx c"
proof -
  obtain cs where n: "nodes \<noteq> []" and cs: "mapE (\<lambda>n. compileNode n ctx) nodes = Inr cs"
    and c: "compiled_as TyOther (\<lambda>env. bindE (run (cs ! 0) env) (\<lambda>path.
            if isEvaluationError path then Inr path
            else case nth_opt cs 1 of
              None \<Rightarrow> Inr (toHierarchy path None)
            | Some delimiter \<Rightarrow> bindE (run delimiter env) (\<lambda>separator.
                  Inr (if isEvaluationError separator then separator else toHierarchy path (Some separator))))) = Inr c"
    using assms(1) by (auto simp: hierarchy_def bindE_eq_Inr split: if_splits)
  have s: "\<forall>c \<in> set cs. sound_compiled ctx c" using mapE_sound [OF assms(2)] cs by blast
  have "cs ! 0 \<in> set cs" using n mapE_Inr_length [OF cs] by (intro nth_mem) simp
  then have hd: "sound_compiled ctx (cs ! 0)" using s by blast
  show ?thesis
  proof (rule unary_sound [OF c hd])
    fix env v assume env: "env_ok ctx env"
    show "\<exists>w. (if isEvaluationError v then Inr v
            else case nth_opt cs 1 of
              None \<Rightarrow> Inr (toHierarchy v None)
            | Some delimiter \<Rightarrow> bindE (run delimiter env) (\<lambda>separator.
                  Inr (if isEvaluationError separator then separator else toHierarchy v (Some separator)))) = Inr w \<and> typed TyOther w"
    proof (cases "nth_opt cs 1")
      case (Some d)
      then have d: "sound_compiled ctx d" using s nth_opt_mem by metis
      obtain w where "run d env = Inr w" by (rule sound_compiled_run [OF d env])
      then show ?thesis using Some by (auto simp: isEvaluationError_def)
    qed (auto simp: isEvaluationError_def)
  qed
qed

subsection \<open>Arithmetic\<close>

lemma typed_intArithmetic [simp]: "typed TyInt (intArithmetic op a b)"
  by (auto simp: intArithmetic_def split: option.splits arithmeticOperator.splits)

lemma typed_checkedDuration [simp]: "typed TyDuration (checkedDuration n)"
  by (simp add: checkedDuration_def)

lemma temporal_sound:
  assumes "temporalType op l r = Inr (Some t)" "has_type l a" "has_type r b"
  shows "typed t (temporalArithmetic op a b)"
  using assms
  by (auto simp: temporalType_def temporalArithmetic_def Let_def
      split: if_splits jsval.splits)

lemma arithmeticMode_cases:
  assumes "arithmeticMode op l r = Inr mode" "temporalType op l r = Inr None"
  shows "mode = DynamicMode \<Longrightarrow> {l, r} \<subseteq> {TyDouble, TyAmbiguous, TyAttribute, TyOther} \<and> \<not> (l = TyAmbiguous \<and> r = TyAmbiguous)"
proof -
  assume m: "mode = DynamicMode"
  have nt: "\<not> temporal l" "\<not> temporal r" using assms(2) by (auto simp: temporalType_def split: if_splits)
  show ?thesis using assms(1) nt m
    by (cases l; cases r; simp add: arithmeticMode_def intLike_def temporal_def Let_def split: if_splits)
qed

lemma dynamicArithmetic_number:
  "dynamicArithmetic op a b = VError \<or> (\<exists>x y z. a = VNum x \<and> b = VNum y \<and> dynamicArithmetic op a b = VNum z) \<or>
   (\<exists>s. dynamicArithmetic op a b = VStr s) \<or> (\<exists>xs. dynamicArithmetic op a b = VArr xs)"
  by (auto simp: dynamicArithmetic_def split: jsval.splits arithmeticOperator.splits)

lemma dynamic_sound:
  assumes "{l, r} \<subseteq> {TyDouble, TyAmbiguous, TyAttribute, TyOther}" "\<not> (l = TyAmbiguous \<and> r = TyAmbiguous)"
    "has_type l a" "has_type r b"
  shows "typed (arithmetic_type DynamicMode l r) (dynamicArithmetic op a b)"
proof -
  have other: "\<not> isNumber v" if "has_type TyOther v" for v using that by (cases v) auto
  have num: "\<exists>x. v = VNum x" if "isNumber v" for v using that by (cases v) auto
  have int: "isNumber v" if "isIntegerNumber v" for v using that by (cases v) auto
  show ?thesis
  proof (cases "l = TyDouble \<or> r = TyDouble")
    case True
    then have "isNumber a \<or> isNumber b" using assms(3,4) by auto
    then have "dynamicArithmetic op a b = VError \<or> (\<exists>z. dynamicArithmetic op a b = VNum z)"
      by (auto simp: dynamicArithmetic_def dest!: num split: jsval.splits arithmeticOperator.splits)
    then show ?thesis using True by (auto simp: arithmetic_type_def)
  next
    case nd: False
    show ?thesis
    proof (cases "l = TyAttribute \<or> r = TyAttribute")
      case True
      then show ?thesis using nd dynamicArithmetic_number [of op a b] by (auto simp: arithmetic_type_def typed_def)
    next
      case False
      then have "l = TyOther \<or> r = TyOther" using assms(1,2) nd by auto
      then have "\<not> isNumber a \<or> \<not> isNumber b" using assms(3,4) other by auto
      then have "\<nexists>x y. a = VNum x \<and> b = VNum y" by auto
      then show ?thesis using nd False dynamicArithmetic_number [of op a b]
        by (auto simp: arithmetic_type_def typed_def)
    qed
  qed
qed

lemma arithmetic_value_sound:
  assumes "arithmeticMode op l r = Inr mode" "temporalType op l r = Inr None" "has_type l a" "has_type r b"
  shows "typed (arithmetic_type mode l r) (arithmetic_value op mode a b)"
proof (cases mode)
  case DynamicMode
  then show ?thesis
    using dynamic_sound [OF _ _ assms(3,4)] arithmeticMode_cases [OF assms(1,2)] by (simp add: arithmetic_value_def)
qed (simp_all add: arithmetic_value_def arithmetic_type_def)

lemma arithmetic_sound [op_sound]:
  assumes "arithmetic op nodes ctx = Inr c" "\<forall>n \<in> set nodes. sound_node n"
  shows "sound_compiled ctx c"
proof -
  obtain cs where cs: "compileAll nodes 2 ctx = Inr cs" using assms(1) by (auto simp: arithmetic_def bindE_eq_Inr)
  note s = compileAll_sound [OF assms(2) cs]
  obtain l r where lr: "cs = [l, r]" using s(2) two_values by blast
  have run_two: "\<exists>v. with_values cs (binary f) env = Inr v \<and> typed t v"
    if "env_ok ctx env" "\<And>a b. has_type (ctype l) a \<Longrightarrow> has_type (ctype r) b \<Longrightarrow> typed t (f a b)" for f t env
    using that(2) by (intro with_values_sound [OF s(1) that(1)]) (auto simp: lr binary_def list_all2_Cons1)
  obtain tt where tt: "temporalType op (ctype l) (ctype r) = Inr tt"
    using assms(1) by (auto simp: arithmetic_def cs lr Let_def bindE_eq_Inr)
  show ?thesis
  proof (cases tt)
    case (Some t)
    then have c: "compiled_as t (with_values cs (binary (temporalArithmetic op))) = Inr c"
      using assms(1) cs tt by (simp add: arithmetic_def lr Let_def)
    show ?thesis
      by (rule sound_compiledI [OF run_two c]) (use temporal_sound [OF tt [unfolded Some]] in auto)
  next
    case None
    obtain mode where m: "arithmeticMode op (ctype l) (ctype r) = Inr mode" and
      c: "compiled_as (arithmetic_type mode (ctype l) (ctype r)) (with_values cs (binary (arithmetic_value op mode))) = Inr c"
      using assms(1) cs tt None by (auto simp: arithmetic_def lr Let_def bindE_eq_Inr split: if_splits)
    show ?thesis
      by (rule sound_compiledI [OF run_two c]) (use arithmetic_value_sound [OF m tt [unfolded None]] in auto)
  qed
qed

subsection \<open>Conditionals, macros, indexing\<close>

lemma integer_toBigInt: "isIntegerNumber v \<Longrightarrow> toBigInt v \<noteq> None"
  by (cases v) (auto simp: toBigInt_def)

lemma integer_isNumber: "isIntegerNumber v \<Longrightarrow> isNumber v"
  by (cases v) auto

lemma has_type_attribute: "has_type TyDouble v \<or> has_type TyOther v \<Longrightarrow> has_type TyAttribute v"
  by (cases v) auto

lemma joinTypes_typed:
  assumes "typed a v"
  shows "typed (joinTypes a b) v" "typed (joinTypes b a) v"
  using assms integer_toBigInt integer_isNumber has_type_attribute
  by (cases a; cases b; auto simp: joinTypes_def typed_def Let_def)+

lemma conditional_sound [op_sound]:
  assumes "conditional nodes ctx = Inr c" "\<forall>n \<in> set nodes. sound_node n"
  shows "sound_compiled ctx c"
proof -
  obtain cs where cs: "compileAll nodes 3 ctx = Inr cs" using assms(1) by (auto simp: conditional_def bindE_eq_Inr)
  note s = compileAll_sound [OF assms(2) cs]
  obtain x y z where l: "cs = [x, y, z]" using s(2) by (auto simp: numeral_3_eq_3 length_Suc_conv)
  have c: "compiled_as (joinTypes (ctype y) (ctype z)) (\<lambda>env. bindE (run x env)
      (\<lambda>v. case asBoolean v of VBool b \<Rightarrow> run ([x, y, z] ! (if b then 1 else 2)) env | e \<Rightarrow> Inr e)) = Inr c"
    using assms(1) cs by (simp add: conditional_def l)
  have branch: "\<exists>w. run ([x, y, z] ! (if b then 1 else 2)) env = Inr w \<and> typed (joinTypes (ctype y) (ctype z)) w"
    if "env_ok ctx env" for b env
    using s(1) that joinTypes_typed by (cases b) (auto simp: l sound_compiled_def)
  show ?thesis
  proof (rule unary_sound [OF c])
    show "sound_compiled ctx x" using s(1) by (simp add: l)
    fix env v assume "env_ok ctx env"
    then show "\<exists>w. (case asBoolean v of VBool b \<Rightarrow> run ([x, y, z] ! (if b then 1 else 2)) env | e \<Rightarrow> Inr e) = Inr w \<and>
        typed (joinTypes (ctype y) (ctype z)) w"
      using branch [of env] by (cases v) (simp_all del: nth_Cons_numeral)
  qed
qed

text \<open>A literal list whose numbers are all integral or all fractional.\<close>

definition unmixed :: "jsval list \<Rightarrow> bool" where
  "unmixed vs \<longleftrightarrow> list_all isIntegerNumber (filter isNumber vs) \<or>
     list_all (\<lambda>v. \<not> isIntegerNumber v) (filter isNumber vs)"

definition unmixed_collection :: "operand \<Rightarrow> bool" where
  "unmixed_collection e =
     (case e of Value v \<Rightarrow> json v \<and> (case v of VArr vs \<Rightarrow> unmixed vs | _ \<Rightarrow> True) | _ \<Rightarrow> True)"

lemma json_other: "json v \<Longrightarrow> \<not> isNumber v \<Longrightarrow> typed TyOther v"
  by (cases v) (auto simp: typed_def)

lemma elementType_typed:
  assumes "compileNode (nodeOf e) ctx = Inr d" "run d env = Inr it" "macro_items it = Some items"
    "unmixed_collection e" "x \<in> set items"
  shows "typed (elementType e) x"
proof (cases "\<exists>vs. e = Value (VArr vs)")
  case True
  then obtain vs where e: "e = Value (VArr vs)" by blast
  have it: "items = vs"
    using assms(1-3) by (auto simp: e compileValue_def const_compiled_def macro_items_def split: if_splits)
  have x: "x \<in> set vs" "json x" using assms(4,5) by (auto simp: it e unmixed_collection_def list_all_iff)
  have mix: "unmixed vs" using assms(4) by (simp add: e unmixed_collection_def)
  consider (none) "filter isNumber vs = []" | (some) "filter isNumber vs \<noteq> []" "length (filter isNumber vs) \<noteq> length vs"
    | (all) "filter isNumber vs \<noteq> []" "filter isNumber vs = vs"
    by (metis length_filter_less filter_True nat_less_le)
  then show ?thesis
  proof cases
    case none
    then have "\<not> isNumber x" using x by (auto simp: filter_empty_conv)
    then show ?thesis using none x(2) json_other by (simp add: elementType_def e)
  next
    case some
    then show ?thesis by (simp add: elementType_def e Let_def)
  next
    case all
    then have "x \<in> set (filter isNumber vs)" using x by simp
    then have "isNumber x" by simp
    then show ?thesis
      using mix x all by (auto simp: elementType_def e unmixed_def typed_def list_all_iff split: if_splits)
  qed
qed (auto simp: elementType_def split: operand.splits jsval.splits)

lemma macro_loop_sound:
  assumes "\<And>x. x \<in> set items \<Longrightarrow> \<exists>v. each x = Inr v"
  shows "\<exists>v. macro_loop m each items = Inr v \<and> typed TyOther v"
proof -
  have f: "\<exists>v. filter_loop each out items = Inr v \<and> typed TyOther v" for out
    using assms
  proof (induction items arbitrary: out)
    case (Cons x items)
    obtain v where "each x = Inr v" using Cons.prems [of x] by auto
    then show ?case using Cons by (cases v) auto
  qed simp
  have m: "\<exists>v. map_loop each out items = Inr v \<and> typed TyOther v" for out
    using assms
  proof (induction items arbitrary: out)
    case (Cons x items)
    obtain v where "each x = Inr v" using Cons.prems [of x] by auto
    then show ?case using Cons by auto
  qed simp
  have q: "\<exists>v. quantifier_loop k n saw each items = Inr v \<and> typed TyOther v" for k n saw
    using assms
  proof (induction items arbitrary: n saw)
    case (Cons x items)
    obtain v where "each x = Inr v" using Cons.prems [of x] by auto
    then show ?case using Cons by (auto simp: Let_def)
  qed simp
  show ?thesis using f m q by (cases m) (simp_all add: macro_loop_def)
qed

lemma lambda_body_in:
  assumes "lambdaComponents lambda = Inr (body, var)"
  shows "body \<in> set (operandNodes lambda)"
proof -
  have "length (operandNodes lambda) = 2"
    using assms by (auto simp: lambdaComponents_def bindE_eq_Inr exactly_Inr split: if_splits)
  then have "operandNodes lambda ! 0 \<in> set (operandNodes lambda)" "operandNodes lambda ! 1 \<in> set (operandNodes lambda)"
    by simp_all
  then show ?thesis
    using assms by (auto simp: lambdaComponents_def bindE_eq_Inr exactly_Inr Let_def split: if_splits)
qed

lemma macro_sound:
  assumes "macro m (map nodeOf args) ctx = Inr c" "\<forall>x \<in> set args. sound_node (nodeOf x)"
    "\<forall>x \<in> set args. \<forall>y \<in> set (subOperands x). sound_node (nodeOf y)"
    "unmixed_collection (hd args)"
  shows "sound_compiled ctx c"
proof -
  obtain collection lambda where args: "args = [collection, lambda]"
    using assms(1) two_values [of args] by (auto simp: macro_def bindE_eq_Inr exactly_Inr)
  obtain col body var compiledBody where
    col: "compileNode (nodeOf collection) ctx = Inr col" and
    l: "lambdaComponents (nodeOf lambda) = Inr (body, var)" and
    b: "(if m = MMap then compileNode body (ctx\<lparr>bindingTypes := (bindingTypes ctx)(var \<mapsto> elementType collection)\<rparr>)
         else compileCondition body (ctx\<lparr>bindingTypes := (bindingTypes ctx)(var \<mapsto> elementType collection)\<rparr>)) = Inr compiledBody" and
    c: "compiled_as TyOther (\<lambda>env. bindE (run col env) (\<lambda>iterated.
          case macro_items iterated of None \<Rightarrow> Inr VError
          | Some items \<Rightarrow> macro_loop m (\<lambda>element. run compiledBody (env\<lparr>bindings := (bindings env)(var \<mapsto> element)\<rparr>)) items)) = Inr c"
    using assms(1) by (auto simp: macro_def bindE_eq_Inr exactly_Inr args Let_def cong: if_cong split: prod.splits)
  have sc: "sound_compiled ctx col" using assms(2) sound_nodeD [OF _ col] by (simp add: args)
  have "sound_node body" using lambda_body_in [OF l] assms(3) by (auto simp: args)
  then have sb: "sound_compiled (ctx\<lparr>bindingTypes := (bindingTypes ctx)(var \<mapsto> elementType collection)\<rparr>) compiledBody"
    using b sound_nodeD sound_condition by (cases "m = MMap") auto
  show ?thesis
  proof (rule sound_compiledI [OF _ c])
    fix env assume env: "env_ok ctx env"
    obtain it where it: "run col env = Inr it" by (rule sound_compiled_run [OF sc env])
    show "\<exists>v. bindE (run col env) (\<lambda>iterated.
          case macro_items iterated of None \<Rightarrow> Inr VError
          | Some items \<Rightarrow> macro_loop m (\<lambda>element. run compiledBody (env\<lparr>bindings := (bindings env)(var \<mapsto> element)\<rparr>)) items) = Inr v \<and>
        typed TyOther v"
    proof (cases "macro_items it")
      case (Some items)
      have "\<exists>v. run compiledBody (env\<lparr>bindings := (bindings env)(var \<mapsto> x)\<rparr>) = Inr v" if x: "x \<in> set items" for x
      proof -
        have "typed (elementType collection) x"
          using elementType_typed [OF col it Some _ x] assms(4) by (simp add: args)
        from sound_compiled_run [OF sb env_ok_bind [OF env this]] show ?thesis by metis
      qed
      then show ?thesis using macro_loop_sound [of items] it Some by simp
    qed (simp add: it)
  qed
qed

text \<open>Every operand at or below \<open>e\<close>.\<close>

fun subterms :: "operand \<Rightarrow> operand list" where
  "subterms (Expression op args) = Expression op args # concat (map subterms args)"
| "subterms e = [e]"

lemma subterms_self [simp]: "e \<in> set (subterms e)"
  by (cases e) simp_all

lemma subterms_child: "x \<in> set (subOperands e) \<Longrightarrow> set (subterms x) \<subseteq> set (subterms e)"
  by (cases e) auto

lemma compile_entries_sound:
  assumes "compile_entries seen (map nodeOf entries) ctx = Inr kcs"
    "\<forall>x \<in> set entries. \<forall>y \<in> set (subOperands x). sound_node (nodeOf y)"
  shows "\<forall>c \<in> set (map snd kcs). sound_compiled ctx c"
  using assms
proof (induction entries arbitrary: seen kcs)
  case (Cons entry entries)
  obtain parts key c rest where
    p: "exactly (map nodeOf (subOperands entry)) 2 = Inr parts" and
    c: "compileNode (parts ! 1) (ctx\<lparr>parent := ''set-field''\<rparr>) = Inr c" and
    r: "compile_entries (seen @ [key]) (map nodeOf entries) ctx = Inr rest" and k: "kcs = (key, c) # rest"
    using Cons.prems(1) by (auto simp: bindE_eq_Inr split: if_splits option.splits)
  have parts: "parts = map nodeOf (subOperands entry)" and len: "length (subOperands entry) = 2"
    using p by (auto simp: exactly_Inr)
  have "parts ! 1 = nodeOf (subOperands entry ! 1)" "subOperands entry ! 1 \<in> set (subOperands entry)"
    using len by (simp_all add: parts)
  then have "sound_node (parts ! 1)" using Cons.prems(2) by simp
  then have "sound_compiled ctx c" using sound_nodeD [OF _ c] by simp
  then show ?case using Cons.IH [OF r] Cons.prems(2) by (simp add: k)
qed simp

lemma index_access_sound:
  assumes "index_access (map nodeOf args) ctx = Inr c"
    "\<forall>x \<in> set args. \<forall>y \<in> set (subterms x). sound_node (nodeOf y)"
  shows "sound_compiled ctx c"
proof -
  obtain target key where args: "args = [target, key]"
    using assms(1) two_values [of args] by (auto simp: index_access_def bindE_eq_Inr exactly_Inr)
  obtain ct ck where
    ct: "(if is_operator ''struct'' target then compileMapLiteral (map nodeOf (subOperands target)) ctx
      else compileNode (nodeOf target) ctx) = Inr ct" and
    ck: "compileNode (nodeOf key) ctx = Inr ck" and
    c: "compiled_as TyUnknown (with_values [ct, ck] (binary indexValue)) = Inr c"
    using assms(1) by (auto simp: index_access_def bindE_eq_Inr exactly_Inr args indexInto_def cong: if_cong)
  have "sound_compiled ctx ct"
  proof (cases "is_operator ''struct'' target")
    case True
    then obtain kcs where e: "compile_entries [] (map nodeOf (subOperands target)) ctx = Inr kcs" and
      cc: "compiled_as TyOther (with_values (map snd kcs) (\<lambda>vs. from_entries (zip (map fst kcs) vs))) = Inr ct"
      using ct by (auto simp: compileMapLiteral_def bindE_eq_Inr)
    have "\<forall>x \<in> set (subOperands target). \<forall>y \<in> set (subOperands x). sound_node (nodeOf y)"
    proof (intro ballI)
      fix x y assume xy: "x \<in> set (subOperands target)" "y \<in> set (subOperands x)"
      then have "y \<in> set (subterms target)"
        using subterms_child [OF xy(1)] subterms_child [OF xy(2)] subterms_self [of y] by blast
      then show "sound_node (nodeOf y)" using assms(2) by (simp add: args)
    qed
    then have s: "\<forall>c \<in> set (map snd kcs). sound_compiled ctx c" by (rule compile_entries_sound [OF e])
    show ?thesis
      by (rule sound_compiledI [OF with_values_sound cc]) (use s in \<open>simp_all add: from_entries_def\<close>)
  next
    case False
    then have "compileNode (nodeOf target) ctx = Inr ct" using ct by simp
    then show ?thesis by (rule sound_nodeD [rotated]) (use assms(2) in \<open>simp add: args\<close>)
  qed
  moreover have "sound_compiled ctx ck" by (rule sound_nodeD [OF _ ck]) (use assms(2) in \<open>simp add: args\<close>)
  ultimately show ?thesis by (intro sound_compiledI [OF with_values_sound c]) auto
qed

subsection \<open>The compiler\<close>

definition macro_operators :: "string list" where
  "macro_operators = [''exists'', ''exists_one'', ''all'', ''filter'', ''map'']"

text \<open>
  A plan as it comes off the wire: its literals are JSON, and no macro ranges over a literal list that mixes
  integral with fractional numbers.
\<close>

fun good_operand :: "operand \<Rightarrow> bool" where
  "good_operand (Value v) = json v"
| "good_operand (Expression op args) = (op \<in> set macro_operators \<and> args \<noteq> [] \<longrightarrow> unmixed_collection (hd args))"
| "good_operand _ = True"

definition good_plan :: "operand \<Rightarrow> bool" where
  "good_plan e \<longleftrightarrow> list_all good_operand (subterms e)"

lemma roster_sound:
  assumes "map_of OPERATORS op = Some compiler" "compiler (map nodeOf args) ctx = Inr c"
    "\<forall>x \<in> set args. \<forall>y \<in> set (subterms x). sound_node (nodeOf y)" "good_operand (Expression op args)"
  shows "sound_compiled ctx c"
proof -
  have n: "\<forall>n \<in> set (map nodeOf args). sound_node n" using assms(3) by auto
  have sub: "\<forall>x \<in> set args. sound_node (nodeOf x)" "\<forall>x \<in> set args. \<forall>y \<in> set (subOperands x). sound_node (nodeOf y)"
    using assms(3) subterms_child subterms_self by blast+
  have m: "op \<in> set macro_operators \<Longrightarrow> macro k (map nodeOf args) ctx = Inr c \<Longrightarrow> sound_compiled ctx c" for k
    using macro_sound [OF _ sub] assms(4) by (cases args) (auto simp: macro_def exactly_def)
  have "list_all (\<lambda>(op', compiler). op' = op \<longrightarrow> compiler (map nodeOf args) ctx = Inr c \<longrightarrow> sound_compiled ctx c) OPERATORS"
    unfolding OPERATORS_def list.pred_inject split_conv
    by (intro conjI impI TrueI;
        ((rule op_sound, assumption, rule n) | (rule conversion_sound, assumption, rule n, simp)
        | (rule index_access_sound, assumption, rule assms(3)) | (rule m, force simp: macro_operators_def, assumption)
        | (rule list.pred_inject(1))))
  then show ?thesis using map_of_SomeD [OF assms(1)] assms(2) by (auto simp: list_all_iff)
qed

lemma subterms_sound:
  "list_all good_operand (subterms e) \<Longrightarrow> \<forall>x \<in> set (subterms e). sound_node (nodeOf x)"
proof (induction e rule: subterms.induct)
  case (1 op args)
  have args: "\<forall>x \<in> set args. \<forall>y \<in> set (subterms x). sound_node (nodeOf y)"
    using 1 by (auto simp: list_all_iff)
  have "sound_node (nodeOf (Expression op args))"
    unfolding sound_node_def
  proof (intro allI impI)
    fix ctx c assume "compileNode (nodeOf (Expression op args)) ctx = Inr c"
    then obtain compiler where comp: "map_of OPERATORS op = Some compiler" "compiler (map nodeOf args) (ctx\<lparr>parent := op\<rparr>) = Inr c"
      by (auto simp: dispatch_def split: option.splits)
    have "sound_compiled (ctx\<lparr>parent := op\<rparr>) c"
      by (rule roster_sound [OF comp args]) (use 1(2) in simp)
    then show "sound_compiled ctx c" by simp
  qed
  then show ?case using args by auto
qed (use compileValue_sound compileVariable_sound in \<open>auto simp: sound_node_def\<close>)

lemma compile_sound:
  assumes "good_plan e" "compile e ctx = Inr c" "env_ok ctx env"
  shows "\<exists>v. run c env = Inr v \<and> typed (ctype c) v"
proof -
  have "sound_node (nodeOf e)" using subterms_sound assms(1) by (simp add: good_plan_def)
  then have "sound_compiled ctx c" using assms(2) by (auto simp: compile_def dest: sound_nodeD)
  then show ?thesis using assms(3) by (simp add: sound_compiled_def)
qed

subsection \<open>Properties\<close>

text \<open>
  C7. The compiler's static types are sound: an operand that compiles evaluates without an exception, and to
  the evaluation error or a value of the operand's static type (an int is an exact integer, a double a number, a
  timestamp a timestamp, and so on). The operand's literals must be JSON and no macro in it may range over a
  literal list that mixes integral and fractional numbers (\<open>good_plan\<close>), without which the property is false
  (C11); in the environment (\<open>env_ok\<close>) no key the mapper declares boolean holds a number, and every lambda
  variable in scope is bound to the error or a value of its type.
\<close>

theorem static_types_sound:
  assumes "good_plan e" "compile e ctx = Inr c" "env_ok ctx env"
  shows "\<exists>v. run c env = Inr v \<and> (v = VError \<or> has_type (ctype c) v)"
  using compile_sound [OF assms] by (simp add: typed_def)

definition open_context :: Context where
  "open_context =
     \<lparr>mappedFields = \<lparr>isMapped = (\<lambda>_. True), metadataKey = Inr, isBoolean = (\<lambda>_. Inr False)\<rparr>,
      bindingTypes = (\<lambda>_. None), parent = ''eq'', clock = 0\<rparr>"

lemma open_context_ok: "env_ok open_context (empty_env m)"
  by (simp add: env_ok_def booleans_kept_def open_context_def)

definition sample_size :: operand where
  "sample_size = Expression ''size'' [Value (VStr (js ''ab''))]"

lemma sample_size_compiles:
  "\<exists>c. compile sample_size open_context = Inr c \<and> ctype c = TyInt"
proof -
  have "map_of OPERATORS ''size'' = Some size_of" by (simp add: OPERATORS_def)
  then show ?thesis
    by (simp add: compile_def sample_size_def dispatch_def size_of_def strict_def compileAll_def exactly_def
        compileValue_def const_compiled_def compiled_as_def)
qed

theorem static_types_sound_witness:
  "\<exists>c v. compile sample_size open_context = Inr c \<and> run c (empty_env (\<lambda>_. None)) = Inr v \<and> (v = VError \<or> has_type TyInt v)"
proof -
  obtain c where c: "compile sample_size open_context = Inr c" "ctype c = TyInt" using sample_size_compiles by blast
  have "good_plan sample_size" by (simp add: good_plan_def sample_size_def macro_operators_def)
  from static_types_sound [OF this c(1) open_context_ok] c show ?thesis by auto
qed

text \<open>
  C8. The predicate a translated plan returns never throws, provided the plan's literals are JSON and no macro
  in it ranges over a literal list that mixes integral and fractional numbers (\<open>good_plan\<close>), without which the
  property is false (C11): over every record in which no key the mapper declares boolean holds a number, it
  returns a verdict, whatever else the record holds, also when there is no metadata at all.
\<close>

theorem post_filter_never_throws:
  assumes "good_plan e" "compilePostFilter now e record_fields = Inr p"
    "booleans_kept record_fields (case m of Some m \<Rightarrow> m | None \<Rightarrow> (\<lambda>_. None))"
  shows "\<exists>b. p m = Inr b"
proof -
  define ctx where "ctx = \<lparr>mappedFields = record_fields, bindingTypes = (\<lambda>_. None), parent = ''eq'', clock = now\<rparr>"
  obtain c where c: "compileCondition (nodeOf e) ctx = Inr c" and
    p: "p = (\<lambda>m. bindE (run c (empty_env (case m of Some m \<Rightarrow> m | None \<Rightarrow> (\<lambda>_. None)))) (\<lambda>v. Inr (v = VBool True)))"
    using assms(2) by (auto simp: compilePostFilter_def ctx_def bindE_eq_Inr)
  have "compile e ctx = Inr c" using c by (auto simp: compile_def compileCondition_def split: if_splits)
  moreover have "env_ok ctx (empty_env (case m of Some m \<Rightarrow> m | None \<Rightarrow> (\<lambda>_. None)))"
    using assms(3) by (simp add: env_ok_def ctx_def empty_env_def)
  ultimately obtain v where "run c (empty_env (case m of Some m \<Rightarrow> m | None \<Rightarrow> (\<lambda>_. None))) = Inr v"
    using compile_sound [OF assms(1)] by blast
  then show ?thesis by (simp add: p)
qed

lemma sample_predicate:
  "\<exists>p. compilePostFilter 0 sample_size (mappedFields open_context) = Inr p"
  using sample_size_compiles
  by (auto simp: compilePostFilter_def compileCondition_def compile_def open_context_def is_operator_def sample_size_def
      simp del: nodeOf.simps)

theorem post_filter_never_throws_witness:
  "\<exists>p b. compilePostFilter 0 sample_size (mappedFields open_context) = Inr p \<and> p None = Inr b"
proof -
  obtain p where p: "compilePostFilter 0 sample_size (mappedFields open_context) = Inr p" using sample_predicate by blast
  have "good_plan sample_size" by (simp add: good_plan_def sample_size_def macro_operators_def)
  moreover have "booleans_kept (mappedFields open_context) (case None of Some m \<Rightarrow> m | None \<Rightarrow> (\<lambda>_. None))"
    by (simp add: booleans_kept_def)
  ultimately show ?thesis using post_filter_never_throws [OF _ p, of None] p by blast
qed

definition mixed_list_plan :: operand where
  "mixed_list_plan =
     Expression ''exists''
       [Value (VArr [VInt 1, VNum (Fin (3 / 2))]),
        Expression ''lambda''
          [Expression ''eq''
             [Expression ''string'' [Expression ''if'' [Variable (js ''b''), Variable (js ''x''), sample_size]],
              Value (VStr (js ''2''))],
           Variable (js ''x'')]]"

lemma three_halves: "\<not> is_integer (Fin (3 / 2))"
proof -
  have "\<lfloor>(3::rat) / 2\<rfloor> = 1" by (rule floor_unique) simp_all
  then show ?thesis by simp
qed

text \<open>
  C11. The mixed lists excluded above are a real exception: over \<open>[1, 1.5].exists(x, string(R.attr.b ? x :
  size("ab")) == "2")\<close> the element's static type is that of an integral literal, the ternary's type becomes
  an int, and \<open>BigInt(1.5)\<close> throws out of the predicate.
\<close>

theorem mixed_list_throws:
  "\<exists>p. compilePostFilter 0 mixed_list_plan (mappedFields open_context) = Inr p \<and>
     p (Some [js ''b'' \<mapsto> VBool True]) = Inl (Error ''RangeError'')"
proof -
  have roster: "map_of OPERATORS ''exists'' = Some (macro MExists)" "map_of OPERATORS ''eq'' = Some (comparison Eq)"
    "map_of OPERATORS ''string'' = Some string_conversion" "map_of OPERATORS ''if'' = Some conditional"
    "map_of OPERATORS ''size'' = Some size_of"
    by (simp_all add: OPERATORS_def)
  have x: "root_name (js ''x'') = js ''x''" "root_name (js ''b'') = js ''b''" "dot \<notin> set (js ''x'')" "js ''x'' \<noteq> js ''b''"
    "js ''b'' \<noteq> js ''x''"
    by (simp_all add: root_name_def js_def dot_def)
  have trunc: "num_trunc (Fin 1) = 1" by (simp add: num_trunc_def rat_trunc_def)
  have one: "compareValues Eq (VStr (int_to_string (num_trunc (Fin 1)))) (VStr (js ''2'')) = VBool False" "is_integer (Fin 1)"
    by (simp_all add: trunc int_to_string_def compareValues_def isEvaluationError_def valuesEqual.simps js_def
        nat_to_string.simps [of "Suc 0"] digit_char_def)
  have h: "\<not> is_integer (Fin (3 / 2))" by (rule three_halves)
  show ?thesis
    by (simp add: mixed_list_plan_def sample_size_def compilePostFilter_def compileCondition_def is_operator_def dispatch_def
        roster macro_def exactly_def compileValue_def const_compiled_def lambdaComponents_def bare_def variable_of_def
        elementType_def h x Let_def compiled_as_def comparison_def strict_def compileAll_def string_conversion_def conditional_def
        compileVariable_def size_of_def open_context_def joinTypes_def macro_items_def macro_loop_def empty_env_def
       del: is_integer.simps)
      (simp add: with_values_def read_binding_def readMetadata_def x h binary_def string_value_def isEvaluationError_def one h [simplified])
qed

end
