(* ===== verification/Cel_Semantics.thy ===== *)
theory Cel_Semantics
  imports Convex_Convert
begin

text \<open>
  The specification the plan-to-plan rewrites of the Prisma adapter are measured against: the value of a
  plan operand in CEL. It is not code of the repository. It is total, an evaluation error being
  \<open>VError\<close>, and compositional: connectives and macros are Kleene's logic over the verdicts of their
  operands, every other operator is strict. Attributes are a function of the dotted name, lambda
  variables an environment; numbers are doubles, as attributes read from JSON are. Functions that are
  left open (\<open>matches\<close>, timestamps, hierarchies, ...) are the parameter \<open>fn\<close>.
\<close>

type_synonym env = "(jstring \<times> jsval) list"

text \<open>The variable itself, or a path through it.\<close>

definition covers :: "jstring \<Rightarrow> jstring \<Rightarrow> bool" where
  "covers v n \<longleftrightarrow> n = v \<or> startsWith n (v @ [dot])"

text \<open>The segments of a path through \<open>v\<close>.\<close>

definition path_after :: "jstring \<Rightarrow> jstring \<Rightarrow> jstring list" where
  "path_after v n = js_split [dot] (drop (length v + 1) n)"

fun look :: "(jstring \<Rightarrow> jsval) \<Rightarrow> env \<Rightarrow> jstring \<Rightarrow> jsval" where
  "look attr [] n = attr n"
| "look attr ((v, x) # env) n =
     (if n = v then x
      else if covers v n then read_parts x (path_after v n)
      else look attr env n)"

subsection \<open>Strict operators\<close>

fun items :: "jsval \<Rightarrow> jsval list option" where
  "items (VArr xs) = Some xs"
| "items (VObj kvs) = Some (map (\<lambda>(k, v). VStr k) kvs)"
| "items _ = None"

definition contains_value :: "jsval list \<Rightarrow> jsval \<Rightarrow> bool" where
  "contains_value xs v \<longleftrightarrow> (\<exists>x \<in> set xs. valuesEqual x v)"

fun comparison_of :: "string \<Rightarrow> cmp_op option" where
  "comparison_of op =
     (if op = ''eq'' then Some Eq else if op = ''ne'' then Some Ne else if op = ''lt'' then Some Lt
      else if op = ''le'' then Some Le else if op = ''gt'' then Some Gt else if op = ''ge'' then Some Ge
      else None)"

declare comparison_of.simps [simp del]

definition string_test :: "string \<Rightarrow> (jstring \<Rightarrow> jstring \<Rightarrow> bool) option" where
  "string_test op =
     (if op = ''contains'' then Some js_includes else if op = ''startsWith'' then Some startsWith
      else if op = ''endsWith'' then Some endsWith else None)"

definition number_op :: "string \<Rightarrow> (jsnum \<Rightarrow> jsnum \<Rightarrow> jsnum) option" where
  "number_op op =
     (if op = ''add'' then Some num_add else if op = ''sub'' then Some num_sub
      else if op = ''mult'' then Some num_mul else if op = ''div'' then Some num_div else None)"

text \<open>Timestamps stay within the years 1 to 9999 and durations within int64 nanoseconds, or are errors.\<close>

definition checked_time :: "int \<Rightarrow> jsval" where
  "checked_time nanos =
     (if MIN_TIMESTAMP_NANOS \<le> nanos \<and> nanos \<le> MAX_TIMESTAMP_NANOS then VTime nanos else VError)"

definition add_values :: "string \<Rightarrow> jsval \<Rightarrow> jsval \<Rightarrow> jsval" where
  "add_values op l r =
     (case (l, r) of
        (VNum a, VNum b) \<Rightarrow> (case number_op op of Some f \<Rightarrow> VNum (f a b) | None \<Rightarrow> VError)
      | (VStr a, VStr b) \<Rightarrow> if op = ''add'' then VStr (a @ b) else VError
      | (VArr a, VArr b) \<Rightarrow> if op = ''add'' then VArr (a @ b) else VError
      | (VTime t, VDur d) \<Rightarrow>
          if op = ''add'' then checked_time (t + d) else if op = ''sub'' then checked_time (t - d) else VError
      | (VDur d, VTime t) \<Rightarrow> if op = ''add'' then checked_time (d + t) else VError
      | (VTime a, VTime b) \<Rightarrow> if op = ''sub'' then checkedDuration (a - b) else VError
      | (VDur a, VDur b) \<Rightarrow>
          if op = ''add'' then checkedDuration (a + b) else if op = ''sub'' then checkedDuration (a - b) else VError
      | _ \<Rightarrow> VError)"

fun timestamp_value :: "jsval \<Rightarrow> jsval" where
  "timestamp_value (VStr s) = (case parseRfc3339Timestamp s of VBig n \<Rightarrow> VTime n | _ \<Rightarrow> VError)"
| "timestamp_value (VTime t) = VTime t"
| "timestamp_value _ = VError"

fun duration_value :: "jsval \<Rightarrow> jsval" where
  "duration_value (VStr s) = (case parseCelDuration s of Inr (VDur d) \<Rightarrow> VDur d | _ \<Rightarrow> VError)"
| "duration_value (VDur d) = VDur d"
| "duration_value _ = VError"

text \<open>Two timestamps compare by instant, anything else as \<open>compareValues\<close> does.\<close>

fun int_compare :: "cmp_op \<Rightarrow> int \<Rightarrow> int \<Rightarrow> bool" where
  "int_compare Eq a b = (a = b)"
| "int_compare Ne a b = (a \<noteq> b)"
| "int_compare Lt a b = (a < b)"
| "int_compare Le a b = (a \<le> b)"
| "int_compare Gt a b = (b < a)"
| "int_compare Ge a b = (b \<le> a)"

definition compare_cel :: "cmp_op \<Rightarrow> jsval \<Rightarrow> jsval \<Rightarrow> jsval" where
  "compare_cel c l r =
     (case (l, r) of
        (VTime a, VTime b) \<Rightarrow> VBool (int_compare c a b)
      | _ \<Rightarrow> compareValues c l r)"

lemma compare_cel_simps [simp]:
  "compare_cel c (VTime a) (VTime b) = VBool (int_compare c a b)"
  "compare_cel c (VNum x) r = compareValues c (VNum x) r" "compare_cel c (VStr s) r = compareValues c (VStr s) r"
  "compare_cel c l (VNum x) = compareValues c l (VNum x)"
  "compare_cel Eq l r = compareValues Eq l r" "compare_cel Ne l r = compareValues Ne l r"
  by (simp_all add: compare_cel_def split: jsval.splits)
    (auto simp: compareValues_def isEvaluationError_def valuesEqual.simps scalarEqual_def)

definition except_values :: "jsval \<Rightarrow> jsval \<Rightarrow> jsval" where
  "except_values l r =
     (case (l, r) of
        (VArr xs, VArr ys) \<Rightarrow> VArr (filter (\<lambda>x. \<not> contains_value ys x) xs)
      | _ \<Rightarrow> VError)"

fun size_value :: "jsval \<Rightarrow> jsval" where
  "size_value (VStr s) = VInt (int (length (code_points s)))"
| "size_value (VArr xs) = VInt (int (length xs))"
| "size_value (VObj kvs) = VInt (int (length kvs))"
| "size_value _ = VError"

text \<open>A map literal: one single-entry record per \<open>set-field\<close>; a repeated key is an error.\<close>

fun struct_value :: "(jstring \<times> jsval) list \<Rightarrow> jsval list \<Rightarrow> jsval" where
  "struct_value acc [] = VObj acc"
| "struct_value acc (VObj [(k, v)] # rest) =
     (if k \<in> fst ` set acc then VError else struct_value (add_property k v acc) rest)"
| "struct_value acc (_ # rest) = VError"

definition binary_value :: "string \<Rightarrow> jsval \<Rightarrow> jsval \<Rightarrow> jsval option" where
  "binary_value op l r =
     (case comparison_of op of
        Some c \<Rightarrow> Some (compare_cel c l r)
      | None \<Rightarrow>
          (case string_test op of
             Some t \<Rightarrow> Some (case (l, r) of (VStr a, VStr b) \<Rightarrow> VBool (t a b) | _ \<Rightarrow> VError)
           | None \<Rightarrow>
               if number_op op \<noteq> None then Some (add_values op l r)
               else if op = ''in'' then
                 Some (case items r of Some xs \<Rightarrow> VBool (contains_value xs l) | None \<Rightarrow> VError)
               else if op = ''except'' then Some (except_values l r)
               else if op = ''set-field'' then Some (case l of VStr k \<Rightarrow> VObj [(k, r)] | _ \<Rightarrow> VError)
               else None))"

definition strict_value :: "(string \<Rightarrow> jsval list \<Rightarrow> jsval) \<Rightarrow> string \<Rightarrow> jsval list \<Rightarrow> jsval" where
  "strict_value fn op vs =
     (if VError \<in> set vs then VError
      else if op = ''list'' then VArr vs
      else if op = ''struct'' then struct_value [] vs
      else if op = ''size'' then (case vs of [v] \<Rightarrow> size_value v | _ \<Rightarrow> VError)
      else case vs of
        [v] \<Rightarrow> if op = ''timestamp'' then timestamp_value v else if op = ''duration'' then duration_value v else fn op vs
      | [l, r] \<Rightarrow> (case binary_value op l r of Some v \<Rightarrow> v | None \<Rightarrow> fn op vs)
      | _ \<Rightarrow> fn op vs)"

subsection \<open>Connectives and macros\<close>

definition operator_value :: "(string \<Rightarrow> jsval list \<Rightarrow> jsval) \<Rightarrow> string \<Rightarrow> jsval list \<Rightarrow> jsval" where
  "operator_value fn op vs =
     (if op = ''and'' then of_truth (k_all (map verdict vs))
      else if op = ''or'' then of_truth (k_ex (map verdict vs))
      else if op = ''not'' then (case vs of v # _ \<Rightarrow> of_truth (k_not (verdict v)) | [] \<Rightarrow> VError)
      else if op = ''if'' then
        (case vs of
           [c, a, b] \<Rightarrow> (case verdict c of TT \<Rightarrow> a | FF \<Rightarrow> b | EE \<Rightarrow> VError)
         | _ \<Rightarrow> VError)
      else strict_value fn op vs)"

definition macro_names :: "string list" where
  "macro_names = [''exists'', ''all'', ''exists_one'', ''filter'', ''map'', ''except'']"

definition lambda_parts :: "string \<Rightarrow> operand list \<Rightarrow> (operand \<times> operand \<times> jstring) option" where
  "lambda_parts op args =
     (if op \<in> set macro_names then
        (case args of
           [c, Expression l [body, Variable x]] \<Rightarrow> if l = ''lambda'' then Some (c, body, x) else None
         | _ \<Rightarrow> None)
      else None)"

definition macro_value :: "string \<Rightarrow> jsval \<Rightarrow> (jsval \<Rightarrow> jsval) \<Rightarrow> jsval" where
  "macro_value op collection f =
     (case items collection of
        None \<Rightarrow> VError
      | Some xs \<Rightarrow>
          let ts = map (\<lambda>x. verdict (f x)) xs in
          if op = ''exists'' then of_truth (k_ex ts)
          else if op = ''all'' then of_truth (k_all ts)
          else if op = ''exists_one'' then
            (if EE \<in> set ts then VError else VBool (length (filter (\<lambda>t. t = TT) ts) = 1))
          else if op = ''map'' then (if VError \<in> f ` set xs then VError else VArr (map f xs))
          else if EE \<in> set ts then VError
          else VArr (filter (\<lambda>x. (verdict (f x) = TT) = (op = ''filter'')) xs))"

lemma lambda_partsD:
  "lambda_parts op args = Some (c, body, x) \<Longrightarrow>
     op \<in> set macro_names \<and> args = [c, Expression ''lambda'' [body, Variable x]]"
  by (auto simp: lambda_parts_def split: if_splits list.splits operand.splits)

lemma lambda_parts_size [termination_simp]:
  "lambda_parts op args = Some (c, body, x) \<Longrightarrow> size c < Suc (size_list size args)"
  "lambda_parts op args = Some (c, body, x) \<Longrightarrow> size body < Suc (size_list size args)"
  by (auto dest: lambda_partsD)

fun cel :: "(string \<Rightarrow> jsval list \<Rightarrow> jsval) \<Rightarrow> (jstring \<Rightarrow> jsval) \<Rightarrow> env \<Rightarrow> operand \<Rightarrow> jsval" where
  "cel fn attr env (Value v) = v"
| "cel fn attr env (Variable n) = look attr env n"
| "cel fn attr env Malformed = VError"
| "cel fn attr env (Expression op args) =
     (case lambda_parts op args of
        Some (c, body, x) \<Rightarrow> macro_value op (cel fn attr env c) (\<lambda>item. cel fn attr ((x, item) # env) body)
      | None \<Rightarrow> operator_value fn op (map (cel fn attr env) args))"

subsection \<open>Definedness\<close>

text \<open>
  \<open>v\<close> approximates \<open>w\<close>: it is an error or the same value. Every operator is monotone in this order,
  so a rewrite that only ever replaces a value by an error never grants a row.
\<close>

definition approx :: "jsval \<Rightarrow> jsval \<Rightarrow> bool" where
  "approx v w \<longleftrightarrow> v = VError \<or> v = w"

definition k_approx :: "truth \<Rightarrow> truth \<Rightarrow> bool" where
  "k_approx s t \<longleftrightarrow> s = EE \<or> s = t"

lemma approx_simps [simp, intro]: "approx v v" "approx VError v"
  by (simp_all add: approx_def)

lemma approx_trans: "approx u v \<Longrightarrow> approx v w \<Longrightarrow> approx u w"
  by (auto simp: approx_def)

lemma approx_verdict: "approx v w \<Longrightarrow> k_approx (verdict v) (verdict w)"
  by (auto simp: approx_def k_approx_def)

lemma approx_of_truth: "approx (of_truth s) (of_truth t) \<longleftrightarrow> k_approx s t"
  by (cases s; cases t) (auto simp: approx_def k_approx_def)

lemma k_approx_refl [simp]: "k_approx t t"
  by (simp add: k_approx_def)

lemma k_approx_not: "k_approx s t \<Longrightarrow> k_approx (k_not s) (k_not t)"
  by (auto simp: k_approx_def)

lemma k_approx_all: "list_all2 k_approx ss ts \<Longrightarrow> k_approx (k_all ss) (k_all ts)"
  and k_approx_ex: "list_all2 k_approx ss ts \<Longrightarrow> k_approx (k_ex ss) (k_ex ts)"
  by (induction rule: list_all2_induct) (auto simp: k_all_def k_ex_def k_approx_def split: if_splits)

lemma list_all2_approx: "list_all2 approx vs ws \<Longrightarrow> VError \<in> set vs \<or> vs = ws"
  by (induction rule: list_all2_induct) (auto simp: approx_def)

lemma strict_value_mono: "list_all2 approx vs ws \<Longrightarrow> approx (strict_value fn op vs) (strict_value fn op ws)"
proof (drule list_all2_approx, elim disjE)
  assume "VError \<in> set vs"
  then show ?thesis by (simp add: strict_value_def)
qed simp

lemma operator_value_mono:
  assumes "list_all2 approx vs ws"
  shows "approx (operator_value fn op vs) (operator_value fn op ws)"
proof -
  have v: "list_all2 k_approx (map verdict vs) (map verdict ws)"
    using assms by (auto simp: list_all2_map1 list_all2_map2 elim: list_all2_mono intro: approx_verdict)
  have i: "approx (case vs of [c, a, b] \<Rightarrow> (case verdict c of TT \<Rightarrow> a | FF \<Rightarrow> b | EE \<Rightarrow> VError) | _ \<Rightarrow> VError)
                  (case ws of [c, a, b] \<Rightarrow> (case verdict c of TT \<Rightarrow> a | FF \<Rightarrow> b | EE \<Rightarrow> VError) | _ \<Rightarrow> VError)"
    using assms by (auto simp: list_all2_Cons1 approx_def split: list.splits truth.splits)
  have n: "approx (case vs of v # _ \<Rightarrow> of_truth (k_not (verdict v)) | [] \<Rightarrow> VError)
                  (case ws of v # _ \<Rightarrow> of_truth (k_not (verdict v)) | [] \<Rightarrow> VError)"
    using assms by (auto simp: list_all2_Cons1 approx_of_truth split: list.splits intro: k_approx_not approx_verdict)
  show ?thesis
    using i n strict_value_mono [OF assms] k_approx_all [OF v] k_approx_ex [OF v]
    by (simp add: operator_value_def approx_of_truth)
qed

lemma macro_value_mono:
  assumes "approx c d" "\<And>xs x. items d = Some xs \<Longrightarrow> x \<in> set xs \<Longrightarrow> approx (f x) (g x)"
  shows "approx (macro_value op c f) (macro_value op d g)"
proof (cases "c = VError \<or> items d = None")
  case True
  then show ?thesis using assms(1) by (auto simp: approx_def macro_value_def)
next
  case False
  then obtain xs where c: "c = d" and xs: "items d = Some xs" using assms(1) by (auto simp: approx_def)
  have fg: "\<And>x. x \<in> set xs \<Longrightarrow> approx (f x) (g x)" using assms(2) xs by blast
  have v: "list_all2 k_approx (map (\<lambda>x. verdict (f x)) xs) (map (\<lambda>x. verdict (g x)) xs)"
    using fg by (auto simp: list_all2_map_same intro: approx_verdict)
  have f: "EE \<in> (\<lambda>x. verdict (f x)) ` set xs \<or> (\<forall>x \<in> set xs. verdict (f x) = verdict (g x))"
    using fg by (force simp: approx_def image_iff)
  have m: "VError \<in> f ` set xs \<or> (\<forall>x \<in> set xs. f x = g x)"
    using fg by (force simp: approx_def image_iff)
  consider "op = ''exists'' \<or> op = ''all''" | "op = ''map''" | "op \<noteq> ''exists''" "op \<noteq> ''all''" "op \<noteq> ''map''"
    by blast
  then show ?thesis
  proof cases
    case 1
    then show ?thesis using k_approx_all [OF v] k_approx_ex [OF v]
      by (auto simp: macro_value_def c xs approx_of_truth)
  next
    case 2
    then show ?thesis using m by (auto simp: macro_value_def c xs cong: map_cong)
  next
    case 3
    show ?thesis using f
    proof
      assume "EE \<in> (\<lambda>x. verdict (f x)) ` set xs"
      then show ?thesis using 3 by (simp add: macro_value_def c xs Let_def image_image)
    next
      assume eq: "\<forall>x \<in> set xs. verdict (f x) = verdict (g x)"
      then have "map (\<lambda>x. verdict (f x)) xs = map (\<lambda>x. verdict (g x)) xs"
        "(\<lambda>x. verdict (f x)) ` set xs = (\<lambda>x. verdict (g x)) ` set xs" "filter (\<lambda>x. (verdict (f x) = TT) = b) xs = filter (\<lambda>x. (verdict (g x) = TT) = b) xs"
        "filter ((\<lambda>t. t = TT) \<circ> (\<lambda>x. verdict (f x))) xs = filter ((\<lambda>t. t = TT) \<circ> (\<lambda>x. verdict (g x))) xs" for b
        by (auto cong: filter_cong)
      then show ?thesis using 3 by (simp add: macro_value_def c xs Let_def)
    qed
  qed
qed

text \<open>Renaming-free substitution: environments that answer alike on a plan's names give it one value.\<close>

fun names_in :: "operand \<Rightarrow> jstring list" where
  "names_in (Variable n) = [n]"
| "names_in (Expression op args) = concat (map names_in args)"
| "names_in _ = []"

lemma cel_cong:
  "(\<And>n. n \<in> set (names_in e) \<Longrightarrow> look attr env n = look attr env' n) \<Longrightarrow> cel fn attr env e = cel fn attr env' e"
proof (induction fn attr env e arbitrary: env' rule: cel.induct)
  case (4 fn attr env op args)
  show ?case
  proof (cases "lambda_parts op args")
    case None
    have "cel fn attr env a = cel fn attr env' a" if "a \<in> set args" for a
      by (rule "4.IH"(1) [OF None that]) (use 4(4) that in auto)
    then show ?thesis by (simp add: None cong: map_cong)
  next
    case (Some p)
    then obtain c body x where p: "lambda_parts op args = Some (c, body, x)" by (cases p) auto
    have args: "args = [c, Expression ''lambda'' [body, Variable x]]" using lambda_partsD [OF p] by simp
    have "cel fn attr env c = cel fn attr env' c"
      by (rule "4.IH"(2) [OF p refl refl]) (use 4(4) args in auto)
    moreover have "cel fn attr ((x, item) # env) body = cel fn attr ((x, item) # env') body" for item
      by (rule "4.IH"(3) [OF p refl refl]) (use 4(4) args in auto)
    ultimately show ?thesis by (simp add: p)
  qed
qed auto

end
