(* ===== verification/Prisma_Plan.thy ===== *)
theory Prisma_Plan
  imports Cel_Semantics
begin

text \<open>
  prisma/src/errors.ts and plan.ts: the refusal type, the shapes of an operand, and the comparison
  tables every handler shares.
\<close>

text \<open>A refusal the caller can route, or a plain \<open>Error\<close> (a mapper bug, or a failing property access).\<close>

datatype problem =
    UnsupportedQueryPlanError string
  | PlainError string

abbreviation refuse :: "string \<Rightarrow> problem + 'a" where
  "refuse message \<equiv> Inl (UnsupportedQueryPlanError message)"

definition isNamedOperand :: "operand \<Rightarrow> bool" where
  "isNamedOperand operand = (case operand of Variable _ \<Rightarrow> True | _ \<Rightarrow> False)"

definition isValueOperand :: "operand \<Rightarrow> bool" where
  "isValueOperand operand = (case operand of Value _ \<Rightarrow> True | _ \<Rightarrow> False)"

definition isOperatorOperand :: "operand \<Rightarrow> bool" where
  "isOperatorOperand operand = (case operand of Expression _ _ \<Rightarrow> True | _ \<Rightarrow> False)"

lemma operand_shapes [simp]:
  "isNamedOperand (Variable n)" "\<not> isNamedOperand (Value v)" "\<not> isNamedOperand (Expression op args)" "\<not> isNamedOperand Malformed"
  "isValueOperand (Value v)" "\<not> isValueOperand (Variable n)" "\<not> isValueOperand (Expression op args)" "\<not> isValueOperand Malformed"
  "isOperatorOperand (Expression op args)" "\<not> isOperatorOperand (Value v)" "\<not> isOperatorOperand (Variable n)" "\<not> isOperatorOperand Malformed"
  by (simp_all add: isNamedOperand_def isValueOperand_def isOperatorOperand_def)

lemma isValueOperandD: "isValueOperand e \<Longrightarrow> \<exists>v. e = Value v"
  by (cases e) simp_all

definition assertDefined :: "'a option \<Rightarrow> string \<Rightarrow> problem + 'a" where
  "assertDefined val message = (case val of None \<Rightarrow> refuse message | Some v \<Rightarrow> Inr v)"

definition assertLogicalOperands :: "string \<Rightarrow> operand list \<Rightarrow> problem + unit" where
  "assertLogicalOperands op args =
     (if (op = ''and'' \<or> op = ''or'') \<and> length args = 0 then refuse ''requires at least one operand'' else Inr ())"

text \<open>The Prisma scalar filter each Cerbos comparison lowers to.\<close>

definition CERBOS_TO_PRISMA_OPERATOR :: "(string \<times> string) list" where
  "CERBOS_TO_PRISMA_OPERATOR =
     [(''eq'', ''equals''), (''ne'', ''not''), (''lt'', ''lt''), (''le'', ''lte''), (''gt'', ''gt''), (''ge'', ''gte'')]"

definition COMPARISON_OPERATORS :: "string list" where
  "COMPARISON_OPERATORS = map fst CERBOS_TO_PRISMA_OPERATOR"

definition MIRRORED_OPERATOR :: "(string \<times> string) list" where
  "MIRRORED_OPERATOR = [(''lt'', ''gt''), (''gt'', ''lt''), (''le'', ''ge''), (''ge'', ''le'')]"

definition mirrorOperator :: "string \<Rightarrow> string" where
  "mirrorOperator op = (case map_of MIRRORED_OPERATOR op of Some m \<Rightarrow> m | None \<Rightarrow> op)"

definition normalizeBinaryOperands :: "string \<Rightarrow> operand list \<Rightarrow> string \<times> operand list" where
  "normalizeBinaryOperands op args =
     (case args of
        [first, second] \<Rightarrow>
          if isValueOperand first \<and> \<not> isValueOperand second then (mirrorOperator op, [second, first])
          else (op, args)
      | _ \<Rightarrow> (op, args))"

subsection \<open>Correctness\<close>

lemma COMPARISON_OPERATORS_iff: "op \<in> set COMPARISON_OPERATORS \<longleftrightarrow> comparison_of op \<noteq> None"
  by (auto simp: COMPARISON_OPERATORS_def CERBOS_TO_PRISMA_OPERATOR_def comparison_of.simps)

lemma comparison_of_mirror:
  "comparison_of (mirrorOperator op) =
     map_option (\<lambda>c. case c of Eq \<Rightarrow> Eq | Ne \<Rightarrow> Ne | Lt \<Rightarrow> Gt | Le \<Rightarrow> Ge | Gt \<Rightarrow> Lt | Ge \<Rightarrow> Le) (comparison_of op)"
  by (auto simp: comparison_of.simps mirrorOperator_def MIRRORED_OPERATOR_def)

end
