(* ===== verification/Prisma_Evaluate.thy ===== *)
theory Prisma_Evaluate
  imports Prisma_Plan
begin

text \<open>
  prisma/src/evaluate.ts: folding an operator over constants. The constants are JSON values, so the
  shapes a \<open>Value\<close> never has (durations, hierarchies, bigints) are answered by the last branch.
\<close>

definition ARITHMETIC_OPERATORS :: "string list" where
  "ARITHMETIC_OPERATORS = [''add'', ''sub'', ''mult'', ''div'']"

subsection \<open>Comparisons\<close>

text \<open>\<open>===\<close>\<close>

definition strict_equals :: "jsval \<Rightarrow> jsval \<Rightarrow> bool" where
  "strict_equals l r =
     (case (l, r) of
        (VNum a, VNum b) \<Rightarrow> num_le a b \<and> num_le b a
      | (VNum a, _) \<Rightarrow> False
      | _ \<Rightarrow> l = r)"

text \<open>
  \<open>key in right\<close> also finds inherited names. Their values are functions, equal to no constant, except
  \<open>Object.prototype\<close> itself, an object without enumerable keys.
\<close>

definition property_of :: "(jstring \<times> jsval) list \<Rightarrow> jstring \<Rightarrow> jsval option" where
  "property_of kvs key =
     (case map_of kvs key of
        Some v \<Rightarrow> Some v
      | None \<Rightarrow> if key = js ''__proto__'' then Some (VObj []) else None)"

fun areValuesEqual :: "jsval \<Rightarrow> jsval \<Rightarrow> bool" where
  "areValuesEqual (VArr l) right =
     (case right of
        VArr r \<Rightarrow> length l = length r \<and> list_all (\<lambda>(a, b). areValuesEqual a b) (zip l r)
      | _ \<Rightarrow> False)"
| "areValuesEqual (VObj l) right =
     (case right of
        VObj r \<Rightarrow>
          length l = length r \<and>
          list_all (\<lambda>(key, v). case property_of r key of Some w \<Rightarrow> areValuesEqual v w | None \<Rightarrow> False) l
      | _ \<Rightarrow> False)"
| "areValuesEqual left right = strict_equals left right"

text \<open>The loop of \<open>compareConstantValues\<close> over the code points of two strings.\<close>

fun compare_points :: "nat list \<Rightarrow> nat list \<Rightarrow> int" where
  "compare_points (x # xs) (y # ys) = (if x \<noteq> y then (if x < y then - 1 else 1) else compare_points xs ys)"
| "compare_points xs ys = (if length xs = length ys then 0 else if length xs < length ys then - 1 else 1)"

definition compareConstantValues :: "jsval \<Rightarrow> jsval \<Rightarrow> problem + int" where
  "compareConstantValues left right =
     (case (left, right) of
        (VNum a, VNum b) \<Rightarrow> Inr (if num_le a b \<and> num_le b a then 0 else if num_lt a b then - 1 else 1)
      | (VStr a, VStr b) \<Rightarrow> Inr (compare_points (code_points a) (code_points b))
      | _ \<Rightarrow> refuse ''Cannot order constant values of different types'')"

definition evaluateConstantComparison :: "string \<Rightarrow> jsval \<Rightarrow> jsval \<Rightarrow> problem + bool" where
  "evaluateConstantComparison op left right =
     (if op = ''in'' then
        (case right of
           VArr xs \<Rightarrow> Inr (list_ex (areValuesEqual left) xs)
         | _ \<Rightarrow> refuse ''in constant comparison requires a list'')
      else if op = ''eq'' then Inr (areValuesEqual left right)
      else if op = ''ne'' then Inr (\<not> areValuesEqual left right)
      else if op = ''lt'' \<or> op = ''le'' \<or> op = ''gt'' \<or> op = ''ge'' then
        (case (left, right) of
           (VNum a, VNum b) \<Rightarrow>
             if is_nan a \<or> is_nan b then Inr False
             else bindE (compareConstantValues left right) (\<lambda>order.
               Inr (if op = ''lt'' then order < 0 else if op = ''le'' then order \<le> 0
                    else if op = ''gt'' then 0 < order else 0 \<le> order))
         | (VStr a, VStr b) \<Rightarrow>
             bindE (compareConstantValues left right) (\<lambda>order.
               Inr (if op = ''lt'' then order < 0 else if op = ''le'' then order \<le> 0
                    else if op = ''gt'' then 0 < order else 0 \<le> order))
         | _ \<Rightarrow> refuse ''constant comparison requires two numbers or two strings'')
      else refuse ''Unsupported constant comparison operator'')"

subsection \<open>Arithmetic\<close>

text \<open>\<open>Number.prototype.toString\<close>, from the digits and the exponent.\<close>

definition number_to_string :: "jsnum \<Rightarrow> jstring" where
  "number_to_string x =
     (if is_nan x then js ''NaN''
      else if is_zero x then js ''0''
      else let sign = (if num_negative x then [45] else [])
           in if \<not> is_finite x then sign @ js ''Infinity''
              else let (digits, e) = to_exponential \<bar>num_val x\<bar>; k = int (length digits); n = e + 1
                   in if k \<le> n \<and> n \<le> 21 then sign @ digits @ replicate (nat (n - k)) 48
                      else if 0 < n \<and> n \<le> 21 then sign @ take (nat n) digits @ dot # drop (nat n) digits
                      else if - 6 < n \<and> n \<le> 0 then sign @ [48, dot] @ replicate (nat (- n)) 48 @ digits
                      else let fraction = (if k = 1 then [] else dot # drop 1 digits)
                           in sign @ take 1 digits @ fraction @ [101] @ (if e < 0 then [45] else [43])
                                @ nat_to_string (nat \<bar>e\<bar>))"

text \<open>
  \<open>String(value)\<close> of a JSON value: an array joins its elements, a null one as the empty string; an
  object whose own \<open>toString\<close> shadows the inherited one cannot be converted.
\<close>

fun js_String :: "jsval \<Rightarrow> jstring option" where
  "js_String VNull = Some (js ''null'')"
| "js_String (VBool b) = Some (if b then js ''true'' else js ''false'')"
| "js_String (VNum x) = Some (number_to_string x)"
| "js_String (VStr s) = Some s"
| "js_String (VArr xs) =
     (let parts = map (\<lambda>x. if x = VNull then Some [] else js_String x) xs
      in if None \<in> set parts then None else Some (js_join [44] (map the parts)))"
| "js_String (VObj kvs) = (if js ''toString'' \<in> fst ` set kvs then None else Some (js ''[object Object]''))"
| "js_String _ = None"

fun is_string :: "jsval \<Rightarrow> bool" where
  "is_string (VStr _) = True"
| "is_string _ = False"

definition foldArithmetic :: "string \<Rightarrow> jsval \<Rightarrow> jsval \<Rightarrow> problem + jsval" where
  "foldArithmetic op left right =
     (case (left, right) of
        (VArr xs, VArr ys) \<Rightarrow>
          if op = ''add'' then Inr (VArr (xs @ ys)) else refuse ''requires string or number operands''
      | _ \<Rightarrow>
          if op = ''add'' \<and> (is_string left \<or> is_string right) then
            (case (js_String left, js_String right) of
               (Some a, Some b) \<Rightarrow> Inr (VStr (a @ b))
             | _ \<Rightarrow> Inl (PlainError ''TypeError''))
          else (case (left, right) of
            (VNum a, VNum b) \<Rightarrow>
              (if op = ''add'' then Inr (VNum (num_add a b))
               else if op = ''sub'' then Inr (VNum (num_sub a b))
               else if op = ''mult'' then Inr (VNum (num_mul a b))
               else if op = ''div'' then Inr (VNum (num_div a b))
               else refuse ''Unsupported operator'')
          | _ \<Rightarrow> refuse ''requires string or number operands''))"

subsection \<open>Agreement with CEL\<close>

text \<open>A JSON value or a number folding made, no key of which is \<open>__proto__\<close>.\<close>

fun plan_value :: "jsval \<Rightarrow> bool" where
  "plan_value VNull = True"
| "plan_value (VBool _) = True"
| "plan_value (VNum _) = True"
| "plan_value (VStr _) = True"
| "plan_value (VArr xs) = list_all plan_value xs"
| "plan_value (VObj kvs) =
     (distinct (map fst kvs) \<and> list_all (\<lambda>(k, v). k \<noteq> js ''__proto__'' \<and> plan_value v) kvs)"
| "plan_value _ = False"

lemma plan_value_wf: "plan_value v \<Longrightarrow> wf_val v"
  by (induction v rule: plan_value.induct) (auto simp: list_all_iff)

lemma sort_length_set:
  "distinct xs \<Longrightarrow> distinct ys \<Longrightarrow> length xs = length ys \<Longrightarrow> set xs \<subseteq> set ys \<Longrightarrow> sort xs = sort (ys :: jstring list)"
  by (metis card_subset_eq distinct_card finite_set sorted_list_of_set_sort_remdups distinct_remdups_id)

lemma areValuesEqual_eq: "plan_value l \<Longrightarrow> plan_value r \<Longrightarrow> areValuesEqual l r = valuesEqual l r"
proof (induction l r rule: areValuesEqual.induct)
  case (1 l right)
  show ?case
  proof (cases right)
    case (VArr r)
    have "areValuesEqual a b = valuesEqual a b" if "(a, b) \<in> set (zip l r)" for a b
      using 1(1) [OF VArr that refl] 1(2,3) set_zip_leftD [OF that] set_zip_rightD [OF that]
      by (auto simp: VArr list_all_iff)
    then show ?thesis by (auto simp: VArr list_all_iff)
  qed simp_all
next
  case (2 l right)
  show ?case
  proof (cases right)
    case (VObj r)
    have d: "distinct (map fst l)" "distinct (map fst r)" using 2(2,3) by (simp_all add: VObj)
    have members: "plan_value v" "k \<noteq> js ''__proto__''" if "(k, v) \<in> set l" for k v
      using 2(2) that by (fastforce simp: list_all_iff)+
    have "plan_value w" if "(k, w) \<in> set r" for k w
      using 2(3) that unfolding VObj by (fastforce simp: list_all_iff)
    then have sub: "areValuesEqual v w = valuesEqual v w" if "(k, v) \<in> set l" "map_of r k = Some w" for k v w
      using 2(1) [OF VObj that(1) refl] that members(1) [OF that(1)] map_of_SomeD [OF that(2)]
      by (simp add: property_of_def)
    have each: "(case property_of r k of Some w \<Rightarrow> areValuesEqual v w | None \<Rightarrow> False) =
        (case map_of r k of Some w \<Rightarrow> valuesEqual v w | None \<Rightarrow> False)" if "(k, v) \<in> set l" for k v
      using sub [OF that] members(2) [OF that] by (simp add: property_of_def split: option.split)
    have "length l = length r \<longleftrightarrow> sort (map fst l) = sort (map fst r)"
      if "\<forall>(k, v) \<in> set l. map_of r k \<noteq> None"
    proof
      assume "length l = length r"
      moreover have "set (map fst l) \<subseteq> set (map fst r)" using that by (force simp: map_of_eq_None_iff)
      ultimately show "sort (map fst l) = sort (map fst r)" using sort_length_set [OF d] by simp
    qed (metis length_map length_sort)
    moreover have "list_all (\<lambda>(k, v). case map_of r k of Some w \<Rightarrow> valuesEqual v w | None \<Rightarrow> False) l \<Longrightarrow>
        \<forall>(k, v) \<in> set l. map_of r k \<noteq> None"
      by (auto simp: list_all_iff split: option.splits)
    moreover have "list_all (\<lambda>(k, v). case property_of r k of Some w \<Rightarrow> areValuesEqual v w | None \<Rightarrow> False) l =
        list_all (\<lambda>(k, v). case map_of r k of Some w \<Rightarrow> valuesEqual v w | None \<Rightarrow> False) l"
      using each by (auto simp: list_all_iff)
    ultimately show ?thesis unfolding VObj by auto
  qed simp_all
qed (auto simp: strict_equals_def scalarEqual_def num_le_def split: jsval.splits)

lemma plan_value_not_error [simp]: "plan_value v \<Longrightarrow> v \<noteq> VError" "plan_value v \<Longrightarrow> VError \<noteq> v"
  by auto

lemma compare_points_spec: "compare_points xs ys = (if xs < ys then - 1 else if ys < xs then 1 else 0)"
  by (induction xs ys rule: compare_points.induct) (auto simp: not_less dest: le_less_trans)

lemma compareCodePoints_points: "compareCodePoints a b = compare_points (code_points a) (code_points b)"
  by (simp add: compareCodePoints_spec compare_points_spec)

lemma compareValues_number:
  "c \<noteq> Eq \<Longrightarrow> c \<noteq> Ne \<Longrightarrow> compareValues c (VNum a) (VNum b) = VBool (holds c a b)"
  by (cases c) (simp_all add: compareValues_def isEvaluationError_def ordering_keys_def num_le_def)

lemma compareValues_string:
  "c \<noteq> Eq \<Longrightarrow> c \<noteq> Ne \<Longrightarrow>
     compareValues c (VStr a) (VStr b) =
       VBool (holds c (Fin (of_int (compare_points (code_points a) (code_points b)))) (Fin 0))"
  by (simp add: compareValues_def isEvaluationError_def ordering_keys_def compareCodePoints_points)

lemma ordered_pair:
  assumes "evaluateConstantComparison op l r = Inr b" "op \<noteq> ''in''" "op \<noteq> ''eq''" "op \<noteq> ''ne''"
  obtains x y where "l = VNum x" "r = VNum y" | x y where "l = VStr x" "r = VStr y"
proof -
  have "(\<exists>x y. l = VNum x \<and> r = VNum y) \<or> (\<exists>x y. l = VStr x \<and> r = VStr y)"
  proof (rule ccontr)
    assume n: "\<not> ?thesis"
    then have "(case (l, r) of (VNum a, VNum b) \<Rightarrow> P a b | (VStr a, VStr b) \<Rightarrow> Q a b | _ \<Rightarrow> z) = z" for P Q and z :: "problem + bool"
      by (auto split: jsval.split)
    then show False using assms by (simp add: evaluateConstantComparison_def split: if_splits)
  qed
  then show thesis using that by blast
qed

lemma constant_ordering:
  assumes op: "op = ''lt'' \<or> op = ''le'' \<or> op = ''gt'' \<or> op = ''ge''" and e: "evaluateConstantComparison op l r = Inr b"
  shows "\<exists>c. comparison_of op = Some c \<and> compareValues c l r = VBool b"
proof -
  have ne: "op \<noteq> ''in''" "op \<noteq> ''eq''" "op \<noteq> ''ne''" using op by auto
  obtain c where c: "comparison_of op = Some c" "c \<noteq> Eq" "c \<noteq> Ne" using op by (auto simp: comparison_of.simps)
  have num: "is_nan x \<or> is_nan y \<Longrightarrow> \<not> holds c x y"
    "\<not> is_nan x \<Longrightarrow> \<not> is_nan y \<Longrightarrow>
       (if op = ''lt'' then k < 0 else if op = ''le'' then k \<le> 0 else if op = ''gt'' then 0 < k else 0 \<le> k) = holds c x y"
    if "k = (if num_le x y \<and> num_le y x then 0 else if num_lt x y then - 1 else (1 :: int))" for x y k
    using op c(1) that by (auto simp: comparison_of.simps num_le_def dest: num_lt_asym)
  have str: "(if op = ''lt'' then k < 0 else if op = ''le'' then k \<le> 0 else if op = ''gt'' then 0 < k else 0 \<le> k) =
      holds c (Fin (of_int k)) (Fin 0)" for k :: int
    using op c(1) by (auto simp: comparison_of.simps num_le_def)
  show ?thesis
  proof (cases rule: ordered_pair [OF e ne])
    case (1 x y)
    have "b = holds c x y"
      using e op ne num [OF refl, of x y] by (auto simp: 1 evaluateConstantComparison_def compareConstantValues_def split: if_splits)
    then show ?thesis using c by (auto simp: 1 compareValues_number)
  next
    case (2 x y)
    have "b = holds c (Fin (of_int (compare_points (code_points x) (code_points y)))) (Fin 0)"
      using e op ne by (simp add: 2 evaluateConstantComparison_def compareConstantValues_def str)
    then show ?thesis using c by (auto simp: 2 compareValues_string)
  qed
qed

lemma valuesEqual_commute: "plan_value l \<Longrightarrow> plan_value r \<Longrightarrow> valuesEqual l r = valuesEqual r l"
  using valuesEqual_sym plan_value_wf by blast

text \<open>
  A comparison the folder decides between two constants has the value CEL gives it; a pair CEL cannot order
  is refused and not decided.
\<close>

lemma constant_comparison_cel:
  assumes "evaluateConstantComparison op l r = Inr b" "plan_value l" "plan_value r"
  shows "cel fn attr env (Expression op [Value l, Value r]) = VBool b"
proof -
  have parts: "lambda_parts op [Value l, Value r] = None" by (simp add: lambda_parts_def)
  have "binary_value op l r = Some (VBool b) \<and> op \<notin> {''and'', ''or'', ''not'', ''if'', ''list'', ''struct'', ''size''}"
  proof (cases "op = ''lt'' \<or> op = ''le'' \<or> op = ''gt'' \<or> op = ''ge''")
    case True
    obtain c where "comparison_of op = Some c" "compareValues c l r = VBool b"
      using constant_ordering [OF True assms(1)] by blast
    moreover have "compare_cel c l r = compareValues c l r" for c
      using assms(2) by (cases l) (simp_all add: compare_cel_def)
    ultimately have "binary_value op l r = Some (VBool b)" by (auto simp: binary_value_def)
    moreover have "op \<notin> {''and'', ''or'', ''not'', ''if'', ''list'', ''struct'', ''size''}" using True by auto
    ultimately show ?thesis by blast
  next
    case False
    then consider "op = ''in''" | "op = ''eq''" | "op = ''ne''"
      using assms(1) by (auto simp: evaluateConstantComparison_def split: if_splits)
    then show ?thesis
    proof cases
      case 1
      then obtain xs where r: "r = VArr xs" and b: "b = list_ex (areValuesEqual l) xs"
        using assms(1) by (auto simp: evaluateConstantComparison_def split: jsval.splits)
      have "areValuesEqual l x = valuesEqual x l" if "x \<in> set xs" for x
        using that assms(2,3) valuesEqual_commute [of l x] areValuesEqual_eq [of l x]
        by (auto simp: r list_all_iff)
      then show ?thesis by (auto simp: 1 r b binary_value_def comparison_of.simps string_test_def number_op_def
            contains_value_def list_ex_iff)
    qed (use assms areValuesEqual_eq [OF assms(2,3)] in \<open>auto simp: evaluateConstantComparison_def binary_value_def
        comparison_of.simps compareValues_def isEvaluationError_def\<close>)
  qed
  then show ?thesis using assms(2,3) by (simp add: parts operator_value_def strict_value_def)
qed

text \<open>What \<open>foldArithmetic\<close> agrees with CEL on: both numbers, both strings or both lists.\<close>

definition same_kind :: "jsval \<Rightarrow> jsval \<Rightarrow> bool" where
  "same_kind l r \<longleftrightarrow> (is_string l \<longleftrightarrow> is_string r)"

lemma fold_kinds:
  assumes "foldArithmetic op l r = Inr v" "same_kind l r"
  obtains xs ys where "l = VArr xs" "r = VArr ys" "op = ''add''" | a b where "l = VStr a" "r = VStr b" "op = ''add''"
    | a b where "l = VNum a" "r = VNum b"
proof -
  have "(\<exists>xs ys. l = VArr xs \<and> r = VArr ys \<and> op = ''add'') \<or> (\<exists>a b. l = VStr a \<and> r = VStr b \<and> op = ''add'') \<or>
      (\<exists>a b. l = VNum a \<and> r = VNum b)"
  proof (cases "is_string l")
    case True
    then obtain s t where "l = VStr s" "r = VStr t" using assms(2) by (metis is_string.elims(2) same_kind_def)
    then show ?thesis using assms(1) by (auto simp: foldArithmetic_def split: if_splits)
  next
    case False
    then have s: "\<not> is_string r" "\<not> (op = ''add'' \<and> (is_string l \<or> is_string r))" using assms(2) by (simp_all add: same_kind_def)
    show ?thesis
    proof (cases l)
      case (VArr xs)
      then show ?thesis using assms(1) s by (cases r) (auto simp: foldArithmetic_def split: if_splits)
    next
      case (VNum x)
      then show ?thesis using assms(1) s by (cases r) (auto simp: foldArithmetic_def)
    qed (use assms(1) s in \<open>simp_all add: foldArithmetic_def\<close>)
  qed
  then show thesis using that by blast
qed

lemma foldArithmetic_strict:
  assumes f: "foldArithmetic op l r = Inr v" "same_kind l r" and op: "number_op op \<noteq> None"
  shows "add_values op l r = v"
proof (cases rule: fold_kinds [OF f])
  case (3 a b)
  then show ?thesis using f(1) op
    by (auto simp: foldArithmetic_def add_values_def number_op_def split: if_splits)
qed (use f in \<open>simp_all add: foldArithmetic_def add_values_def\<close>)

end
