(* ===== verification/Prisma_Rewrite.thy ===== *)
theory Prisma_Rewrite
  imports Prisma_Evaluate
begin

text \<open>
  prisma/src/rewrite.ts: the plan-to-plan rewrites that run before translation. A value inherited from
  \<open>Object.prototype\<close> is not found in a collection element here: paths are read through own properties.
\<close>

definition COLLECTION_OPERATORS :: "string list" where
  "COLLECTION_OPERATORS = [''exists'', ''exists_one'', ''all'', ''except'', ''filter'']"

definition LAMBDA_BINDING_OPERATORS :: "string list" where
  "LAMBDA_BINDING_OPERATORS = COLLECTION_OPERATORS @ [''map'']"

fun containsCollectionOperator :: "operand \<Rightarrow> bool" where
  "containsCollectionOperator (Expression op args) =
     (op \<in> set COLLECTION_OPERATORS \<or> list_ex containsCollectionOperator args)"
| "containsCollectionOperator _ = False"

subsection \<open>Substitution\<close>

text \<open>The loop that drills a dotted path into an element.\<close>

fun drill :: "jsval \<Rightarrow> jstring list \<Rightarrow> problem + jsval" where
  "drill current [] = Inr current"
| "drill current (segment # segments) =
     (case current of
        VObj kvs \<Rightarrow>
          (case map_of kvs segment of
             Some v \<Rightarrow> drill v segments
           | None \<Rightarrow> refuse ''collection element has no field'')
      | _ \<Rightarrow> refuse ''collection element has no field'')"

text \<open>\<open>macro(collection, lambda(_, variable, ...))\<close>: the collection, when the lambda binds this very name.\<close>

definition shadowing :: "string \<Rightarrow> operand list \<Rightarrow> jstring \<Rightarrow> bool" where
  "shadowing op args variableName \<longleftrightarrow>
     op \<in> set LAMBDA_BINDING_OPERATORS \<and>
     (case args of
        [nestedCollection, Expression l parts] \<Rightarrow>
          l = ''lambda'' \<and> nth_opt parts 1 = Some (Variable variableName)
      | _ \<Rightarrow> False)"

lemma shadowingD:
  "shadowing op args v \<Longrightarrow>
     op \<in> set LAMBDA_BINDING_OPERATORS \<and>
     (\<exists>c parts. args = [c, Expression ''lambda'' parts] \<and> nth_opt parts 1 = Some (Variable v))"
  by (cases args rule: remdups_adj.cases; cases "drop 2 args"; cases "args ! 1") (auto simp: shadowing_def)

lemma shadowing_size [termination_simp]: "shadowing op args v \<Longrightarrow> size (hd args) < Suc (size_list size args)"
  by (auto dest: shadowingD)

fun substituteLambdaVariable :: "operand \<Rightarrow> jstring \<Rightarrow> jsval \<Rightarrow> problem + operand" where
  "substituteLambdaVariable (Variable name) variableName element =
     (if name = variableName then Inr (Value element)
      else if startsWith name (variableName @ [dot]) then
        bindE (drill element (js_split [dot] (drop (length variableName + 1) name))) (\<lambda>v. Inr (Value v))
      else Inr (Variable name))"
| "substituteLambdaVariable (Expression op args) variableName element =
     (if shadowing op args variableName then
        bindE (substituteLambdaVariable (hd args) variableName element) (\<lambda>collection.
          Inr (Expression op [collection, args ! 1]))
      else bindE (mapE (\<lambda>o'. substituteLambdaVariable o' variableName element) args) (\<lambda>substituted.
          Inr (Expression op substituted)))"
| "substituteLambdaVariable operand variableName element = Inr operand"

fun mentionsVariable :: "operand \<Rightarrow> jstring \<Rightarrow> bool" where
  "mentionsVariable (Variable name) variableName =
     (name = variableName \<or> startsWith name (variableName @ [dot]))"
| "mentionsVariable (Expression op args) variableName = list_ex (\<lambda>a. mentionsVariable a variableName) args"
| "mentionsVariable _ variableName = False"

definition isOuterScopeName :: "jstring \<Rightarrow> jstring list \<Rightarrow> bool" where
  "isOuterScopeName name enclosingVariables \<longleftrightarrow>
     \<not> list_ex (\<lambda>variable. name = variable \<or> startsWith name (variable @ [dot])) enclosingVariables"

fun substituteNamedOperand :: "operand \<Rightarrow> jstring \<Rightarrow> bool \<Rightarrow> operand" where
  "substituteNamedOperand (Variable n) name val = (if n = name then Value (VBool val) else Variable n)"
| "substituteNamedOperand (Expression op args) name val =
     Expression op (map (\<lambda>a. substituteNamedOperand a name val) args)"
| "substituteNamedOperand e name val = e"

definition BOOLEAN_POSITION_OPERATORS :: "string list" where
  "BOOLEAN_POSITION_OPERATORS = [''and'', ''or'', ''not'', ''if'']"

text \<open>The first result of a search over the operands.\<close>

fun first_some :: "('a \<Rightarrow> 'b option) \<Rightarrow> 'a list \<Rightarrow> 'b option" where
  "first_some f [] = None"
| "first_some f (x # xs) = (case f x of Some y \<Rightarrow> Some y | None \<Rightarrow> first_some f xs)"

lemma first_some_cong [fundef_cong]:
  "xs = ys \<Longrightarrow> (\<And>x. x \<in> set ys \<Longrightarrow> f x = g x) \<Longrightarrow> first_some f xs = first_some g ys"
proof (induction ys arbitrary: xs)
  case (Cons y ys)
  then show ?case by (auto split: option.split)
qed simp

lemma first_some_Some: "first_some f xs = Some y \<Longrightarrow> \<exists>x \<in> set xs. f x = Some y"
  by (induction xs) (auto split: option.splits)

definition booleanPositions :: "string \<Rightarrow> operand list \<Rightarrow> operand list" where
  "booleanPositions op args =
     (if op \<in> set BOOLEAN_POSITION_OPERATORS then args
      else filter (\<lambda>operand. case operand of
             Expression o' _ \<Rightarrow> o' \<in> set BOOLEAN_POSITION_OPERATORS | _ \<Rightarrow> False) args)"

lemma booleanPositions_mem [termination_simp]:
  "x \<in> set (booleanPositions op args) \<Longrightarrow> size x < Suc (size_list size args)"
  by (auto simp: booleanPositions_def size_list_member_less split: if_splits)

fun findOuterBooleanReference :: "operand \<Rightarrow> jstring list \<Rightarrow> jstring option" where
  "findOuterBooleanReference (Variable name) enclosingVariables =
     (if isOuterScopeName name enclosingVariables then Some name else None)"
| "findOuterBooleanReference (Expression op args) enclosingVariables =
     first_some (\<lambda>operand. findOuterBooleanReference operand enclosingVariables) (booleanPositions op args)"
| "findOuterBooleanReference _ enclosingVariables = None"

subsection \<open>Hoisting references to an enclosing scope\<close>

text \<open>The collection, the lambda's body and its variable.\<close>

definition parseLambdaMacro :: "string \<Rightarrow> operand list \<Rightarrow> (operand \<times> operand \<times> jstring) option" where
  "parseLambdaMacro op args =
     (case args of
        [collection, Expression l [body, Variable variable]] \<Rightarrow>
          if op \<in> set COLLECTION_OPERATORS \<and> l = ''lambda'' then Some (collection, body, variable) else None
      | _ \<Rightarrow> None)"

lemma parseLambdaMacroD:
  "parseLambdaMacro op args = Some (c, body, x) \<Longrightarrow>
     op \<in> set COLLECTION_OPERATORS \<and> args = [c, Expression ''lambda'' [body, Variable x]]"
  by (auto simp: parseLambdaMacro_def split: if_splits list.splits operand.splits)

lemma parseLambdaMacro_size [termination_simp]:
  "parseLambdaMacro op args = Some (c, body, x) \<Longrightarrow> size body < Suc (size_list size args)"
  by (auto dest: parseLambdaMacroD)

definition rebuild :: "string \<Rightarrow> operand \<Rightarrow> jstring \<Rightarrow> operand \<Rightarrow> operand" where
  "rebuild op collection variable newBody =
     Expression op [collection, Expression ''lambda'' [newBody, Variable variable]]"

definition hoistConjuncts :: "string \<Rightarrow> operand \<Rightarrow> jstring \<Rightarrow> operand \<Rightarrow> operand option" where
  "hoistConjuncts op collection variable body =
     (case body of
        Expression o' args \<Rightarrow>
          if op = ''exists'' \<and> o' = ''and'' then
            let elementConjuncts = filter (\<lambda>operand. mentionsVariable operand variable) args;
                outerConjuncts = filter (\<lambda>operand. \<not> mentionsVariable operand variable) args
            in if outerConjuncts \<noteq> [] \<and> elementConjuncts \<noteq> [] then
                 let innerBody = (if length elementConjuncts = 1 then hd elementConjuncts
                                  else Expression ''and'' elementConjuncts)
                 in Some (Expression ''and'' (rebuild op collection variable innerBody # outerConjuncts))
               else None
          else None
      | _ \<Rightarrow> None)"

definition caseSplit :: "string \<Rightarrow> operand \<Rightarrow> jstring \<Rightarrow> operand \<Rightarrow> jstring \<Rightarrow> operand" where
  "caseSplit op collection variable body outerRef =
     (let q = Variable outerRef;
          notQ = Expression ''not'' [q];
          arms =
            [Expression ''and'' [q, rebuild op collection variable (substituteNamedOperand body outerRef True)],
             Expression ''and'' [notQ, rebuild op collection variable (substituteNamedOperand body outerRef False)],
             Expression ''and'' [q, notQ]]
      in Expression ''or''
           (if op = ''all'' then arms @ [rebuild op collection variable (Value (VBool False))] else arms))"

fun hoistOuterScopeReferences :: "operand \<Rightarrow> jstring list \<Rightarrow> operand" where
  "hoistOuterScopeReferences (Expression op args) enclosingVariables =
     (case parseLambdaMacro op args of
        None \<Rightarrow> Expression op (map (\<lambda>operand. hoistOuterScopeReferences operand enclosingVariables) args)
      | Some (collection, lambdaBody, variable) \<Rightarrow>
          let scopeVariables = enclosingVariables @ [variable];
              body = hoistOuterScopeReferences lambdaBody scopeVariables
          in case hoistConjuncts op collection variable body of
               Some hoisted \<Rightarrow> hoisted
             | None \<Rightarrow>
                 (case findOuterBooleanReference body scopeVariables of
                    Some outerRef \<Rightarrow> caseSplit op collection variable body outerRef
                  | None \<Rightarrow> rebuild op collection variable body))"
| "hoistOuterScopeReferences expr enclosingVariables = expr"

subsection \<open>Constant folding\<close>

fun value_of :: "operand \<Rightarrow> jsval option" where
  "value_of (Value v) = Some v"
| "value_of _ = None"

definition foldLogical :: "string \<Rightarrow> operand list \<Rightarrow> operand" where
  "foldLogical op args =
     (let dominant = (op = ''or'') in
      if list_ex (\<lambda>o'. value_of o' = Some (VBool dominant)) args then Value (VBool dominant)
      else let remaining = filter (\<lambda>o'. \<not> isValueOperand o') args
           in if remaining = [] then Value (VBool (\<not> dominant))
              else if length remaining = 1 then hd remaining
              else Expression op remaining)"

text \<open>The first two operands, when both are constants.\<close>

definition bothConstant :: "operand list \<Rightarrow> (jsval \<times> jsval) option" where
  "bothConstant args = (case args of Value a # Value b # _ \<Rightarrow> Some (a, b) | _ \<Rightarrow> None)"

text \<open>The constant body of a lambda.\<close>

definition lambdaConstant :: "operand list \<Rightarrow> (operand \<times> jsval) option" where
  "lambdaConstant args =
     (case args of
        first # Expression l (Value b # _) # _ \<Rightarrow> if l = ''lambda'' then Some (first, b) else None
      | _ \<Rightarrow> None)"

definition fold_operator :: "string \<Rightarrow> operand list \<Rightarrow> problem + operand" where
  "fold_operator op args =
     (let folded = Expression op args in
      if op = ''if'' then
        (case args of
           Value v # branches \<Rightarrow>
             (case v of
                VBool b \<Rightarrow> assertDefined (nth_opt branches (if b then 0 else 1)) ''if (ternary) requires branch operands''
              | _ \<Rightarrow> refuse ''if (ternary) condition must be a boolean expression'')
         | _ \<Rightarrow> Inr folded)
      else if op = ''and'' \<or> op = ''or'' then Inr (foldLogical op args)
      else if op = ''not'' then
        (case args of Value v # _ \<Rightarrow> Inr (Value (VBool (v \<noteq> VBool True))) | _ \<Rightarrow> Inr folded)
      else if op \<in> set ARITHMETIC_OPERATORS then
        (case bothConstant args of
           Some (a, b) \<Rightarrow> bindE (foldArithmetic op a b) (\<lambda>v. Inr (Value v))
         | None \<Rightarrow> Inr folded)
      else if op = ''contains'' \<or> op = ''startsWith'' \<or> op = ''endsWith'' then
        (case bothConstant args of
           Some (VStr receiver, VStr needle) \<Rightarrow>
             Inr (Value (VBool
               (if op = ''contains'' then js_includes receiver needle
                else if op = ''startsWith'' then startsWith receiver needle else endsWith receiver needle)))
         | _ \<Rightarrow> Inr folded)
      else if op = ''exists'' \<or> op = ''all'' then
        (case lambdaConstant args of
           Some (first, b) \<Rightarrow>
             let bodyValue = (b = VBool True) in
             if op = ''exists'' \<and> \<not> bodyValue then Inr (Value (VBool False))
             else if op = ''all'' \<and> bodyValue then Inr (Value (VBool True))
             else Inr (Expression (if op = ''exists'' then ''gt'' else ''eq'')
                    [Expression ''size'' [first], Value (VInt 0)])
         | None \<Rightarrow> Inr folded)
      else if op \<in> set COMPARISON_OPERATORS then
        (case bothConstant args of
           Some (a, b) \<Rightarrow> bindE (evaluateConstantComparison op a b) (\<lambda>r. Inr (Value (VBool r)))
         | None \<Rightarrow> Inr folded)
      else Inr folded)"

fun constantFoldExpression :: "operand \<Rightarrow> problem + operand" where
  "constantFoldExpression (Expression op args) =
     bindE (assertLogicalOperands op args) (\<lambda>_.
     bindE (mapE constantFoldExpression args) (\<lambda>operands. fold_operator op operands))"
| "constantFoldExpression expr = Inr expr"

end
