(* ===== verification/Prisma_Hoist.thy ===== *)
theory Prisma_Hoist
  imports Prisma_Rewrite
begin

text \<open>
  What \<open>hoistOuterScopeReferences\<close> does to the meaning of a plan: it never turns an error or a value into
  another value, as long as every collection a macro ranges over is there; over a missing one it does.
\<close>

subsection \<open>Substituting a boolean reference\<close>

text \<open>The variables the macros of a plan bind.\<close>

fun binders :: "operand \<Rightarrow> jstring list" where
  "binders (Expression op args) =
     (case lambda_parts op args of
        Some (c, body, x) \<Rightarrow> x # binders c @ binders body
      | None \<Rightarrow> concat (map binders args))"
| "binders _ = []"

lemma lambda_parts_cases:
  obtains (macro) c body x where "lambda_parts op args = Some (c, body, x)"
      "args = [c, Expression ''lambda'' [body, Variable x]]" "op \<in> set macro_names"
  | (plain) "lambda_parts op args = None"
proof (cases "lambda_parts op args")
  case (Some p)
  then obtain c body x where "lambda_parts op args = Some (c, body, x)" by (cases p) auto
  then show thesis using lambda_partsD macro by blast
qed (rule plain)

lemma lambda_parts_macro [simp]:
  "op \<in> set macro_names \<Longrightarrow> lambda_parts op [c, Expression ''lambda'' [body, Variable x]] = Some (c, body, x)"
  by (simp add: lambda_parts_def)

lemma lambda_parts_None_map:
  assumes "lambda_parts op args = None"
    "\<And>x n. g x = Variable n \<Longrightarrow> x = Variable n"
    "\<And>x l parts. g x = Expression l parts \<Longrightarrow> l = ''lambda'' \<Longrightarrow> \<exists>ps. x = Expression ''lambda'' ps \<and> parts = map g ps"
  shows "lambda_parts op (map g args) = None"
proof (rule ccontr)
  assume "lambda_parts op (map g args) \<noteq> None"
  then obtain c body x where some: "lambda_parts op (map g args) = Some (c, body, x)" by (metis not_None_eq prod_cases3)
  note D = lambda_partsD [OF some]
  then obtain a b where args: "args = [a, b]" and b: "g b = Expression ''lambda'' [body, Variable x]" by auto
  obtain ps where ps: "b = Expression ''lambda'' ps" "map g ps = [body, Variable x]" using assms(3) [OF b] by auto
  then obtain p p' where "ps = [p, p']" "g p' = Variable x" by auto
  then have "args = [a, Expression ''lambda'' [p, Variable x]]" using assms(2) args ps by auto
  then show False using D assms(1) by simp
qed

lemma substituteNamed_shapes:
  "substituteNamedOperand e n b = Variable m \<Longrightarrow> e = Variable m"
  "substituteNamedOperand e n b = Expression l parts \<Longrightarrow>
     \<exists>ps. e = Expression l ps \<and> parts = map (\<lambda>a. substituteNamedOperand a n b) ps"
  by (cases e; auto split: if_splits)+

lemma covers_refl [simp]: "covers x x"
  by (simp add: covers_def)

lemma look_cons_other: "\<not> covers x n \<Longrightarrow> look attr ((x, item) # env) n = look attr env n"
  by auto

lemma cel_substituteNamed:
  assumes "look attr env q = VBool b" "\<forall>y \<in> set (binders e). \<not> covers y q"
  shows "cel fn attr env (substituteNamedOperand e q b) = cel fn attr env e"
  using assms
proof (induction fn attr env e rule: cel.induct)
  case (4 fn attr env op args)
  show ?case
  proof (cases rule: lambda_parts_cases [of op args])
    case (macro c body x)
    have x: "\<not> covers x q" using 4(5) macro(1) by simp
    then have "x \<noteq> q" by (auto simp: covers_def)
    have "cel fn attr env (substituteNamedOperand c q b) = cel fn attr env c"
      by (rule "4.IH"(2) [OF macro(1) refl refl]) (use 4(4,5) macro(1) in auto)
    moreover have "cel fn attr ((x, item) # env) (substituteNamedOperand body q b) = cel fn attr ((x, item) # env) body" for item
      by (rule "4.IH"(3) [OF macro(1) refl refl]) (use 4(4,5) macro(1) x in auto)
    ultimately show ?thesis using macro(3) \<open>x \<noteq> q\<close> by (simp add: macro(2))
  next
    case plain
    have "lambda_parts op (map (\<lambda>a. substituteNamedOperand a q b) args) = None"
      by (rule lambda_parts_None_map [OF plain]) (auto dest: substituteNamed_shapes)
    moreover have "cel fn attr env (substituteNamedOperand a q b) = cel fn attr env a" if "a \<in> set args" for a
      by (rule "4.IH"(1) [OF plain that]) (use 4(4,5) plain that in auto)
    ultimately show ?thesis using plain by (simp add: comp_def cong: map_cong)
  qed
qed auto

lemma cel_unmentioned: "\<not> mentionsVariable e x \<Longrightarrow> cel fn attr ((x, item) # env) e = cel fn attr env e"
proof (rule cel_cong)
  fix n assume "\<not> mentionsVariable e x" "n \<in> set (names_in e)"
  then have "\<not> covers x n"
    by (induction e) (auto simp: covers_def list_ex_iff)
  then show "look attr ((x, item) # env) n = look attr env n" by (rule look_cons_other)
qed

subsection \<open>The two transforms\<close>

lemma k_all_append: "k_all (ss @ ts) = k_all [k_all ss, k_all ts]"
  by (auto simp: k_all_def)

lemma k_all_single [simp]: "k_all [t] = t"
  by (cases t) (auto simp: k_all_def)

lemma k_all_Cons: "k_all (t # ts) = k_all [t, k_all ts]"
  using k_all_append [of "[t]" ts] by simp

lemma k_all_set: "set ss = set ts \<Longrightarrow> k_all ss = k_all ts"
  by (simp add: k_all_def)

lemma k_all_partition:
  "k_all (map f xs) = k_all [k_all (map f (filter P xs)), k_all (map f (filter (\<lambda>x. \<not> P x) xs))]"
proof -
  have "k_all (map f xs) = k_all (map f (filter P xs) @ map f (filter (\<lambda>x. \<not> P x) xs))"
    by (rule k_all_set) auto
  then show ?thesis by (simp add: k_all_append)
qed

lemma truth_eqI: "(s = TT \<longleftrightarrow> t = TT) \<Longrightarrow> (s = FF \<longleftrightarrow> t = FF) \<Longrightarrow> s = t"
  by (cases s; cases t) simp_all

lemma k_ex_map_TT: "k_ex (map f xs) = TT \<longleftrightarrow> (\<exists>x \<in> set xs. f x = TT)"
  by (force simp: k_ex_TT image_iff)

lemma k_all_two: "k_all [s, t] = TT \<longleftrightarrow> s = TT \<and> t = TT" "k_all [s, t] = FF \<longleftrightarrow> s = FF \<or> t = FF"
  by (cases s; cases t; simp add: k_all_def)+

lemma k_ex_factor: "k_ex (map (\<lambda>x. k_all [g x, t]) xs) = k_all [k_ex (map g xs), t]"
  by (rule truth_eqI) (auto simp: k_ex_map_TT k_ex_FF k_all_two)

lemma collection_macro: "op \<in> set COLLECTION_OPERATORS \<Longrightarrow> op \<in> set macro_names"
  by (auto simp: COLLECTION_OPERATORS_def macro_names_def)

lemma cel_rebuild:
  "op \<in> set COLLECTION_OPERATORS \<Longrightarrow>
     cel fn attr env (rebuild op c x body) =
       macro_value op (cel fn attr env c) (\<lambda>item. cel fn attr ((x, item) # env) body)"
  by (simp add: rebuild_def collection_macro)

lemma all_collection: "''all'' \<in> set COLLECTION_OPERATORS"
  by (simp add: COLLECTION_OPERATORS_def)

lemma cel_and: "cel fn attr env (Expression ''and'' args) = of_truth (k_all (map (\<lambda>a. verdict (cel fn attr env a)) args))"
  by (simp add: lambda_parts_def macro_names_def operator_value_def comp_def)

lemma cel_or: "cel fn attr env (Expression ''or'' args) = of_truth (k_ex (map (\<lambda>a. verdict (cel fn attr env a)) args))"
  by (simp add: lambda_parts_def macro_names_def operator_value_def comp_def)

lemma cel_not: "cel fn attr env (Expression ''not'' (a # args)) = of_truth (k_not (verdict (cel fn attr env a)))"
  by (simp add: lambda_parts_def macro_names_def operator_value_def)

lemma hoistConjuncts_exact:
  assumes "hoistConjuncts op c x body = Some hoisted" "items (cel fn attr env c) = Some xs"
  shows "cel fn attr env hoisted =
    macro_value op (cel fn attr env c) (\<lambda>item. cel fn attr ((x, item) # env) body)"
proof -
  obtain args where op: "op = ''exists''" and body: "body = Expression ''and'' args"
    using assms(1) by (auto simp: hoistConjuncts_def split: operand.splits if_splits)
  define inner where "inner = filter (\<lambda>a. mentionsVariable a x) args"
  define outer where "outer = filter (\<lambda>a. \<not> mentionsVariable a x) args"
  define single where "single = (if length inner = 1 then hd inner else Expression ''and'' inner)"
  have hoisted: "hoisted = Expression ''and'' (rebuild op c x single # outer)" and ne: "inner \<noteq> []"
    using assms(1) by (auto simp: hoistConjuncts_def op body Let_def inner_def outer_def single_def split: if_splits)
  have out: "map (\<lambda>a. verdict (cel fn attr ((x, item) # env) a)) outer = map (\<lambda>a. verdict (cel fn attr env a)) outer" for item
    by (auto simp: outer_def cel_unmentioned)
  define o_truth where "o_truth = k_all (map (\<lambda>a. verdict (cel fn attr env a)) outer)"
  define e_truth where "e_truth item = k_all (map (\<lambda>a. verdict (cel fn attr ((x, item) # env) a)) inner)" for item
  have b: "verdict (cel fn attr ((x, item) # env) body) = k_all [e_truth item, o_truth]" for item
    unfolding body cel_and verdict_of_truth
    by (subst k_all_partition [where P = "\<lambda>a. mentionsVariable a x"])
      (simp only: inner_def [symmetric] outer_def [symmetric] out e_truth_def o_truth_def)
  have s: "verdict (cel fn attr ((x, item) # env) single) = e_truth item" for item
  proof (cases "length inner = 1")
    case True
    then obtain a where "inner = [a]" by (auto simp: length_Suc_conv)
    then show ?thesis by (simp add: single_def e_truth_def)
  qed (simp add: single_def e_truth_def cel_and del: cel.simps)
  have "op \<in> set COLLECTION_OPERATORS" by (simp add: op COLLECTION_OPERATORS_def)
  note r = cel_rebuild [OF this, of fn attr env c x single]
  show ?thesis
    unfolding hoisted cel_and list.map k_all_Cons [where ts = "map _ outer"] r
    by (simp add: macro_value_def assms(2) op Let_def s b k_ex_factor o_truth_def del: cel.simps)
qed

lemma find_not_covered:
  "findOuterBooleanReference e vs = Some q \<Longrightarrow> x \<in> set vs \<Longrightarrow> \<not> covers x q"
proof (induction e vs rule: findOuterBooleanReference.induct)
  case (2 op args vs)
  then obtain a where "a \<in> set (booleanPositions op args)" "findOuterBooleanReference a vs = Some q"
    by (auto dest: first_some_Some)
  then show ?case using 2(1,3) by blast
qed (auto simp: isOuterScopeName_def list_ex_iff covers_def split: if_splits)

lemma caseSplit_sound:
  assumes op: "op \<in> set COLLECTION_OPERATORS" and xs: "items (cel fn attr env c) = Some xs"
    and q: "\<not> covers x q" "\<forall>y \<in> set (binders body). \<not> covers y q"
  shows "approx (cel fn attr env (caseSplit op c x body q))
    (macro_value op (cel fn attr env c) (\<lambda>item. cel fn attr ((x, item) # env) body))"
proof -
  define m where "m body = macro_value op (cel fn attr env c) (\<lambda>item. cel fn attr ((x, item) # env) body)" for body
  define t where "t = verdict (look attr env q)"
  have sub: "m (substituteNamedOperand body q b) = m body" if "t = truth_of b" for b
  proof -
    have "look attr env q = VBool b" using that unfolding t_def by (cases "look attr env q"; cases b) (auto simp: truth_of_def split: if_splits)
    then have "cel fn attr ((x, item) # env) (substituteNamedOperand body q b) = cel fn attr ((x, item) # env) body" for item
      using q by (intro cel_substituteNamed) (simp_all only: look_cons_other simp_thms)
    then show ?thesis by (simp add: m_def)
  qed
  define arms where "arms =
    [k_all [t, verdict (m (substituteNamedOperand body q True))],
     k_all [k_not t, verdict (m (substituteNamedOperand body q False))], k_all [t, k_not t]]"
  have split: "cel fn attr env (caseSplit op c x body q) =
      of_truth (k_ex (if op = ''all'' then arms @ [verdict (m (Value (VBool False)))] else arms))"
    unfolding caseSplit_def Let_def cel_or by (simp add: cel_and cel_not cel_rebuild op all_collection arms_def m_def t_def del: cel.simps(4))
  have all: "m (Value (VBool False)) = VBool (xs = [])" if "op = ''all''"
    using that by (cases xs) (auto simp: m_def macro_value_def xs k_all_def truth_of_def)
  have empty: "m body = VBool True" if "op = ''all''" "xs = []"
    using that by (simp add: m_def macro_value_def xs k_all_def)
  have approx_verdict: "approx (of_truth (verdict v)) v" for v
    by (cases v) (auto simp: approx_def truth_of_def)
  have "approx (of_truth (k_ex (if op = ''all'' then arms @ [verdict (m (Value (VBool False)))] else arms))) (m body)"
  proof (cases t)
    case TT
    then have a: "arms = [verdict (m body), FF, FF]"
      using sub [of True] by (auto simp: arms_def truth_of_def k_all_def) (cases "verdict (m body)"; simp)
    show ?thesis using empty all approx_verdict [of "m body"]
      by (cases "verdict (m body)") (auto simp: a k_ex_def truth_of_def)
  next
    case FF
    then have a: "arms = [FF, verdict (m body), FF]"
      using sub [of False] by (auto simp: arms_def truth_of_def k_all_def) (cases "verdict (m body)"; simp)
    show ?thesis using empty all approx_verdict [of "m body"]
      by (cases "verdict (m body)") (auto simp: a k_ex_def truth_of_def)
  next
    case EE
    then have a: "TT \<notin> set arms" "EE \<in> set arms" by (auto simp: arms_def k_all_def)
    show ?thesis using empty all a by (auto simp: k_ex_def truth_of_def)
  qed
  then show ?thesis by (simp only: split m_def)
qed

subsection \<open>Soundness\<close>

text \<open>Every collection a macro of the plan ranges over is a list or a map, in every row of the macros around it.\<close>

fun present :: "(string \<Rightarrow> jsval list \<Rightarrow> jsval) \<Rightarrow> (jstring \<Rightarrow> jsval) \<Rightarrow> env \<Rightarrow> operand \<Rightarrow> bool" where
  "present fn attr env (Expression op args) =
     (case lambda_parts op args of
        Some (c, body, x) \<Rightarrow>
          present fn attr env c \<and>
          (case items (cel fn attr env c) of
             None \<Rightarrow> False
           | Some xs \<Rightarrow> list_all (\<lambda>item. present fn attr ((x, item) # env) body) xs)
      | None \<Rightarrow> list_all (present fn attr env) args)"
| "present fn attr env e = True"

text \<open>No macro inside a lambda's body rebinds the reference the body is split on.\<close>

fun capture_free :: "jstring list \<Rightarrow> operand \<Rightarrow> bool" where
  "capture_free vs (Expression op args) =
     (case parseLambdaMacro op args of
        None \<Rightarrow> list_all (capture_free vs) args
      | Some (c, body, x) \<Rightarrow>
          capture_free (vs @ [x]) body \<and>
          (let body' = hoistOuterScopeReferences body (vs @ [x])
           in case findOuterBooleanReference body' (vs @ [x]) of
                None \<Rightarrow> True
              | Some q \<Rightarrow> list_all (\<lambda>y. \<not> covers y q) (binders body')))"
| "capture_free vs e = True"

lemma hoist_shapes:
  "hoistOuterScopeReferences e vs = Variable n \<Longrightarrow> e = Variable n"
  "hoistOuterScopeReferences e vs = Expression l parts \<Longrightarrow> l = ''lambda'' \<Longrightarrow>
     \<exists>ps. e = Expression ''lambda'' ps \<and> parts = map (\<lambda>a. hoistOuterScopeReferences a vs) ps"
proof -
  show "hoistOuterScopeReferences e vs = Variable n \<Longrightarrow> e = Variable n"
    by (cases e) (auto simp: Let_def hoistConjuncts_def caseSplit_def rebuild_def split: option.splits operand.splits if_splits)
  assume h: "hoistOuterScopeReferences e vs = Expression l parts" and l: "l = ''lambda''"
  then obtain op args where e: "e = Expression op args" by (cases e) auto
  show "\<exists>ps. e = Expression ''lambda'' ps \<and> parts = map (\<lambda>a. hoistOuterScopeReferences a vs) ps"
  proof (cases "parseLambdaMacro op args")
    case None
    then show ?thesis using h l by (simp add: e)
  next
    case (Some p)
    then obtain c body x where p: "parseLambdaMacro op args = Some (c, body, x)" by (cases p) auto
    have "op \<noteq> ''lambda''" using parseLambdaMacroD [OF p] by (auto simp: COLLECTION_OPERATORS_def)
    then show ?thesis using h l
      by (auto simp: e p Let_def hoistConjuncts_def caseSplit_def rebuild_def split: option.splits operand.splits if_splits)
  qed
qed

lemma hoist_approx:
  assumes "present fn attr env e" "capture_free vs e"
  shows "approx (cel fn attr env (hoistOuterScopeReferences e vs)) (cel fn attr env e)"
  using assms
proof (induction "size e" arbitrary: e vs env rule: less_induct)
  case less
  show ?case
  proof (cases e)
    case (Expression op args)
    show ?thesis
    proof (cases "parseLambdaMacro op args")
      case None
      show ?thesis
      proof (cases rule: lambda_parts_cases [of op args])
        case (macro c body x)
        have inner: "parseLambdaMacro ''lambda'' [body, Variable x] = None"
          by (auto simp: parseLambdaMacro_def COLLECTION_OPERATORS_def split: operand.splits)
        obtain xs where xs: "items (cel fn attr env c) = Some xs"
          "\<forall>item \<in> set xs. present fn attr ((x, item) # env) body" "present fn attr env c"
          using less(2) macro(1) by (auto simp: Expression list_all_iff split: option.splits)
        have cf: "capture_free vs c" "capture_free vs body" using less(3) None by (simp_all add: Expression macro(2) inner)
        have "approx (cel fn attr env (hoistOuterScopeReferences c vs)) (cel fn attr env c)"
          by (rule less(1)) (use xs cf in \<open>simp_all add: Expression macro(2)\<close>)
        moreover have "approx (cel fn attr ((x, item) # env) (hoistOuterScopeReferences body vs)) (cel fn attr ((x, item) # env) body)"
          if "item \<in> set xs" for item
          by (rule less(1)) (use xs cf that in \<open>simp_all add: Expression macro(2)\<close>)
        ultimately show ?thesis using macro(3) None xs by (auto simp: Expression macro(2) inner intro!: macro_value_mono)
      next
        case plain
        have "lambda_parts op (map (\<lambda>a. hoistOuterScopeReferences a vs) args) = None"
          by (rule lambda_parts_None_map [OF plain]) (use hoist_shapes in blast)+
        moreover have "approx (cel fn attr env (hoistOuterScopeReferences a vs)) (cel fn attr env a)" if "a \<in> set args" for a
          by (rule less(1)) (use less(2,3) that None plain size_operand_member in \<open>auto simp: Expression list_all_iff\<close>)
        ultimately show ?thesis using plain None
          by (auto simp: Expression comp_def list_all2_map_same intro!: operator_value_mono)
      qed
    next
      case (Some p)
      then obtain c body x where p: "parseLambdaMacro op args = Some (c, body, x)" by (cases p) auto
      note D = parseLambdaMacroD [OF p]
      then have lp: "lambda_parts op args = Some (c, body, x)" by (simp add: collection_macro)
      obtain xs where xs: "items (cel fn attr env c) = Some xs" "\<forall>item \<in> set xs. present fn attr ((x, item) # env) body"
        using less(2) lp by (auto simp: Expression list_all_iff split: option.splits)
      define body' where "body' = hoistOuterScopeReferences body (vs @ [x])"
      have cf: "capture_free (vs @ [x]) body"
        "findOuterBooleanReference body' (vs @ [x]) = Some q \<Longrightarrow> \<forall>y \<in> set (binders body'). \<not> covers y q" for q
        using less(3) p by (auto simp: Expression body'_def Let_def list_all_iff)
      have "approx (cel fn attr ((x, item) # env) body') (cel fn attr ((x, item) # env) body)" if "item \<in> set xs" for item
        unfolding body'_def by (rule less(1)) (use xs cf that D in \<open>simp_all add: Expression\<close>)
      then have m: "approx (macro_value op (cel fn attr env c) (\<lambda>item. cel fn attr ((x, item) # env) body')) (cel fn attr env e)"
        using lp xs by (auto simp: Expression intro!: macro_value_mono)
      have "approx (cel fn attr env (hoistOuterScopeReferences e vs))
        (macro_value op (cel fn attr env c) (\<lambda>item. cel fn attr ((x, item) # env) body'))"
      proof (cases "hoistConjuncts op c x body'")
        case None
        then show ?thesis
        proof (cases "findOuterBooleanReference body' (vs @ [x])")
          case none: None
          then show ?thesis using None D [THEN conjunct1] by (simp add: Expression p Let_def body'_def [symmetric] cel_rebuild)
        next
          case (Some q)
          have "\<not> covers x q" using find_not_covered [OF Some] by simp
          then show ?thesis using None Some D [THEN conjunct1] cf(2) [OF Some]
            by (simp add: Expression p Let_def body'_def [symmetric] caseSplit_sound xs(1))
        qed
      next
        case (Some hoisted)
        show ?thesis using hoistConjuncts_exact [OF Some xs(1)] by (simp add: Expression p Let_def body'_def [symmetric] Some)
      qed
      then show ?thesis using m approx_trans by blast
    qed
  qed auto
qed

subsection \<open>Properties\<close>

text \<open>
  C33. Hoisting is sound: whatever macros it moves a conjunct out of or splits on an outer reference, the
  rewritten plan is either the evaluation error or the very value of the plan, so it is neither true nor false
  where CEL says otherwise and no row is granted that CEL denies, under either polarity. Two conditions: the
  collection of every macro is there, a list or a map, on the row and for every element the macro is reached
  with (\<open>present\<close>; C39 shows the property is false without it), and no macro inside a lambda's body binds a variable
  that captures the outer reference the body is split on (\<open>capture_free\<close>).
\<close>

theorem hoist_sound:
  assumes "present fn attr env e" "capture_free vs e"
  shows "approx (cel fn attr env (hoistOuterScopeReferences e vs)) (cel fn attr env e)"
  using assms by (rule hoist_approx)

definition sample_body :: operand where
  "sample_body = Expression ''and'' [Variable (js ''t''), Variable (js ''f'')]"

definition sample_exists :: operand where
  "sample_exists = rebuild ''exists'' (Variable (js ''c'')) (js ''t'') sample_body"

definition sample_row :: "jsval \<Rightarrow> jstring \<Rightarrow> jsval" where
  "sample_row collection n =
     (if n = js ''c'' then collection else if n = js ''f'' then VBool False else VError)"

lemma sample_names:
  "js ''t'' \<noteq> js ''f''" "js ''f'' \<noteq> js ''t''" "js ''c'' \<noteq> js ''t''" "js ''c'' \<noteq> js ''f''" "js ''f'' \<noteq> js ''c''" "js ''t'' \<noteq> js ''c''" "\<not> startsWith (js ''f'') (js ''t'' @ [dot])"
  by (simp_all add: js_def startsWith_def)

lemma no_macro: "op \<notin> set COLLECTION_OPERATORS \<Longrightarrow> parseLambdaMacro op args = None"
  "op \<notin> set macro_names \<Longrightarrow> lambda_parts op args = None"
  using parseLambdaMacroD [of op args] by (cases "parseLambdaMacro op args"; auto) (simp add: lambda_parts_def)

lemma sample_parse [simp]:
  "parseLambdaMacro ''exists'' [c, Expression ''lambda'' [body, Variable x]] = Some (c, body, x)"
  "parseLambdaMacro ''and'' args = None" "lambda_parts ''and'' args = None" "parseLambdaMacro ''not'' args = None"
  "lambda_parts ''exists'' [c, Expression ''lambda'' [body, Variable x]] = Some (c, body, x)"
  by (simp_all add: no_macro COLLECTION_OPERATORS_def macro_names_def)
    (simp_all add: parseLambdaMacro_def COLLECTION_OPERATORS_def)

lemma sample_hoisted:
  "hoistOuterScopeReferences sample_exists [] =
     Expression ''and'' [rebuild ''exists'' (Variable (js ''c'')) (js ''t'') (Variable (js ''t'')), Variable (js ''f'')]"
  by (simp add: sample_exists_def sample_body_def rebuild_def sample_parse hoistConjuncts_def sample_names Let_def)

theorem hoist_sound_witness:
  "approx (cel (\<lambda>_ _. VError) (sample_row (VArr [VBool True])) [] (hoistOuterScopeReferences sample_exists [])) (VBool False)"
proof -
  have "present (\<lambda>_ _. VError) (sample_row (VArr [VBool True])) [] sample_exists"
    by (simp add: sample_exists_def sample_body_def rebuild_def sample_parse sample_row_def sample_names)
  moreover have "capture_free [] sample_exists"
    by (simp add: sample_exists_def sample_body_def rebuild_def sample_parse Let_def findOuterBooleanReference.simps
        booleanPositions_def BOOLEAN_POSITION_OPERATORS_def isOuterScopeName_def sample_names)
  moreover have "cel (\<lambda>_ _. VError) (sample_row (VArr [VBool True])) [] sample_exists = VBool False"
    by (simp add: sample_exists_def sample_body_def rebuild_def sample_parse sample_row_def sample_names
        operator_value_def macro_value_def covers_def k_all_def k_ex_def truth_of_def)
  ultimately show ?thesis using hoist_sound [of "\<lambda>_ _. VError" "sample_row (VArr [VBool True])" "[]" sample_exists "[]"] by simp
qed

text \<open>
  C39. The hypothesis on collections is needed, and hoisting a conjunct breaks without it: when the collection
  is missing, \<open>!c.exists(t, t && f)\<close> is an error in CEL, and the rewritten plan is true for a row whose \<open>f\<close>
  is false, since \<open>false\<close> absorbs the error the macro now raises beside it.
\<close>

theorem hoist_missing_collection_overgrants:
  "cel fn (sample_row VError) [] (Expression ''not'' [sample_exists]) = VError \<and>
   cel fn (sample_row VError) [] (hoistOuterScopeReferences (Expression ''not'' [sample_exists]) []) = VBool True"
proof -
  have "cel fn (sample_row VError) [] sample_exists = VError"
    by (simp add: sample_exists_def rebuild_def sample_parse sample_row_def macro_value_def)
  moreover have "cel fn (sample_row VError) [] (hoistOuterScopeReferences sample_exists []) = VBool False"
    by (simp add: sample_hoisted rebuild_def sample_parse operator_value_def sample_row_def sample_names macro_value_def
        k_all_def truth_of_def)
  ultimately show ?thesis by (simp add: cel_not sample_parse del: cel.simps(4))
qed

end
