(* ===== verification/Prisma_Fold.thy ===== *)
theory Prisma_Fold
  imports Prisma_Hoist
begin

text \<open>
  What \<open>constantFoldExpression\<close> preserves. The planner's output is typed where it can be; the rest of what
  folding relies on is stated of the row the plan is evaluated on.
\<close>

definition boolean_or_error :: "jsval \<Rightarrow> bool" where
  "boolean_or_error v \<longleftrightarrow> (v = VError \<or> (\<exists>b. v = VBool b))"

lemma of_truth_verdict: "boolean_or_error v \<Longrightarrow> of_truth (verdict v) = v"
  by (auto simp: boolean_or_error_def truth_of_def)

fun constants_in :: "operand \<Rightarrow> jsval list" where
  "constants_in (Value v) = [v]"
| "constants_in (Expression op args) = concat (map constants_in args)"
| "constants_in _ = []"

text \<open>
  A row on which the plan is well-typed: connectives and macro bodies give booleans or errors, \<open>+\<close> does not
  mix a string with another kind, collections are lists or maps, and operators have the number of
  operands CEL gives them.
\<close>

definition arity_ok :: "string \<Rightarrow> nat \<Rightarrow> bool" where
  "arity_ok op n \<longleftrightarrow>
     (op = ''if'' \<longrightarrow> n = 3) \<and> (op = ''not'' \<longrightarrow> n = 1) \<and>
     (op \<in> set COMPARISON_OPERATORS \<or> number_op op \<noteq> None \<or> string_test op \<noteq> None \<longrightarrow> n = 2)"

definition operands_ok :: "string \<Rightarrow> jsval list \<Rightarrow> bool" where
  "operands_ok op vs \<longleftrightarrow>
     arity_ok op (length vs) \<and>
     (op \<in> {''and'', ''or'', ''not''} \<longrightarrow> list_all boolean_or_error vs) \<and>
     (number_op op \<noteq> None \<longrightarrow> same_kind (vs ! 0) (vs ! 1) \<or> VError \<in> set vs)"

fun regular :: "(string \<Rightarrow> jsval list \<Rightarrow> jsval) \<Rightarrow> (jstring \<Rightarrow> jsval) \<Rightarrow> env \<Rightarrow> operand \<Rightarrow> bool" where
  "regular fn attr env (Expression op args) =
     (case lambda_parts op args of
        Some (c, body, x) \<Rightarrow>
          regular fn attr env c \<and>
          (case items (cel fn attr env c) of
             None \<Rightarrow> False
           | Some xs \<Rightarrow>
               list_all (\<lambda>item. regular fn attr ((x, item) # env) body \<and>
                  (op \<noteq> ''map'' \<longrightarrow> boolean_or_error (cel fn attr ((x, item) # env) body))) xs)
      | None \<Rightarrow>
          op \<notin> {''lambda'', ''exists'', ''all''} \<and> list_all (regular fn attr env) args \<and>
          operands_ok op (map (cel fn attr env) args))"
| "regular fn attr env e = True"

definition no_lambda :: "operand \<Rightarrow> bool" where
  "no_lambda e \<longleftrightarrow> (\<forall>ps. e \<noteq> Expression ''lambda'' ps)"

lemma no_lambda_simps [simp]: "no_lambda (Value v)" "no_lambda (Variable n)" "no_lambda Malformed"
  "no_lambda (Expression op ps) \<longleftrightarrow> op \<noteq> ''lambda''"
  by (simp_all add: no_lambda_def)

definition plain_constants :: "operand \<Rightarrow> bool" where
  "plain_constants e \<longleftrightarrow> list_all plan_value (constants_in e)"

lemma plain_constants_simps [simp]:
  "plain_constants (Value v) \<longleftrightarrow> plan_value v" "plain_constants (Variable n)" "plain_constants Malformed"
  "plain_constants (Expression op args) \<longleftrightarrow> list_all plain_constants args"
  by (auto simp: plain_constants_def list_all_iff)

subsection \<open>One folding step\<close>

lemma cel_plain:
  "lambda_parts op args = None \<Longrightarrow>
     cel fn attr env (Expression op args) = operator_value fn op (map (cel fn attr env) args)"
  by simp

lemma k_all_map_FF: "k_all (map f xs) = FF \<longleftrightarrow> (\<exists>x \<in> set xs. f x = FF)"
  by (force simp: k_all_FF image_iff)

lemma k_ex_single [simp]: "k_ex [t] = t"
  by (cases t) (auto simp: k_ex_def)

lemma k_drop:
  "(\<And>x. x \<in> set xs \<Longrightarrow> \<not> P x \<Longrightarrow> f x = FF) \<Longrightarrow> k_ex (map f (filter P xs)) = k_ex (map f xs)"
  "(\<And>x. x \<in> set xs \<Longrightarrow> \<not> P x \<Longrightarrow> f x = TT) \<Longrightarrow> k_all (map f (filter P xs)) = k_all (map f xs)"
  by (rule truth_eqI; force simp: k_ex_map_TT k_ex_FF k_all_TT k_all_map_FF)+

lemma foldLogical_exact:
  assumes op: "op = ''and'' \<or> op = ''or''" and b: "list_all boolean_or_error (map (cel fn attr env) args)"
    and pc: "list_all plain_constants args"
  shows "cel fn attr env (foldLogical op args) = operator_value fn op (map (cel fn attr env) args)"
proof -
  define d where "d = (op = ''or'')"
  define rest where "rest = filter (\<lambda>a. \<not> isValueOperand a) args"
  let ?k = "\<lambda>as. if d then k_ex (map (\<lambda>a. verdict (cel fn attr env a)) as) else k_all (map (\<lambda>a. verdict (cel fn attr env a)) as)"
  have target: "operator_value fn op (map (cel fn attr env) args) = of_truth (?k args)"
    using op by (auto simp: operator_value_def d_def comp_def)
  show ?thesis
  proof (cases "list_ex (\<lambda>a. value_of a = Some (VBool d)) args")
    case True
    then obtain a where "a \<in> set args" "a = Value (VBool d)" by (auto simp: list_ex_iff elim: value_of.elims)
    then have "\<exists>a \<in> set args. verdict (cel fn attr env a) = truth_of d" by force
    then have "?k args = truth_of d" by (auto simp: truth_of_def k_ex_map_TT k_all_map_FF)
    then show ?thesis using True target by (simp add: foldLogical_def d_def [symmetric] truth_of_def)
  next
    case False
    have dropped: "verdict (cel fn attr env a) = truth_of (\<not> d)" if a: "a \<in> set args" "isValueOperand a" for a
    proof -
      obtain v where v: "a = Value v" using isValueOperandD [OF a(2)] by blast
      have "boolean_or_error v" using b a(1) by (auto simp: v list_all_iff)
      moreover have "v \<noteq> VBool d" using False a(1) by (auto simp: v list_ex_iff)
      moreover have "v \<noteq> VError" using pc a(1) by (auto simp: v list_all_iff)
      ultimately show ?thesis by (auto simp: v boolean_or_error_def truth_of_def split: if_splits)
    qed
    have k: "?k args = ?k rest"
      unfolding rest_def using dropped by (cases d) (auto simp: truth_of_def intro!: k_drop [symmetric])
    have r: "\<And>a. a \<in> set rest \<Longrightarrow> boolean_or_error (cel fn attr env a)" using b by (auto simp: rest_def list_all_iff)
    consider "rest = []" | a where "rest = [a]" | "rest \<noteq> []" "length rest \<noteq> 1" by (cases rest; cases "tl rest") auto
    then show ?thesis
    proof cases
      case 1
      then show ?thesis using False target k op by (auto simp: foldLogical_def d_def [symmetric] rest_def [symmetric] truth_of_def k_all_def k_ex_def)
    next
      case (2 a)
      have "of_truth (?k [a]) = cel fn attr env a" using r [of a] 2 by (simp add: of_truth_verdict)
      then show ?thesis using False target k 2
        by (auto simp: foldLogical_def d_def [symmetric] rest_def [symmetric] split: if_splits)
    next
      case 3
      then have "foldLogical op args = Expression op rest"
        using False by (simp add: foldLogical_def d_def [symmetric] rest_def [symmetric])
      then show ?thesis using target k op by (auto simp: cel_and cel_or d_def simp del: cel.simps(4))
    qed
  qed
qed

lemma operator_value_strict:
  "op \<notin> {''and'', ''or'', ''not'', ''if'', ''list'', ''struct'', ''size''} \<Longrightarrow> VError \<notin> {a, b} \<Longrightarrow>
     binary_value op a b = Some v \<Longrightarrow> operator_value fn op [a, b] = v"
  by (auto simp: operator_value_def strict_value_def)

lemma number_op_iff: "op \<in> set ARITHMETIC_OPERATORS \<longleftrightarrow> number_op op \<noteq> None"
  by (auto simp: ARITHMETIC_OPERATORS_def number_op_def)

lemma number_value:
  assumes "number_op op \<noteq> None" "VError \<notin> {a, b}"
  shows "operator_value fn op [a, b] = add_values op a b"
proof (rule operator_value_strict [OF _ assms(2)])
  show "op \<notin> {''and'', ''or'', ''not'', ''if'', ''list'', ''struct'', ''size''}"
    "binary_value op a b = Some (add_values op a b)"
    using assms(1) by (auto simp: number_op_def binary_value_def comparison_of.simps string_test_def split: if_splits)
qed

lemma foldArithmetic_plan_value:
  assumes "foldArithmetic op a b = Inr v" "same_kind a b" "plan_value a" "plan_value b"
  shows "plan_value v"
proof (cases rule: fold_kinds [OF assms(1,2)])
  case (3 x y)
  then show ?thesis using assms(1) by (auto simp: foldArithmetic_def split: if_splits)
qed (use assms in \<open>auto simp: foldArithmetic_def\<close>)

lemma bothConstantD: "bothConstant args = Some (a, b) \<Longrightarrow> length args = 2 \<Longrightarrow> args = [Value a, Value b]"
  by (auto simp: bothConstant_def split: list.splits operand.splits)

lemma foldLogical_keeps:
  assumes "list_all plain_constants args" "list_all no_lambda args" "op \<noteq> ''lambda''"
  shows "plain_constants (foldLogical op args) \<and> no_lambda (foldLogical op args)"
proof -
  define rest where "rest = filter (\<lambda>o'. \<not> isValueOperand o') args"
  have "\<forall>a \<in> set rest. plain_constants a \<and> no_lambda a" using assms by (auto simp: rest_def list_all_iff)
  moreover have "hd rest \<in> set rest" if "rest \<noteq> []" using that by simp
  ultimately show ?thesis using assms(3)
    by (auto simp: foldLogical_def rest_def [symmetric] Let_def list_all_iff)
qed

text \<open>The operators the last branches of the \<open>switch\<close> single out.\<close>

lemma operator_kinds:
  "number_op op \<noteq> None \<Longrightarrow> op \<notin> {''if'', ''and'', ''or'', ''not''}"
  "string_test op \<noteq> None \<Longrightarrow> op \<notin> {''if'', ''and'', ''or'', ''not''} \<and> op \<notin> set ARITHMETIC_OPERATORS"
  by (auto simp: number_op_def string_test_def ARITHMETIC_OPERATORS_def split: if_splits)

lemma fold_operator_exact:
  assumes parts: "lambda_parts op args = None" and op: "op \<notin> {''lambda'', ''exists'', ''all''}"
    and ok: "operands_ok op (map (cel fn attr env) args)"
    and pc: "list_all plain_constants args" and nl: "list_all no_lambda args"
    and f: "fold_operator op args = Inr e'"
  shows "cel fn attr env e' = operator_value fn op (map (cel fn attr env) args) \<and> plain_constants e' \<and> no_lambda e'"
proof (cases "e' = Expression op args")
  case True
  then show ?thesis using parts op pc by simp
next
  case False
  note arity = ok [unfolded operands_ok_def arity_ok_def]
  have two: "args = [Value a, Value b]" if "bothConstant args = Some (a, b)" "length args = 2" for a b
    using bothConstantD [OF that] .
  have other: "fold_operator op args = Inr (Expression op args)"
    if "op \<notin> {''if'', ''and'', ''or'', ''not''}" "number_op op = None" "string_test op = None" "op \<notin> set COMPARISON_OPERATORS"
    using that op unfolding fold_operator_def number_op_iff Let_def by (simp add: string_test_def split: if_splits)
  consider (iff) "op = ''if''" | (logic) "op = ''and'' \<or> op = ''or''" | (negation) "op = ''not''"
    | (number) "number_op op \<noteq> None" | (test) "string_test op \<noteq> None"
    | (compare) "op \<in> set COMPARISON_OPERATORS" "string_test op = None" "number_op op = None" "op \<notin> {''if'', ''and'', ''or'', ''not''}"
    using other f False by (cases "number_op op"; cases "string_test op"; cases "op \<in> set COMPARISON_OPERATORS") auto
  then show ?thesis
  proof cases
    case iff
    then have "length args = 3" using arity by simp
    then obtain c a b where args: "args = [c, a, b]" by (auto simp: length_Suc_conv numeral_3_eq_3)
    obtain v where c: "c = Value (VBool v)" and e': "e' = (if v then a else b)"
      using f False by (auto simp: fold_operator_def iff args assertDefined_def Let_def split: operand.splits jsval.splits if_splits)
    show ?thesis using pc nl by (auto simp: args c e' iff operator_value_def truth_of_def)
  next
    case logic
    then have e': "e' = foldLogical op args" using f by (auto simp: fold_operator_def Let_def)
    have "list_all boolean_or_error (map (cel fn attr env) args)" using arity logic by auto
    then show ?thesis using foldLogical_exact [OF logic _ pc] foldLogical_keeps [OF pc nl] op by (simp add: e')
  next
    case negation
    then have "length args = 1" using arity by simp
    then obtain a where args: "args = [a]" by (auto simp: length_Suc_conv)
    obtain v where a: "a = Value v" and e': "e' = Value (VBool (v \<noteq> VBool True))"
      using f False by (auto simp: fold_operator_def negation args Let_def split: operand.splits)
    have "boolean_or_error v" "v \<noteq> VError" using arity pc negation by (auto simp: args a)
    then show ?thesis by (auto simp: boolean_or_error_def args a e' negation operator_value_def truth_of_def)
  next
    case number
    then have l: "length args = 2" using arity by simp
    have "fold_operator op args = (case bothConstant args of
        Some (a, b) \<Rightarrow> bindE (foldArithmetic op a b) (\<lambda>v. Inr (Value v)) | None \<Rightarrow> Inr (Expression op args))"
      using operator_kinds(1) [OF number] number unfolding fold_operator_def number_op_iff Let_def by simp
    then obtain a b v where ab: "bothConstant args = Some (a, b)" and v: "foldArithmetic op a b = Inr v" "e' = Value v"
      using f False by (auto simp: bindE_def split: option.splits sum.splits)
    note args = two [OF ab l]
    have pv: "plan_value a" "plan_value b" using pc by (simp_all add: args)
    then have ne: "VError \<notin> {a, b}" by auto
    have k: "same_kind a b" using arity number ne by (auto simp: args)
    show ?thesis using number_value [OF number ne] foldArithmetic_strict [OF v(1) k number] foldArithmetic_plan_value [OF v(1) k pv]
      by (simp add: args v(2))
  next
    case test
    then have l: "length args = 2" using arity by simp
    have "fold_operator op args = (case bothConstant args of
        Some (VStr s, VStr t) \<Rightarrow> Inr (Value (VBool (the (string_test op) s t))) | _ \<Rightarrow> Inr (Expression op args))"
      using operator_kinds(2) [OF test] test unfolding fold_operator_def Let_def
      by (auto simp: string_test_def split: option.split prod.split jsval.split if_splits)
    then obtain s t where ab: "bothConstant args = Some (VStr s, VStr t)"
      and e': "e' = Value (VBool (the (string_test op) s t))"
      using f False by (auto split: option.splits prod.splits jsval.splits)
    note args = two [OF ab l]
    have "binary_value op (VStr s) (VStr t) = Some (VBool (the (string_test op) s t))"
      using test by (auto simp: binary_value_def string_test_def comparison_of.simps split: if_splits)
    then have "operator_value fn op [VStr s, VStr t] = VBool (the (string_test op) s t)"
      using test by (intro operator_value_strict) (auto simp: string_test_def split: if_splits)
    then show ?thesis by (simp add: args e')
  next
    case compare
    then have l: "length args = 2" using arity by simp
    have "fold_operator op args = (case bothConstant args of
        Some (a, b) \<Rightarrow> bindE (evaluateConstantComparison op a b) (\<lambda>r. Inr (Value (VBool r))) | None \<Rightarrow> Inr (Expression op args))"
      using compare op unfolding fold_operator_def number_op_iff Let_def
      by (simp add: string_test_def split: if_splits)
    then obtain a b r where ab: "bothConstant args = Some (a, b)" and r: "evaluateConstantComparison op a b = Inr r"
      and e': "e' = Value (VBool r)"
      using f False by (auto simp: bindE_def split: option.splits sum.splits)
    note args = two [OF ab l]
    have "cel fn attr env (Expression op [Value a, Value b]) = VBool r"
      by (rule constant_comparison_cel [OF r]) (use pc in \<open>simp_all add: args\<close>)
    then show ?thesis using parts by (simp add: args e')
  qed
qed

subsection \<open>Macros with a constant body\<close>

lemma items_size: "items v = Some xs \<Longrightarrow> size_value v = VInt (int (length xs)) \<and> v \<noteq> VError \<and> VError \<noteq> v"
  by (cases v) auto

lemma cel_size_compare:
  assumes "items (cel fn attr env c) = Some xs"
  shows "cel fn attr env (Expression ''gt'' [Expression ''size'' [c], Value (VInt 0)]) = VBool (xs \<noteq> [])"
    and "cel fn attr env (Expression ''eq'' [Expression ''size'' [c], Value (VInt 0)]) = VBool (xs = [])"
  using items_size [OF assms]
  by (simp_all add: no_macro macro_names_def operator_value_def strict_value_def binary_value_def comparison_of.simps
      compareValues_def isEvaluationError_def ordering_keys_def valuesEqual.simps scalarEqual_def)

lemma fold_macro_operator:
  assumes "op \<in> set macro_names"
  shows "fold_operator op args =
    (if op = ''exists'' \<or> op = ''all'' then
       (case lambdaConstant args of
          None \<Rightarrow> Inr (Expression op args)
        | Some (c, v) \<Rightarrow> Inr
            (if op = ''exists'' then
               (if v = VBool True then Expression ''gt'' [Expression ''size'' [c], Value (VInt 0)] else Value (VBool False))
             else if v = VBool True then Value (VBool True)
             else Expression ''eq'' [Expression ''size'' [c], Value (VInt 0)]))
     else Inr (Expression op args))"
proof -
  consider "op = ''exists''" | "op = ''all''"
    | "op \<notin> {''if'', ''and'', ''or'', ''not'', ''contains'', ''startsWith'', ''endsWith'', ''exists'', ''all''}"
      "op \<notin> set ARITHMETIC_OPERATORS" "op \<notin> set COMPARISON_OPERATORS"
    using assms unfolding macro_names_def ARITHMETIC_OPERATORS_def COMPARISON_OPERATORS_def CERBOS_TO_PRISMA_OPERATOR_def by auto
  then show ?thesis
    by cases (simp_all add: fold_operator_def Let_def ARITHMETIC_OPERATORS_def split: option.split prod.split)
qed

lemma fold_macro_exact:
  assumes op: "op \<in> set macro_names" and xs: "items (cel fn attr env c) = Some xs"
    and b: "op \<noteq> ''map'' \<Longrightarrow> \<forall>item \<in> set xs. boolean_or_error (cel fn attr ((x, item) # env) body)"
    and pc: "plain_constants c" "plain_constants body"
    and f: "fold_operator op [c, Expression ''lambda'' [body, Variable x]] = Inr e'"
  shows "cel fn attr env e' = macro_value op (cel fn attr env c) (\<lambda>item. cel fn attr ((x, item) # env) body) \<and>
    plain_constants e' \<and> no_lambda e'"
proof (cases "e' = Expression op [c, Expression ''lambda'' [body, Variable x]]")
  case True
  then show ?thesis using op pc by (auto simp: macro_names_def)
next
  case False
  note f' = f [unfolded fold_macro_operator [OF op]]
  have op': "op = ''exists'' \<or> op = ''all''"
  proof (rule ccontr)
    assume "\<not> ?thesis"
    then show False using f' False by (simp only: if_False sum.inject simp_thms)
  qed
  then obtain v where body: "body = Value v"
    using f' False by (cases body) (auto simp: lambdaConstant_def)
  have v: "\<exists>k. v = VBool k" if "xs \<noteq> []"
    using b pc that op' by (cases xs) (auto simp: body boolean_or_error_def)
  have truths: "k_ex (map (\<lambda>_. t) xs) = (if xs = [] then FF else t)" "k_all (map (\<lambda>_. t) xs) = (if xs = [] then TT else t)" for t
    by (cases xs; cases t; simp add: k_ex_def k_all_def image_constant_conv)+
  note size = cel_size_compare [OF xs]
  show ?thesis
  proof (cases "v = VBool True")
    case True
    then show ?thesis using op' f' pc size
      by (auto simp: body lambdaConstant_def macro_value_def xs truths truth_of_def simp del: cel.simps(4))
  next
    case False
    then have "xs \<noteq> [] \<Longrightarrow> v = VBool False" using v by auto
    then show ?thesis using op' f' pc size False
      by (auto simp: body lambdaConstant_def macro_value_def xs truths truth_of_def simp del: cel.simps(4))
  qed
qed

subsection \<open>The whole plan\<close>

lemma foldArithmetic_constants:
  "foldArithmetic op a b = Inr v \<Longrightarrow> plan_value a \<Longrightarrow> plan_value b \<Longrightarrow> plan_value v"
proof (cases "same_kind a b")
  case False
  assume "foldArithmetic op a b = Inr v"
  then have "\<exists>s. v = VStr s" using False
    by (cases a; cases b) (auto simp: foldArithmetic_def same_kind_def split: if_splits option.splits)
  then show ?thesis by auto
qed (rule foldArithmetic_plan_value)

lemma fold_operator_plain:
  assumes pc: "list_all plain_constants args" and f: "fold_operator op args = Inr e'"
  shows "plain_constants e'"
proof -
  have nth: "nth_opt xs i = Some e' \<Longrightarrow> list_all plain_constants xs \<Longrightarrow> plain_constants e'" for xs i
    using nth_opt_mem [of xs i e'] by (auto simp: list_all_iff)
  note f = f [unfolded fold_operator_def Let_def]
  consider (iff) "op = ''if''" | (logic) "op \<noteq> ''if''" "op = ''and'' \<or> op = ''or''" | (negation) "op = ''not''"
    | (number) "op \<in> set ARITHMETIC_OPERATORS"
    | (other) "op \<notin> {''if'', ''and'', ''or'', ''not''}" "op \<notin> set ARITHMETIC_OPERATORS" by blast
  then show ?thesis
  proof cases
    case iff
    then show ?thesis using f pc
      by (auto simp: assertDefined_def split: list.splits operand.splits jsval.splits option.splits intro: nth)
  next
    case logic
    define rest where "rest = filter (\<lambda>o'. \<not> isValueOperand o') args"
    have "\<forall>a \<in> set rest. plain_constants a" using pc by (auto simp: rest_def list_all_iff)
    moreover have "hd rest \<in> set rest" if "rest \<noteq> []" using that by simp
    moreover have "e' = foldLogical op args" using f logic by auto
    ultimately show ?thesis
      by (auto simp: foldLogical_def rest_def [symmetric] Let_def list_all_iff)
  next
    case negation
    then show ?thesis using f pc by (auto split: list.splits operand.splits)
  next
    case number
    then have "op \<notin> {''if'', ''and'', ''or'', ''not''}" by (auto simp: ARITHMETIC_OPERATORS_def)
    then have "(case bothConstant args of Some (a, b) \<Rightarrow> bindE (foldArithmetic op a b) (\<lambda>v. Inr (Value v)) | None \<Rightarrow> Inr (Expression op args)) = Inr e'"
      using f number by simp
    then show ?thesis using pc foldArithmetic_constants
      by (fastforce simp: bindE_def bothConstant_def split: option.splits sum.splits list.splits operand.splits)
  next
    case other
    define bool_fold where "bool_fold = (\<lambda>e. e = Expression op args \<or> (\<exists>b. e = Value (VBool b)) \<or>
      (\<exists>o' c. e = Expression o' [Expression ''size'' [c], Value (VInt 0)] \<and> c \<in> set args))"
    have "bool_fold e'"
      using f other unfolding bool_fold_def
      by (auto simp: bindE_def lambdaConstant_def split: if_split_asm option.splits sum.splits list.splits operand.splits jsval.splits prod.splits)
    then show ?thesis using pc by (auto simp: bool_fold_def list_all_iff)
  qed
qed

lemma constantFold_plain: "plain_constants e \<Longrightarrow> constantFoldExpression e = Inr e' \<Longrightarrow> plain_constants e'"
proof (induction e arbitrary: e' rule: constantFoldExpression.induct)
  case (1 op args)
  obtain folded where al: "assertLogicalOperands op args = Inr ()" and m: "mapE constantFoldExpression args = Inr folded"
    and f: "fold_operator op folded = Inr e'"
    using 1(3) by (auto simp: bindE_eq_Inr)
  have "list_all2 (\<lambda>a a'. plain_constants a') args folded"
    using m unfolding mapE_ok_iff
  proof (rule list.rel_mono_strong)
    fix a a' assume a: "a \<in> set args" "constantFoldExpression a = Inr a'"
    have "plain_constants a" using 1(2) a(1) by (simp add: list_all_iff)
    then show "plain_constants a'" by (rule 1(1) [OF al a(1) _ a(2)])
  qed
  then have "list_all plain_constants folded" by (induction rule: list_all2_induct) auto
  then show ?case using f by (rule fold_operator_plain)
qed auto

lemma fold_exact:
  assumes "regular fn attr env e" "plain_constants e" "constantFoldExpression e = Inr e'"
  shows "cel fn attr env e' = cel fn attr env e \<and> no_lambda e'"
  using assms
proof (induction "size e" arbitrary: e e' env rule: less_induct)
  case less
  show ?case
  proof (cases e)
    case (Expression op args)
    obtain folded where m: "mapE constantFoldExpression args = Inr folded" and f: "fold_operator op folded = Inr e'"
      using less(4) by (auto simp: Expression bindE_eq_Inr)
    show ?thesis
    proof (cases rule: lambda_parts_cases [of op args])
      case (macro c body x)
      obtain c' body' where folded: "folded = [c', Expression ''lambda'' [body', Variable x]]"
        and c': "constantFoldExpression c = Inr c'" and body': "constantFoldExpression body = Inr body'"
        using m by (auto simp: macro(2) bindE_eq_Inr fold_operator_def ARITHMETIC_OPERATORS_def COMPARISON_OPERATORS_def
            CERBOS_TO_PRISMA_OPERATOR_def assertLogicalOperands_def Let_def)
      obtain xs where xs: "items (cel fn attr env c) = Some xs" "regular fn attr env c"
        "\<And>item. item \<in> set xs \<Longrightarrow> regular fn attr ((x, item) # env) body"
        "\<And>item. item \<in> set xs \<Longrightarrow> op \<noteq> ''map'' \<Longrightarrow> boolean_or_error (cel fn attr ((x, item) # env) body)"
        using less(2) macro(1) by (auto simp: Expression list_all_iff split: option.splits)
      have pc: "plain_constants c" "plain_constants body" using less(3) by (simp_all add: Expression macro(2))
      have c: "cel fn attr env c' = cel fn attr env c"
        using less(1) [OF _ xs(2) pc(1) c'] by (simp add: Expression macro(2))
      have b: "cel fn attr ((x, item) # env) body' = cel fn attr ((x, item) # env) body" if "item \<in> set xs" for item
        using less(1) [OF _ xs(3) [OF that] pc(2) body'] by (simp add: Expression macro(2))
      have "cel fn attr env e' = macro_value op (cel fn attr env c') (\<lambda>item. cel fn attr ((x, item) # env) body') \<and>
          plain_constants e' \<and> no_lambda e'"
        by (rule fold_macro_exact [OF macro(3) _ _ constantFold_plain [OF pc(1) c'] constantFold_plain [OF pc(2) body'] f [unfolded folded]])
          (use xs b c in auto)
      moreover have "macro_value op (cel fn attr env c') (\<lambda>item. cel fn attr ((x, item) # env) body') =
          macro_value op (cel fn attr env c) (\<lambda>item. cel fn attr ((x, item) # env) body)"
        using b by (auto simp: c macro_value_def xs(1) Let_def cong: map_cong filter_cong)
      ultimately show ?thesis using macro(1) by (simp add: Expression)
    next
      case plain
      have ok: "op \<notin> {''lambda'', ''exists'', ''all''}" "\<forall>a \<in> set args. regular fn attr env a"
        "operands_ok op (map (cel fn attr env) args)"
        using less(2) plain by (auto simp: Expression list_all_iff)
      have each: "list_all2 (\<lambda>a a'. cel fn attr env a' = cel fn attr env a \<and> plain_constants a' \<and> no_lambda a') args folded"
        using m unfolding mapE_ok_iff
      proof (rule list.rel_mono_strong)
        fix a a' assume a: "a \<in> set args" "constantFoldExpression a = Inr a'"
        have "plain_constants a" using less(3) a(1) by (auto simp: Expression list_all_iff)
        then show "cel fn attr env a' = cel fn attr env a \<and> plain_constants a' \<and> no_lambda a'"
          using less(1) [of a env a'] ok(2) a size_operand_member [OF a(1), of op] constantFold_plain by (auto simp: Expression)
      qed
      have vals: "map (cel fn attr env) folded = map (cel fn attr env) args"
        using each by (induction rule: list_all2_induct) auto
      have pn: "list_all plain_constants folded" "list_all no_lambda folded"
        using each by (induction rule: list_all2_induct) auto
      have "lambda_parts op folded = None"
      proof (rule ccontr)
        assume "lambda_parts op folded \<noteq> None"
        then obtain c body x where "lambda_parts op folded = Some (c, body, x)" by (metis not_None_eq prod_cases3)
        then show False using pn(2) by (auto dest!: lambda_partsD)
      qed
      then show ?thesis using fold_operator_exact [OF _ ok(1) _ pn f, of fn attr env] ok(3) vals plain
        by (simp add: Expression)
    qed
  qed (use less(4) in auto)
qed

subsection \<open>Properties\<close>

text \<open>
  C34. Constant folding is exact: when it does not refuse the plan, the folded plan has the value of the plan,
  errors included, so folding neither grants nor denies a row it should not. The constants of the plan are JSON
  values (\<open>plain_constants\<close>), and the plan is regular on the row (\<open>regular\<close>): the collection of every macro is
  present, a list or a map (where it is missing, folding \<open>exists(c, false)\<close> to \<open>false\<close> would turn the error into
  a verdict); the bodies of the macros other than \<open>map\<close> are booleans or errors for every element, as are
  the operands of \<open>and\<close>, \<open>or\<close> and \<open>not\<close>; an arithmetic operator has two strings, no string, or an error among its
  operands (C40); every \<open>exists\<close> and \<open>all\<close> has its lambda and no lambda stands elsewhere; and \<open>not\<close>, \<open>if\<close>, comparisons,
  arithmetic and string tests have the number of operands CEL gives them.
\<close>

theorem constant_folding_exact:
  assumes "regular fn attr env e" "plain_constants e" "constantFoldExpression e = Inr e'"
  shows "cel fn attr env e' = cel fn attr env e"
  using fold_exact [OF assms] by simp

definition sample_fold :: operand where
  "sample_fold = Expression ''or'' [Expression ''not'' [Value (VBool True)], Variable (js ''f'')]"

lemma sample_folded: "constantFoldExpression sample_fold = Inr (Variable (js ''f''))"
  by (simp add: sample_fold_def assertLogicalOperands_def fold_operator_def foldLogical_def bindE_def Let_def)

theorem constant_folding_exact_witness:
  "cel (\<lambda>_ _. VError) (sample_row VNull) [] (Variable (js ''f'')) = cel (\<lambda>_ _. VError) (sample_row VNull) [] sample_fold"
proof (rule constant_folding_exact [OF _ _ sample_folded])
  show "regular (\<lambda>_ _. VError) (sample_row VNull) [] sample_fold"
    by (simp add: sample_fold_def no_macro macro_names_def operands_ok_def arity_ok_def operator_value_def sample_row_def
        sample_names boolean_or_error_def COMPARISON_OPERATORS_def CERBOS_TO_PRISMA_OPERATOR_def number_op_def string_test_def
        truth_of_def) blast
  show "plain_constants sample_fold" by (simp add: sample_fold_def)
qed

definition mixed_sum :: operand where
  "mixed_sum = Expression ''eq'' [Variable (js ''f''), Expression ''add'' [Value (VStr (js ''a'')), Value (VBool True)]]"

text \<open>
  C40. Without that hypothesis folding can grant: \<open>+\<close> of a string and a boolean has no overload in CEL and is
  an error, but the fold concatenates their texts. A comparison with the sum is an error for every row and is
  folded to one a row can satisfy.
\<close>

theorem mixed_addition_overgrants:
  "cel fn (\<lambda>_. VStr (js ''atrue'')) [] mixed_sum = VError \<and>
   (\<exists>e'. constantFoldExpression mixed_sum = Inr e' \<and> cel fn (\<lambda>_. VStr (js ''atrue'')) [] e' = VBool True)"
proof (intro conjI exI)
  show "cel fn (\<lambda>_. VStr (js ''atrue'')) [] mixed_sum = VError"
    by (simp add: mixed_sum_def no_macro macro_names_def operator_value_def strict_value_def binary_value_def
        comparison_of.simps string_test_def number_op_def add_values_def)
  show "constantFoldExpression mixed_sum = Inr (Expression ''eq'' [Variable (js ''f''), Value (VStr (js ''atrue''))])"
    by (simp add: mixed_sum_def assertLogicalOperands_def fold_operator_def ARITHMETIC_OPERATORS_def COMPARISON_OPERATORS_def
        CERBOS_TO_PRISMA_OPERATOR_def bothConstant_def foldArithmetic_def bindE_def js_def)
  show "cel fn (\<lambda>_. VStr (js ''atrue'')) [] (Expression ''eq'' [Variable (js ''f''), Value (VStr (js ''atrue''))]) = VBool True"
    by (simp add: no_macro macro_names_def operator_value_def strict_value_def binary_value_def comparison_of.simps
        compareValues_def isEvaluationError_def scalarEqual_def)
qed

end
