(* ===== verification/Prisma_Literals.thy ===== *)
theory Prisma_Literals
  imports Prisma_Fold
begin

text \<open>
  prisma/src/literals.ts: macros over a literal list become the comparisons they perform. A member inherited
  from \<open>Object.prototype\<close> is not found in an element: paths are read through own properties.
\<close>

definition MAX_UNROLLED_ELEMENTS :: nat where "MAX_UNROLLED_ELEMENTS = 100"

subsection \<open>Reading the plan\<close>

text \<open>\<open>fields[key] = literal\<close>: assigning \<open>__proto__\<close> makes no own property.\<close>

definition assign_field :: "(jstring \<times> jsval) list \<Rightarrow> jstring \<times> jsval \<Rightarrow> (jstring \<times> jsval) list" where
  "assign_field fs kv =
     (if fst kv = js ''__proto__'' then fs
      else if fst kv \<in> fst ` set fs then map (\<lambda>f. if fst f = fst kv then kv else f) fs
      else add_property (fst kv) (snd kv) fs)"

function literalList :: "operand \<Rightarrow> jsval list option" and literalValue :: "operand \<Rightarrow> jsval option" where
  "literalList (Value v) = (case v of VArr xs \<Rightarrow> Some xs | _ \<Rightarrow> None)"
| "literalList (Expression op args) = (if op = ''list'' then those (map literalValue args) else None)"
| "literalList (Variable n) = None"
| "literalList Malformed = None"
| "literalValue (Value v) = Some v"
| "literalValue (Expression op args) =
     (if op = ''list'' then map_option VArr (literalList (Expression op args))
      else if op \<noteq> ''struct'' then None
      else map_option (\<lambda>fs. VObj (foldl assign_field [] fs))
             (those (map (\<lambda>field. case field of
                Expression l [key, val] \<Rightarrow>
                  (case (literalValue val, key) of
                     (Some literal, Value (VStr k)) \<Rightarrow> if l = ''set-field'' then Some (k, literal) else None
                   | _ \<Rightarrow> None)
              | _ \<Rightarrow> None) args)))"
| "literalValue (Variable n) = None"
| "literalValue Malformed = None"
  by pat_completeness auto
termination
proof (relation "measure (\<lambda>s. case s of Inl e \<Rightarrow> 2 * size e | Inr e \<Rightarrow> Suc (2 * size e))", goal_cases)
  case (2 op args x)
  then have "size x < size (Expression op args)" using size_operand_member by blast
  then show ?case by simp
next
  case (4 op args field l ps key ps' val)
  then have "size field < size (Expression op args)" using size_operand_member by blast
  then show ?case using 4 by simp
qed simp_all

text \<open>The elements, body and variable of \<open>macro(literals, lambda(body, variable))\<close>.\<close>

definition literalMacro :: "operand list \<Rightarrow> (jsval list \<times> operand \<times> jstring) option" where
  "literalMacro args =
     (case args of
        [collection, Expression l [body, var]] \<Rightarrow>
          if l \<noteq> ''lambda'' then None
          else (case (literalList collection, var) of
                  (Some xs, Variable variable) \<Rightarrow> Some (xs, body, variable)
                | _ \<Rightarrow> None)
      | _ \<Rightarrow> None)"

text \<open>Whether a count satisfies \<open>count CMP n\<close>.\<close>

definition count_holds :: "string \<Rightarrow> jsnum \<Rightarrow> nat \<Rightarrow> bool" where
  "count_holds op n count =
     (let c = Fin (of_nat count) in
      if op = ''eq'' then strict_equals (VNum c) (VNum n)
      else if op = ''ne'' then \<not> strict_equals (VNum c) (VNum n)
      else if op = ''lt'' then num_lt c n
      else if op = ''le'' then num_le c n
      else if op = ''gt'' then num_lt n c
      else num_le n c)"

definition sizeComparison :: "string \<Rightarrow> operand list \<Rightarrow> ((string \<times> operand list) \<times> (nat \<Rightarrow> bool)) option" where
  "sizeComparison op args =
     (if op \<notin> {''eq'', ''ne'', ''lt'', ''le'', ''gt'', ''ge''} then None
      else case args of
        [first, second] \<Rightarrow>
          (let (size_of, threshold, operator) =
             (if isValueOperand first then (second, first, mirrorOperator op) else (first, second, op))
           in case (size_of, threshold) of
                (Expression s [Expression counted cargs], Value (VNum n)) \<Rightarrow>
                  if s = ''size'' \<and> is_finite n then Some ((counted, cargs), count_holds operator n) else None
              | _ \<Rightarrow> None)
      | _ \<Rightarrow> None)"

subsection \<open>Counting over a literal list\<close>

fun project :: "jsval \<Rightarrow> jstring list \<Rightarrow> jsval option" where
  "project current [] = Some current"
| "project (VObj kvs) (segment # segments) =
     (case map_of kvs segment of Some v \<Rightarrow> project v segments | None \<Rightarrow> None)"
| "project _ (segment # segments) = None"

text \<open>The element side of the comparison, and what it is compared with.\<close>

definition element_path :: "jstring \<Rightarrow> operand \<Rightarrow> jstring list option" where
  "element_path variable operand =
     (case operand of
        Variable name \<Rightarrow>
          if name = variable then Some []
          else if startsWith name (variable @ [dot]) then Some (js_split [dot] (drop (length variable + 1) name))
          else None
      | _ \<Rightarrow> None)"

definition uniformComparison :: "operand \<Rightarrow> jstring \<Rightarrow> (string \<times> jstring list \<times> operand) option" where
  "uniformComparison body variable =
     (case body of
        Expression op [a, b] \<Rightarrow>
          if op \<noteq> ''eq'' \<and> op \<noteq> ''ne'' then None
          else first_some (\<lambda>(element, other).
                 if mentionsVariable other variable then None
                 else map_option (\<lambda>path. (op, path, other)) (element_path variable element)) [(a, b), (b, a)]
      | _ \<Rightarrow> None)"

fun is_scalar :: "jsval \<Rightarrow> bool" where
  "is_scalar (VArr _) = False"
| "is_scalar (VObj _) = False"
| "is_scalar _ = True"

text \<open>\<open>SameValueZero\<close>, by which a \<open>Set\<close> and \<open>includes\<close> compare.\<close>

definition same_value_zero :: "jsval \<Rightarrow> jsval \<Rightarrow> bool" where
  "same_value_zero l r \<longleftrightarrow> strict_equals l r \<or> l = VNum NaN \<and> r = VNum NaN"

fun js_distinct :: "jsval list \<Rightarrow> jsval list" where
  "js_distinct [] = []"
| "js_distinct (v # vs) = v # filter (\<lambda>w. \<not> same_value_zero v w) (js_distinct vs)"

definition membership_of :: "operand \<Rightarrow> jsval list \<Rightarrow> operand" where
  "membership_of other vals =
     (case vals of [v] \<Rightarrow> Expression ''eq'' [other, Value v] | _ \<Rightarrow> Expression ''in'' [other, Value (VArr vals)])"

definition countMembership :: "jsval list \<Rightarrow> operand \<Rightarrow> jstring \<Rightarrow> (nat \<Rightarrow> bool) \<Rightarrow> operand option" where
  "countMembership elements body variable ok =
     (if elements = [] then None
      else case uniformComparison body variable of
        None \<Rightarrow> None
      | Some (op, path, other) \<Rightarrow>
          (case those (map (\<lambda>element. case project element path of
                  Some v \<Rightarrow> if is_scalar v then Some v else None | None \<Rightarrow> None) elements) of
             None \<Rightarrow> None
           | Some projected \<Rightarrow>
               let distinct_values = js_distinct projected;
                   multiplicity = (\<lambda>val. length (filter (\<lambda>v. strict_equals v val) projected));
                   countFor = (\<lambda>matches. if op = ''eq'' then matches else length projected - matches);
                   accepted = filter (\<lambda>val. ok (countFor (multiplicity val))) distinct_values;
                   absentHolds = ok (countFor 0)
               in if (if absentHolds then length accepted = length distinct_values else length accepted = 0) then None
                  else if \<not> absentHolds then Some (membership_of other accepted)
                  else Some (Expression ''not'' [membership_of other
                    (filter (\<lambda>val. \<not> list_ex (\<lambda>v. same_value_zero v val) accepted) distinct_values)])))"

subsection \<open>The rewrite\<close>

definition EXCEPT_VARIABLE :: jstring where
  "EXCEPT_VARIABLE = js ''__except''"

definition expandMacro :: "string \<Rightarrow> operand list \<Rightarrow> problem + operand option" where
  "expandMacro op args =
     (if op \<noteq> ''exists'' \<and> op \<noteq> ''all'' \<and> op \<noteq> ''exists_one'' then Inr None
      else case literalMacro args of
        None \<Rightarrow> Inr None
      | Some (elements, body, variable) \<Rightarrow>
          if op = ''exists_one'' then Inr (countMembership elements body variable (\<lambda>count. count = 1))
          else if length elements > MAX_UNROLLED_ELEMENTS then Inr None
          else if elements = [] then Inr (Some (Value (VBool (op = ''all''))))
          else bindE (mapE (\<lambda>element. substituteLambdaVariable body variable element) elements) (\<lambda>substituted.
            if length substituted = 1 then Inr (Some (hd substituted))
            else Inr (Some (Expression (if op = ''exists'' then ''or'' else ''and'') substituted))))"

text \<open>\<open>except(collection, literals)\<close> against an emptiness threshold.\<close>

definition except_emptiness :: "operand \<Rightarrow> operand \<Rightarrow> (nat \<Rightarrow> bool) \<Rightarrow> operand option" where
  "except_emptiness minuend subtrahend ok =
     (let nonEmpty = (ok 1 \<and> \<not> ok 0); empty = (ok 0 \<and> \<not> ok 1) in
      if \<not> nonEmpty \<and> \<not> empty then None
      else if list_ex (\<lambda>count. ok count \<noteq> ok 1) [2, 3] then None
      else let member = Expression ''in'' [Variable EXCEPT_VARIABLE, subtrahend]
           in Some (Expression (if nonEmpty then ''exists'' else ''all'')
                [minuend, Expression ''lambda''
                  [if nonEmpty then Expression ''not'' [member] else member, Variable EXCEPT_VARIABLE]]))"

definition is_lambda :: "operand \<Rightarrow> bool" where
  "is_lambda operand = (case operand of Expression op _ \<Rightarrow> op = ''lambda'' | _ \<Rightarrow> False)"

definition expandSizeComparison :: "string \<Rightarrow> operand list \<Rightarrow> operand option" where
  "expandSizeComparison op args =
     (case sizeComparison op args of
        None \<Rightarrow> None
      | Some ((counted, cargs), ok) \<Rightarrow>
          if counted = ''filter'' then
            (case literalMacro cargs of
               None \<Rightarrow> None
             | Some (elements, body, variable) \<Rightarrow> countMembership elements body variable ok)
          else if counted \<noteq> ''except'' then None
          else (case cargs of
            [minuend, subtrahend] \<Rightarrow>
              if is_lambda subtrahend then None
              else (case literalList minuend of
                Some elements \<Rightarrow>
                  (case subtrahend of
                     Expression l [removed] \<Rightarrow>
                       if l = ''list'' \<and> literalValue removed = None then
                         countMembership elements
                           (Expression ''ne'' [Variable EXCEPT_VARIABLE, removed]) EXCEPT_VARIABLE ok
                       else None
                   | _ \<Rightarrow> None)
              | None \<Rightarrow>
                  if isNamedOperand minuend \<and> literalList subtrahend \<noteq> None
                  then except_emptiness minuend subtrahend ok else None)
          | _ \<Rightarrow> None))"

fun expandLiteralCollections :: "operand \<Rightarrow> problem + operand" where
  "expandLiteralCollections (Expression op args) =
     bindE (mapE expandLiteralCollections args) (\<lambda>operands.
     bindE (expandMacro op operands) (\<lambda>expanded.
       Inr (case expanded of
              Some e \<Rightarrow> e
            | None \<Rightarrow> (case expandSizeComparison op operands of Some e \<Rightarrow> e | None \<Rightarrow> Expression op operands))))"
| "expandLiteralCollections expr = Inr expr"

end
