(* ===== verification/Prisma_Solve.thy ===== *)
theory Prisma_Solve
  imports Prisma_Evaluate
begin

text \<open>
  prisma/src/solve.ts: \<open>f(column) CMP v\<close> solved for the column by a binary search over the doubles, and the
  arithmetic of comparison.ts that is solved with it. A finite double has an integer key, its bit
  pattern with the sign pulled out, that orders the doubles.
\<close>

datatype DoubleInterval = Empty | Bounds (lo: "jsnum option") (hi: "jsnum option")

text \<open>The 52 bits of the fraction.\<close>

definition FRACTION :: int where "FRACTION = 2 ^ 52"

definition magnitude_key :: "rat \<Rightarrow> int" where
  "magnitude_key r = (if r = 0 then 0 else (ulp_exp r + 1074) * FRACTION + \<lfloor>\<bar>r\<bar> / 2 powi ulp_exp r\<rfloor>)"

fun toKey :: "jsnum \<Rightarrow> int" where
  "toKey NaN = 2047 * FRACTION + 2 ^ 51"
| "toKey PInf = 2047 * FRACTION"
| "toKey NInf = - (2047 * FRACTION)"
| "toKey NegZero = 0"
| "toKey (Fin r) = (if r < 0 then - magnitude_key r else magnitude_key r)"

text \<open>
  The double of a bit pattern with the sign bit clear: the exponent field 0 is that of the subnormals, which
  share the unit of the field 1 and lack the leading bit.
\<close>

definition unit_exp :: "int \<Rightarrow> int" where
  "unit_exp e = max e 1 - 1075"

definition significand :: "int \<Rightarrow> int \<Rightarrow> int" where
  "significand e m = (if e = 0 then m else FRACTION + m)"

definition magnitude :: "int \<Rightarrow> rat" where
  "magnitude k = of_int (significand (k div FRACTION) (k mod FRACTION)) * 2 powi unit_exp (k div FRACTION)"

definition fromKey :: "int \<Rightarrow> jsnum" where
  "fromKey key =
     (let k = \<bar>key\<bar> in
      if 2047 \<le> k div FRACTION then (if k mod FRACTION \<noteq> 0 then NaN else signed_inf (key < 0))
      else Fin (if key < 0 then - magnitude k else magnitude k))"

definition MAX_VALUE :: rat where "MAX_VALUE = (2 ^ 53 - 1) * 2 ^ 971"

definition MIN_KEY :: int where "MIN_KEY = toKey (Fin (- MAX_VALUE))"
definition MAX_KEY :: int where "MAX_KEY = toKey (Fin MAX_VALUE)"

function least_loop :: "(jsnum \<Rightarrow> bool) \<Rightarrow> int \<Rightarrow> int \<Rightarrow> int" where
  "least_loop ok low high =
     (if low < high then
        let mid = low + (high - low) div 2
        in if ok (fromKey mid) then least_loop ok low mid else least_loop ok (mid + 1) high
      else low)"
  by pat_completeness auto
termination by (relation "measure (\<lambda>(_, low, high). nat (high - low))") auto

declare least_loop.simps [simp del]

definition leastKey :: "(jsnum \<Rightarrow> bool) \<Rightarrow> int option" where
  "leastKey ok = (if \<not> ok (fromKey MAX_KEY) then None else Some (least_loop ok MIN_KEY MAX_KEY))"

definition interval_of :: "int option \<Rightarrow> int option \<Rightarrow> DoubleInterval" where
  "interval_of low high =
     (if (case (low, high) of (Some l, Some h) \<Rightarrow> l > h | _ \<Rightarrow> False) then Empty
      else Bounds
        (case low of None \<Rightarrow> None | Some l \<Rightarrow> if l = MIN_KEY then None else Some (fromKey l))
        (case high of None \<Rightarrow> None | Some h \<Rightarrow> if h = MAX_KEY then None else Some (fromKey h)))"

definition below :: "int option \<Rightarrow> int" where
  "below key = (case key of None \<Rightarrow> MAX_KEY | Some k \<Rightarrow> k - 1)"

text \<open>\<open>ne\<close> is outside the operator's type: the switch has no case for it.\<close>

definition solveMonotone :: "(jsnum \<Rightarrow> jsnum) \<Rightarrow> cmp_op \<Rightarrow> jsnum \<Rightarrow> DoubleInterval option" where
  "solveMonotone f operator v =
     (let atLeast = leastKey (\<lambda>x. num_le v (f x));
          above = leastKey (\<lambda>x. num_lt v (f x))
      in case operator of
           Ge \<Rightarrow> Some (if atLeast = None then Empty else interval_of atLeast None)
         | Gt \<Rightarrow> Some (if above = None then Empty else interval_of above None)
         | Le \<Rightarrow> Some (if above = Some MIN_KEY then Empty else interval_of None (Some (below above)))
         | Lt \<Rightarrow> Some (if atLeast = Some MIN_KEY then Empty else interval_of None (Some (below atLeast)))
         | Eq \<Rightarrow> Some (if atLeast = None then Empty else interval_of atLeast (Some (below above)))
         | Ne \<Rightarrow> None)"

fun negateInterval :: "DoubleInterval \<Rightarrow> DoubleInterval" where
  "negateInterval Empty = Empty"
| "negateInterval (Bounds l h) = Bounds (map_option num_uminus h) (map_option num_uminus l)"

subsection \<open>The keys order the doubles\<close>

lemma FRACTION_pos [simp]: "0 < FRACTION" "1 < FRACTION"
  by (simp_all add: FRACTION_def)

lemma key_split:
  assumes "0 \<le> m" "m < FRACTION"
  shows "(e * FRACTION + m) div FRACTION = e" "(e * FRACTION + m) mod FRACTION = m"
  using assms by (auto intro!: int_div_pos_eq int_mod_pos_eq simp: mult.commute)

lemma magnitude_split:
  "0 \<le> m \<Longrightarrow> m < FRACTION \<Longrightarrow> magnitude (e * FRACTION + m) = of_int (significand e m) * 2 powi unit_exp e"
  by (simp only: magnitude_def key_split)

lemma unit_exp_Suc: "0 \<le> e \<Longrightarrow> (2::rat) powi unit_exp (e + 1) = (if e = 0 then 1 else 2) * 2 powi unit_exp e"
proof (cases "e = 0")
  case False
  assume "0 \<le> e"
  then have "unit_exp (e + 1) = unit_exp e + 1" using False by (simp add: unit_exp_def)
  then show ?thesis using False by (simp add: power_int_add)
qed (simp add: unit_exp_def)

text \<open>Consecutive patterns differ by a unit in the last place.\<close>

lemma magnitude_Suc:
  assumes "0 \<le> k"
  shows "magnitude (k + 1) = magnitude k + 2 powi unit_exp (k div FRACTION)"
proof -
  define e m where "e = k div FRACTION" and "m = k mod FRACTION"
  have k: "k = e * FRACTION + m" and m: "0 \<le> m" "m < FRACTION" and e: "0 \<le> e"
    using assms by (simp_all add: e_def m_def pos_imp_zdiv_nonneg_iff)
  have mk: "magnitude k = of_int (significand e m) * 2 powi unit_exp e" unfolding k by (rule magnitude_split [OF m])
  show ?thesis unfolding e_def [symmetric]
  proof (cases "m + 1 < FRACTION")
    case True
    have "magnitude (e * FRACTION + (m + 1)) = of_int (significand e (m + 1)) * 2 powi unit_exp e"
      using m True by (intro magnitude_split) simp_all
    then show "magnitude (k + 1) = magnitude k + 2 powi unit_exp e"
      unfolding mk by (simp add: k significand_def algebra_simps)
  next
    case False
    then have m': "m = FRACTION - 1" using m by simp
    have "magnitude ((e + 1) * FRACTION + 0) = of_int (significand (e + 1) 0) * 2 powi unit_exp (e + 1)"
      by (intro magnitude_split) simp_all
    moreover have "(e + 1) * FRACTION + 0 = k + 1" by (simp add: k m' ring_distribs)
    ultimately have "magnitude (k + 1) = of_int (significand (e + 1) 0) * ((if e = 0 then 1 else 2) * 2 powi unit_exp e)"
      by (simp only: unit_exp_Suc [OF e])
    then show "magnitude (k + 1) = magnitude k + 2 powi unit_exp e"
      unfolding mk using e by (simp add: significand_def m' algebra_simps)
  qed
qed

lemma magnitude_less: "j < k \<Longrightarrow> 0 \<le> j \<Longrightarrow> magnitude j < magnitude k"
proof (induction k rule: int_gr_induct)
  case base
  then show ?case by (simp add: magnitude_Suc)
next
  case (step i)
  then have "magnitude j < magnitude i" by simp
  also have "\<dots> < magnitude (i + 1)" using step by (simp add: magnitude_Suc)
  finally show ?case .
qed

lemma magnitude_0 [simp]: "magnitude 0 = 0"
  by (simp add: magnitude_def significand_def)

lemma magnitude_nonneg: "0 \<le> k \<Longrightarrow> 0 \<le> magnitude k"
  using magnitude_less [of 0 k] by (cases "k = 0") auto


lemma representable_scaled:
  assumes "representable r" "r \<noteq> 0"
  obtains m where "\<bar>r\<bar> = of_int m * 2 powi ulp_exp r" "0 < m" "m < 2 * FRACTION"
    "- 1074 < ulp_exp r \<Longrightarrow> FRACTION \<le> m"
proof -
  obtain m' e where r: "r = of_int m' * 2 powi e" "\<bar>m'\<bar> < 2 ^ 53" "- 1074 \<le> e"
    using assms(1) by (auto simp: representable_def)
  define q where "q = ulp_exp r"
  have "\<bar>r\<bar> < 2 ^ 53 * 2 powi e" using r(2) by (simp add: r(1) abs_mult flip: of_int_abs)
  also have "(2::rat) ^ 53 * 2 powi e = 2 powi (e + 53)" by (simp add: power_int_add)
  finally have "ilog2 \<bar>r\<bar> < e + 53" using assms(2) by (intro ilog2_less) auto
  then have q: "q \<le> e" "- 1074 \<le> q" using r(3) by (simp_all add: q_def ulp_exp_def)
  define m where "m = \<bar>m'\<bar> * 2 ^ nat (e - q)"
  have "(2::rat) ^ nat (e - q) = 2 powi (e - q)" using q by (simp add: power_int_def)
  then have m: "\<bar>r\<bar> = of_int m * 2 powi q" by (simp add: r(1) m_def abs_mult power_int_diff)
  have "m' \<noteq> 0" using assms(2) r(1) by auto
  then have pos: "0 < m" by (simp add: m_def)
  have "\<bar>r / 2 powi q\<bar> < 2 ^ 53" unfolding q_def by (rule ulp_exp_bound [OF assms(2)])
  then have "(of_int m :: rat) < 2 ^ 53" using pos m by (simp add: abs_divide)
  then have "(of_int m :: rat) < of_int (2 * FRACTION)" by (simp add: FRACTION_def)
  then have hi: "m < 2 * FRACTION" by (simp only: of_int_less_iff)
  have "FRACTION \<le> m" if "- 1074 < q"
  proof -
    have "q = ilog2 \<bar>r\<bar> - 52" using that by (simp add: q_def ulp_exp_def)
    then have "2 powi (q + 52) \<le> \<bar>r\<bar>" using ilog2_bounds(1) [of "\<bar>r\<bar>"] assms(2) by simp
    then have "(2::rat) ^ 52 * 2 powi q \<le> of_int m * 2 powi q" by (simp add: m power_int_add)
    then have "(2::rat) ^ 52 \<le> of_int m" by simp
    then have "(of_int FRACTION :: rat) \<le> of_int m" by (simp add: FRACTION_def)
    then show ?thesis by (simp only: of_int_le_iff)
  qed
  then show thesis using that m pos hi by (simp add: q_def)
qed

lemma ulp_exp_max: "representable r \<Longrightarrow> r \<noteq> 0 \<Longrightarrow> ulp_exp r \<le> 971 \<and> - 1074 \<le> ulp_exp r"
proof -
  assume r: "representable r" "r \<noteq> 0"
  then have "\<bar>r\<bar> < 2 powi 1024" by (auto simp: representable_def overflow_def)
  then have "ilog2 \<bar>r\<bar> < 1024" using r(2) by (intro ilog2_less) auto
  then show ?thesis by (simp add: ulp_exp_def)
qed

lemma magnitude_key:
  assumes "representable r"
  shows "magnitude (magnitude_key r) = \<bar>r\<bar>" "0 \<le> magnitude_key r" "magnitude_key r < 2047 * FRACTION"
proof -
  have "magnitude (magnitude_key r) = \<bar>r\<bar> \<and> 0 \<le> magnitude_key r \<and> magnitude_key r < 2047 * FRACTION"
  proof (cases "r = 0")
    case False
    define q where "q = ulp_exp r"
    obtain m where m: "\<bar>r\<bar> = of_int m * 2 powi q" "0 < m" "m < 2 * FRACTION" "- 1074 < q \<Longrightarrow> FRACTION \<le> m"
      using representable_scaled [OF assms False] unfolding q_def by blast
    have q: "q \<le> 971" "- 1074 \<le> q" using ulp_exp_max [OF assms False] by (simp_all add: q_def)
    have key: "magnitude_key r = (q + 1074) * FRACTION + m" using False m(1) by (simp add: magnitude_key_def q_def [symmetric])
    have "(q + 1074) * FRACTION \<le> 2045 * FRACTION" using q by (intro mult_right_mono) (simp_all add: less_imp_le)
    then have b: "magnitude_key r < 2047 * FRACTION" unfolding key using m(3) by linarith
    have "0 \<le> (q + 1074) * FRACTION" using q by (intro mult_nonneg_nonneg) (simp_all add: less_imp_le)
    then have n: "0 \<le> magnitude_key r" using m(2) by (simp add: key)
    show ?thesis
    proof (cases "m < FRACTION")
      case True
      then have q': "q = - 1074" using m(4) q by linarith
      have "magnitude (0 * FRACTION + m) = of_int (significand 0 m) * 2 powi unit_exp 0"
        by (rule magnitude_split) (use True m(2) in simp_all)
      then show ?thesis using b n m(1) by (simp add: key q' significand_def unit_exp_def)
    next
      case f: False
      have k: "magnitude_key r = (q + 1075) * FRACTION + (m - FRACTION)" by (simp add: key ring_distribs)
      have "magnitude ((q + 1075) * FRACTION + (m - FRACTION)) = of_int (significand (q + 1075) (m - FRACTION)) * 2 powi unit_exp (q + 1075)"
        by (rule magnitude_split) (use f m(3) in simp_all)
      moreover have "unit_exp (q + 1075) = q" "significand (q + 1075) (m - FRACTION) = m" using q by (simp_all add: unit_exp_def significand_def)
      ultimately show ?thesis using b n m(1) by (simp add: k)
    qed
  qed (simp add: magnitude_key_def)
  then show "magnitude (magnitude_key r) = \<bar>r\<bar>" "0 \<le> magnitude_key r" "magnitude_key r < 2047 * FRACTION" by auto
qed


text \<open>The signed value of a key.\<close>

definition key_val :: "int \<Rightarrow> rat" where
  "key_val k = (if k < 0 then - magnitude (- k) else magnitude k)"

lemma key_val_less: "j < k \<longleftrightarrow> key_val j < key_val k"
proof -
  have *: "key_val j < key_val k" if jk: "j < k" for j k
  proof -
    consider "0 \<le> j" | "j < 0" "0 \<le> k" | "j < 0" "k < 0" by linarith
    then show ?thesis
    proof cases
      case 2
      then show ?thesis using magnitude_less [of 0 "- j"] magnitude_nonneg [of k] by (simp add: key_val_def)
    next
      case 3
      then show ?thesis using magnitude_less [of "- k" "- j"] jk by (simp add: key_val_def)
    qed (use magnitude_less [OF jk] jk in \<open>simp add: key_val_def\<close>)
  qed
  then show ?thesis by (metis linorder_cases order_less_asym)
qed

lemma key_val_le: "j \<le> k \<longleftrightarrow> key_val j \<le> key_val k"
  by (meson key_val_less linorder_not_le)

lemma representable_MAX: "representable MAX_VALUE"
proof -
  have e: "MAX_VALUE = of_int (2 ^ 53 - 1) * 2 powi 971" by (simp add: MAX_VALUE_def power_int_def)
  have "(2 ^ 53 - 1) * (2::rat) ^ 971 < 2 ^ 53 * 2 ^ 971" by (intro mult_strict_right_mono) simp_all
  also have "(2::rat) ^ 53 * 2 ^ 971 = overflow" unfolding overflow_def power_add [symmetric] by simp
  finally have "\<bar>MAX_VALUE\<bar> < overflow" by (simp add: MAX_VALUE_def)
  moreover have "\<bar>2 ^ 53 - 1 :: int\<bar> < 2 ^ 53" "- 1074 \<le> (971 :: int)" by simp_all
  ultimately show ?thesis unfolding representable_def using e by blast
qed

lemma MAX_KEY_eq: "MAX_KEY = 2047 * FRACTION - 1"
proof -
  have "ilog2 \<bar>MAX_VALUE\<bar> = 1023" by (rule ilog2_unique) (simp_all add: MAX_VALUE_def)
  then have u: "ulp_exp MAX_VALUE = 971" by (simp add: ulp_exp_def)
  have "\<bar>MAX_VALUE\<bar> / 2 powi 971 = 2 ^ 53 - 1" by (simp add: MAX_VALUE_def)
  then have "\<lfloor>\<bar>MAX_VALUE\<bar> / 2 powi 971\<rfloor> = 2 ^ 53 - 1" by simp
  moreover have "MAX_VALUE \<noteq> 0" "\<not> MAX_VALUE < 0" by (simp_all add: MAX_VALUE_def)
  ultimately show ?thesis by (simp add: MAX_KEY_def magnitude_key_def u FRACTION_def)
qed

lemma MIN_KEY_eq: "MIN_KEY = - MAX_KEY"
proof -
  have "0 < MAX_VALUE" by (simp add: MAX_VALUE_def)
  moreover have "magnitude_key (- MAX_VALUE) = magnitude_key MAX_VALUE" by (simp add: magnitude_key_def ulp_exp_def)
  ultimately show ?thesis by (simp add: MIN_KEY_def MAX_KEY_def)
qed

lemma div_lt:
  fixes a :: int
  assumes "a < n * FRACTION"
  shows "a div FRACTION < n"
proof (rule ccontr)
  assume "\<not> a div FRACTION < n"
  then have "n * FRACTION \<le> a div FRACTION * FRACTION" by (intro mult_right_mono) (simp_all add: less_imp_le)
  moreover have "a div FRACTION * FRACTION \<le> a" by (simp flip: minus_mod_eq_div_mult)
  ultimately show False using assms by linarith
qed

lemma fromKey_finite: "MIN_KEY \<le> k \<Longrightarrow> k \<le> MAX_KEY \<Longrightarrow> fromKey k = Fin (key_val k)"
proof -
  assume "MIN_KEY \<le> k" "k \<le> MAX_KEY"
  then have "\<bar>k\<bar> < 2047 * FRACTION" by (simp add: MIN_KEY_eq MAX_KEY_eq)
  then have "\<bar>k\<bar> div FRACTION < 2047" by (rule div_lt)
  then show ?thesis by (auto simp: fromKey_def key_val_def Let_def)
qed

lemma toKey_range:
  assumes "wf_num x" "is_finite x"
  shows "MIN_KEY \<le> toKey x" "toKey x \<le> MAX_KEY" "key_val (toKey x) = num_val x"
proof -
  have "MIN_KEY \<le> toKey x \<and> toKey x \<le> MAX_KEY \<and> key_val (toKey x) = num_val x"
  proof (cases x)
    case (Fin r)
    then have "representable r" using assms(1) by simp
    note k = magnitude_key [OF this]
    show ?thesis
    proof (cases "r < 0")
      case True
      then have "magnitude_key r \<noteq> 0" using k(1) by auto
      then show ?thesis using k True by (simp add: Fin MIN_KEY_eq MAX_KEY_eq key_val_def)
    qed (use k in \<open>simp add: Fin MIN_KEY_eq MAX_KEY_eq key_val_def\<close>)
  qed (use assms in \<open>auto simp: MIN_KEY_eq MAX_KEY_eq key_val_def FRACTION_def\<close>)
  then show "MIN_KEY \<le> toKey x" "toKey x \<le> MAX_KEY" "key_val (toKey x) = num_val x" by auto
qed


subsection \<open>The binary search\<close>

definition least_at :: "(jsnum \<Rightarrow> bool) \<Rightarrow> int \<Rightarrow> int \<Rightarrow> int \<Rightarrow> bool" where
  "least_at ok low high k \<longleftrightarrow>
     low \<le> k \<and> k \<le> high \<and> (\<forall>j. low \<le> j \<longrightarrow> j \<le> high \<longrightarrow> ok (fromKey j) = (k \<le> j))"

definition upward :: "(jsnum \<Rightarrow> bool) \<Rightarrow> int \<Rightarrow> int \<Rightarrow> bool" where
  "upward ok low high \<longleftrightarrow>
     (\<forall>j k. low \<le> j \<longrightarrow> j \<le> k \<longrightarrow> k \<le> high \<longrightarrow> ok (fromKey j) \<longrightarrow> ok (fromKey k))"

lemma upward_sub: "upward ok low high \<Longrightarrow> low \<le> l \<Longrightarrow> h \<le> high \<Longrightarrow> upward ok l h"
  unfolding upward_def by (meson order.trans)

lemma least_at_left:
  assumes "least_at ok low mid k" "mid \<le> high" "upward ok low high" "low \<le> mid" "ok (fromKey mid)"
  shows "least_at ok low high k"
proof -
  have "ok (fromKey j) = (k \<le> j)" if j: "low \<le> j" "j \<le> high" for j
  proof (cases "j \<le> mid")
    case False
    then have "ok (fromKey j)" using assms(3,4,5) j unfolding upward_def by (meson linorder_le_cases)
    moreover have "k \<le> j" using assms(1) False by (simp add: least_at_def)
    ultimately show ?thesis by simp
  qed (use assms(1) j in \<open>simp add: least_at_def\<close>)
  then show ?thesis using assms(1,2) by (simp add: least_at_def)
qed

lemma least_at_right:
  assumes "least_at ok (mid + 1) high k" "upward ok low high" "low \<le> mid" "mid \<le> high" "\<not> ok (fromKey mid)"
  shows "least_at ok low high k"
proof -
  have "ok (fromKey j) = (k \<le> j)" if j: "low \<le> j" "j \<le> high" for j
  proof (cases "mid < j")
    case False
    then have "\<not> ok (fromKey j)" using assms(2,4,5) j unfolding upward_def by (meson linorder_not_le)
    moreover have "\<not> k \<le> j" using assms(1) False by (simp add: least_at_def)
    ultimately show ?thesis by simp
  qed (use assms(1) j in \<open>simp add: least_at_def\<close>)
  then show ?thesis using assms(1,3) by (simp add: least_at_def)
qed

lemma least_loop_correct:
  assumes "low \<le> high" "ok (fromKey high)" "upward ok low high"
  shows "least_at ok low high (least_loop ok low high)"
  using assms
proof (induction ok low high rule: least_loop.induct)
  case (1 ok low high)
  note up = 1(5)
  show ?case
  proof (cases "low < high")
    case True
    define mid where "mid = low + (high - low) div 2"
    have mid: "low \<le> mid" "mid < high" using True by (auto simp: mid_def)
    show ?thesis
    proof (cases "ok (fromKey mid)")
      case ok: True
      have "least_at ok low mid (least_loop ok low mid)"
        by (rule "1.IH"(1) [OF True mid_def ok mid(1) ok]) (rule upward_sub [OF up], use mid in simp_all)
      then have "least_at ok low high (least_loop ok low mid)" by (rule least_at_left) (use mid up ok in simp_all)
      then show ?thesis using True ok by (simp add: least_loop.simps [of ok low high] mid_def)
    next
      case nok: False
      have "least_at ok (mid + 1) high (least_loop ok (mid + 1) high)"
        by (rule "1.IH"(2) [OF True mid_def nok]) (use mid 1(4) in simp, rule 1(4), rule upward_sub [OF up], use mid in simp_all)
      then have "least_at ok low high (least_loop ok (mid + 1) high)" by (rule least_at_right) (use mid up nok in simp_all)
      then show ?thesis using True nok by (simp add: least_loop.simps [of ok low high] mid_def)
    qed
  next
    case False
    then have "low = high" using 1(3) by simp
    then show ?thesis using 1(4) by (simp add: least_loop.simps [of ok high high] least_at_def)
  qed
qed

lemma MIN_le_MAX: "MIN_KEY \<le> MAX_KEY"
  by (simp add: MIN_KEY_eq MAX_KEY_eq FRACTION_def)

lemma leastKey_iff:
  assumes "upward ok MIN_KEY MAX_KEY" "MIN_KEY \<le> j" "j \<le> MAX_KEY"
  shows "ok (fromKey j) \<longleftrightarrow> (case leastKey ok of None \<Rightarrow> False | Some k \<Rightarrow> k \<le> j)"
proof (cases "ok (fromKey MAX_KEY)")
  case True
  then show ?thesis using least_loop_correct [of MIN_KEY MAX_KEY ok] MIN_le_MAX assms by (simp add: leastKey_def least_at_def)
next
  case False
  then have "\<not> ok (fromKey j)" using assms unfolding upward_def by blast
  then show ?thesis using False by (simp add: leastKey_def)
qed

lemma leastKey_range:
  assumes "upward ok MIN_KEY MAX_KEY" "leastKey ok = Some k"
  shows "MIN_KEY \<le> k \<and> k \<le> MAX_KEY"
proof -
  have "ok (fromKey MAX_KEY)" "k = least_loop ok MIN_KEY MAX_KEY" using assms(2) by (auto simp: leastKey_def split: if_splits)
  then show ?thesis using least_loop_correct [of MIN_KEY MAX_KEY ok] MIN_le_MAX assms(1) by (simp add: least_at_def)
qed

subsection \<open>Solving a comparison\<close>

lemma num_le_finite: "is_finite a \<Longrightarrow> is_finite b \<Longrightarrow> num_le a b \<longleftrightarrow> num_val a \<le> num_val b"
  by (cases a; cases b) (auto simp: num_le_def)

lemma num_le_trans: "num_le a b \<Longrightarrow> num_le b c \<Longrightarrow> num_le a c"
  by (cases a; cases b; cases c) (auto simp: num_le_def)

lemma num_lt_le_trans: "num_lt a b \<Longrightarrow> num_le b c \<Longrightarrow> num_lt a c"
  by (cases a; cases b; cases c) (auto simp: num_le_def)

lemma num_linear: "\<not> is_nan a \<Longrightarrow> \<not> is_nan b \<Longrightarrow> num_le a b \<longleftrightarrow> \<not> num_lt b a"
  by (simp add: num_le_def)

lemma compareValues_numbers:
  assumes "\<not> is_nan a" "\<not> is_nan b"
  shows "compareValues op (VNum a) (VNum b) =
    VBool (case op of Eq \<Rightarrow> num_le b a \<and> num_le a b | Ne \<Rightarrow> \<not> (num_le b a \<and> num_le a b)
           | Lt \<Rightarrow> \<not> num_le b a | Le \<Rightarrow> \<not> num_lt b a | Gt \<Rightarrow> num_lt b a | Ge \<Rightarrow> num_le b a)"
  using assms by (cases op) (auto simp: compareValues_def isEvaluationError_def scalarEqual_def ordering_keys_def num_le_def)

text \<open>What an interval stands for: inclusive bounds, absent on an unbounded side.\<close>

fun in_interval :: "DoubleInterval \<Rightarrow> jsnum \<Rightarrow> bool" where
  "in_interval Empty x = False"
| "in_interval (Bounds l h) x =
     ((case l of None \<Rightarrow> True | Some a \<Rightarrow> num_le a x) \<and> (case h of None \<Rightarrow> True | Some b \<Rightarrow> num_le x b))"

lemma fromKey_le:
  assumes "wf_num x" "is_finite x" "MIN_KEY \<le> k" "k \<le> MAX_KEY"
  shows "num_le (fromKey k) x \<longleftrightarrow> k \<le> toKey x" "num_le x (fromKey k) \<longleftrightarrow> toKey x \<le> k"
  using toKey_range [OF assms(1,2)] assms(2)
  by (simp_all add: fromKey_finite [OF assms(3,4)] num_le_finite key_val_le)

lemma in_interval_of:
  assumes x: "wf_num x" "is_finite x"
    and l: "\<And>l. low = Some l \<Longrightarrow> MIN_KEY \<le> l \<and> l \<le> MAX_KEY"
    and h: "\<And>h. high = Some h \<Longrightarrow> h \<le> MAX_KEY \<and> (MIN_KEY \<le> h \<or> (\<exists>l. low = Some l \<and> h < l))"
  shows "in_interval (interval_of low high) x \<longleftrightarrow>
    (case low of None \<Rightarrow> True | Some l \<Rightarrow> l \<le> toKey x) \<and> (case high of None \<Rightarrow> True | Some h \<Rightarrow> toKey x \<le> h)"
proof (cases "\<exists>l h. low = Some l \<and> high = Some h \<and> h < l")
  case True
  then show ?thesis by (auto simp: interval_of_def)
next
  case False
  then have h': "high = Some b \<Longrightarrow> MIN_KEY \<le> b \<and> b \<le> MAX_KEY" for b using h by (cases low) auto
  note r = toKey_range [OF x]
  have "(case (case low of None \<Rightarrow> None | Some l \<Rightarrow> if l = MIN_KEY then None else Some (fromKey l)) of
      None \<Rightarrow> True | Some a \<Rightarrow> num_le a x) = (case low of None \<Rightarrow> True | Some l \<Rightarrow> l \<le> toKey x)"
    using l r by (cases low) (simp_all add: fromKey_le x)
  moreover have "(case (case high of None \<Rightarrow> None | Some h \<Rightarrow> if h = MAX_KEY then None else Some (fromKey h)) of
      None \<Rightarrow> True | Some b \<Rightarrow> num_le x b) = (case high of None \<Rightarrow> True | Some h \<Rightarrow> toKey x \<le> h)"
    using h' r by (cases high) (simp_all add: fromKey_le x)
  moreover have "(case (low, high) of (Some l, Some h) \<Rightarrow> l > h | _ \<Rightarrow> False) = False"
    using False by (auto split: option.splits)
  ultimately show ?thesis by (simp add: interval_of_def)
qed

definition nondecreasing :: "(jsnum \<Rightarrow> jsnum) \<Rightarrow> bool" where
  "nondecreasing f \<longleftrightarrow>
     (\<forall>x y. wf_num x \<and> is_finite x \<and> wf_num y \<and> is_finite y \<and> num_le x y \<longrightarrow> num_le (f x) (f y))"

lemma representable_magnitude:
  assumes "0 \<le> k" "k \<le> MAX_KEY"
  shows "representable (magnitude k)"
proof -
  have e: "0 \<le> k div FRACTION" using assms by (simp add: pos_imp_zdiv_nonneg_iff)
  have m: "0 \<le> k mod FRACTION" "k mod FRACTION < FRACTION" by simp_all
  have "magnitude MAX_KEY = MAX_VALUE"
    using magnitude_key(1) [OF representable_MAX] by (simp add: MAX_KEY_def MAX_VALUE_def)
  then have "magnitude k \<le> MAX_VALUE" using magnitude_less [of k MAX_KEY] assms by (cases "k = MAX_KEY") auto
  moreover have "\<bar>MAX_VALUE\<bar> < overflow" using representable_MAX by (auto simp: representable_def)
  ultimately have v: "\<bar>magnitude k\<bar> < overflow" using magnitude_nonneg [OF assms(1)] by linarith
  have "\<bar>significand (k div FRACTION) (k mod FRACTION)\<bar> < 2 * FRACTION"
    using m FRACTION_pos unfolding significand_def abs_if by (smt (verit))
  then have s: "\<bar>significand (k div FRACTION) (k mod FRACTION)\<bar> < 2 ^ 53" by (simp add: FRACTION_def)
  have "- 1074 \<le> unit_exp (k div FRACTION)" by (simp add: unit_exp_def)
  then show ?thesis unfolding representable_def using v s magnitude_def by blast
qed

lemma key_num:
  assumes "MIN_KEY \<le> k" "k \<le> MAX_KEY"
  shows "is_finite (fromKey k)" "wf_num (fromKey k)"
proof -
  show "is_finite (fromKey k)" by (simp add: fromKey_finite [OF assms])
  have "\<bar>k\<bar> \<le> MAX_KEY" using assms by (simp add: MIN_KEY_eq)
  then have "representable (magnitude \<bar>k\<bar>)" by (intro representable_magnitude) simp_all
  then have "representable (key_val k)" by (auto simp: key_val_def intro: representable_uminus)
  then show "wf_num (fromKey k)" by (simp add: fromKey_finite [OF assms])
qed

lemma num_le_sym_val: "is_finite a \<Longrightarrow> is_finite b \<Longrightarrow> num_val a = num_val b \<Longrightarrow> num_le a b \<and> num_le b a"
  by (simp add: num_le_finite)

lemma solve_exact:
  assumes f: "nondecreasing f" and v: "\<not> is_nan v" and op: "op \<noteq> Ne" and x: "wf_num x" "is_finite x"
  shows "\<exists>i. solveMonotone f op v = Some i \<and> compareValues op (VNum (f x)) (VNum v) = VBool (in_interval i x)"
proof -
  define ge gt where "ge = (\<lambda>x. num_le v (f x))" and "gt = (\<lambda>x. num_lt v (f x))"
  have keys: "num_le (f (fromKey j)) (f (fromKey k))" if "MIN_KEY \<le> j" "j \<le> k" "k \<le> MAX_KEY" for j k
    using f key_num [of j] key_num [of k] that
    by (auto simp: nondecreasing_def fromKey_finite num_le_finite key_val_le [symmetric])
  have up: "upward ge MIN_KEY MAX_KEY" "upward gt MIN_KEY MAX_KEY"
    unfolding upward_def ge_def gt_def using keys num_le_trans num_lt_le_trans by blast+
  define k where "k = toKey x"
  have k: "MIN_KEY \<le> k" "k \<le> MAX_KEY" "num_val (fromKey k) = num_val x"
    using toKey_range [OF x] by (simp_all add: k_def fromKey_finite)
  have same: "num_le (fromKey k) x" "num_le x (fromKey k)"
    using num_le_sym_val [OF key_num(1) [OF k(1,2)] x(2)] k(3) by blast+
  have fs: "num_le (f (fromKey k)) (f x)" "num_le (f x) (f (fromKey k))"
    using f x key_num [OF k(1,2)] same by (auto simp: nondecreasing_def)
  have g: "ge x = ge (fromKey k)" "gt x = gt (fromKey k)"
    unfolding ge_def gt_def using fs num_le_trans num_lt_le_trans by blast+
  have ge: "ge x \<longleftrightarrow> (case leastKey ge of None \<Rightarrow> False | Some l \<Rightarrow> l \<le> k)"
    and gt: "gt x \<longleftrightarrow> (case leastKey gt of None \<Rightarrow> False | Some l \<Rightarrow> l \<le> k)"
    using leastKey_iff [OF up(1) k(1,2)] leastKey_iff [OF up(2) k(1,2)] g by simp_all
  note ranges = leastKey_range [OF up(1)] leastKey_range [OF up(2)]
  have nan: "\<not> is_nan (f x)" using fs(1) by (simp add: num_le_def)
  have cmp: "compareValues op (VNum (f x)) (VNum v) =
    VBool (case op of Eq \<Rightarrow> ge x \<and> \<not> gt x | Ne \<Rightarrow> \<not> (ge x \<and> \<not> gt x) | Lt \<Rightarrow> \<not> ge x | Le \<Rightarrow> \<not> gt x | Gt \<Rightarrow> gt x | Ge \<Rightarrow> ge x)"
    using compareValues_numbers [OF nan v, of op] num_linear [OF nan v] by (cases op) (simp_all add: ge_def gt_def)
  have solve: "solveMonotone f op v = Some (case op of
       Ge \<Rightarrow> if leastKey ge = None then Empty else interval_of (leastKey ge) None
     | Gt \<Rightarrow> if leastKey gt = None then Empty else interval_of (leastKey gt) None
     | Le \<Rightarrow> if leastKey gt = Some MIN_KEY then Empty else interval_of None (Some (below (leastKey gt)))
     | Lt \<Rightarrow> if leastKey ge = Some MIN_KEY then Empty else interval_of None (Some (below (leastKey ge)))
     | _ \<Rightarrow> if leastKey ge = None then Empty else interval_of (leastKey ge) (Some (below (leastKey gt))))"
    unfolding solveMonotone_def ge_def gt_def Let_def using op by (cases op) simp_all
  have iv: "in_interval (interval_of (Some a) None) x = (a \<le> k)"
      "MIN_KEY \<le> b \<Longrightarrow> in_interval (interval_of None (Some b)) x = (k \<le> b)"
      "MIN_KEY - 1 \<le> b \<Longrightarrow> in_interval (interval_of (Some a) (Some b)) x = (a \<le> k \<and> k \<le> b)"
    if "MIN_KEY \<le> a" "a \<le> MAX_KEY" "b \<le> MAX_KEY" for a b
  proof -
    show "in_interval (interval_of (Some a) None) x = (a \<le> k)"
      using in_interval_of [OF x, of "Some a" None] that by (simp add: k_def)
    show "in_interval (interval_of None (Some b)) x = (k \<le> b)" if b: "MIN_KEY \<le> b"
      using in_interval_of [OF x, of None "Some b"] b \<open>b \<le> MAX_KEY\<close> by (simp add: k_def)
    show "in_interval (interval_of (Some a) (Some b)) x = (a \<le> k \<and> k \<le> b)" if b: "MIN_KEY - 1 \<le> b"
    proof -
      have "MIN_KEY \<le> b \<or> b < a" using b \<open>MIN_KEY \<le> a\<close> by linarith
      then show ?thesis
        using in_interval_of [OF x, of "Some a" "Some b"] \<open>MIN_KEY \<le> a\<close> \<open>a \<le> MAX_KEY\<close> \<open>b \<le> MAX_KEY\<close> by (simp add: k_def)
    qed
  qed
  have up_to: "in_interval (if above = Some MIN_KEY then Empty else interval_of None (Some (below above))) x =
      (\<not> (case above of None \<Rightarrow> False | Some l \<Rightarrow> l \<le> k))"
    if r: "\<And>l. above = Some l \<Longrightarrow> MIN_KEY \<le> l \<and> l \<le> MAX_KEY" for above
  proof (cases above)
    case None
    then show ?thesis using iv(2) [of MIN_KEY MAX_KEY] MIN_le_MAX k(2) by (simp add: below_def)
  next
    case (Some l)
    then show ?thesis using iv(2) [of l "l - 1"] r [OF Some] k(1) by (cases "l = MIN_KEY") (auto simp: below_def)
  qed
  have starting: "in_interval (if low = None then Empty else interval_of low None) x =
      (case low of None \<Rightarrow> False | Some l \<Rightarrow> l \<le> k)"
    if r: "\<And>l. low = Some l \<Longrightarrow> MIN_KEY \<le> l \<and> l \<le> MAX_KEY" for low
    using r iv(1) [of _ MAX_KEY] by (cases low) auto
  have between: "in_interval (if leastKey ge = None then Empty else interval_of (leastKey ge) (Some (below (leastKey gt)))) x =
      (ge x \<and> \<not> gt x)"
  proof (cases "leastKey ge")
    case (Some a)
    have "MIN_KEY - 1 \<le> below (leastKey gt) \<and> below (leastKey gt) \<le> MAX_KEY"
      using ranges(2) MIN_le_MAX by (cases "leastKey gt") (auto simp: below_def)
    moreover have "(k \<le> below (leastKey gt)) = (\<not> gt x)"
      using gt k(2) by (cases "leastKey gt") (auto simp: below_def)
    ultimately show ?thesis using iv(3) [of a "below (leastKey gt)"] ranges(1) [OF Some] ge by (simp add: Some)
  qed (use ge in simp)
  show ?thesis unfolding solve cmp
    by (intro exI conjI, rule refl)
      (use op between starting [of "leastKey ge"] starting [of "leastKey gt"] up_to [of "leastKey ge"] up_to [of "leastKey gt"] ranges ge gt
        in \<open>cases op; simp\<close>)
qed


subsection \<open>Rounding is monotone\<close>

text \<open>The rounded value before it is checked for overflow.\<close>

definition rounded :: "rat \<Rightarrow> rat" where
  "rounded r = (if r = 0 then 0 else of_int (round_half_even (r / 2 powi ulp_exp r)) * 2 powi ulp_exp r)"

lemma round_half_even_mono: "r \<le> s \<Longrightarrow> round_half_even r \<le> round_half_even s"
proof -
  assume rs: "r \<le> s"
  then have "\<lfloor>r\<rfloor> \<le> \<lfloor>s\<rfloor>" by (rule floor_mono)
  moreover have "of_int \<lfloor>r\<rfloor> \<le> r" "of_int \<lfloor>s\<rfloor> \<le> s" by simp_all
  moreover have "\<lfloor>r\<rfloor> = \<lfloor>s\<rfloor> \<Longrightarrow> r - of_int \<lfloor>r\<rfloor> \<le> s - of_int \<lfloor>s\<rfloor>" using rs by simp
  ultimately show ?thesis unfolding round_half_even_def Let_def
    by (cases "\<lfloor>r\<rfloor> = \<lfloor>s\<rfloor>") (auto split: if_splits)
qed

lemma round_half_even_uminus: "round_half_even (- r) = - round_half_even r"
proof (cases "of_int \<lfloor>r\<rfloor> = r")
  case True
  then obtain n where "r = of_int n" by metis
  then show ?thesis by (metis of_int_minus round_half_even_int)
next
  case False
  have "\<lfloor>- r\<rfloor> = - \<lfloor>r\<rfloor> - 1" using False by linarith
  then show ?thesis
    by (cases "r - of_int \<lfloor>r\<rfloor>" "1 / 2 :: rat" rule: linorder_cases) (simp_all add: round_half_even_def Let_def)
qed

lemma rounded_uminus: "rounded (- r) = - rounded r"
  by (simp add: rounded_def ulp_exp_def round_half_even_uminus)

lemma rounded_nonneg: "0 \<le> r \<Longrightarrow> 0 \<le> rounded r"
  using round_half_even_ge [of 0 "r / 2 powi ulp_exp r"] by (simp add: rounded_def)

lemma ulp_exp_le: "0 < r \<Longrightarrow> r \<le> s \<Longrightarrow> ulp_exp r \<le> ulp_exp s"
proof -
  assume r: "0 < r" "r \<le> s"
  then have "2 powi ilog2 r \<le> s" using ilog2_bounds(1) [of r] by linarith
  then have "ilog2 r \<le> ilog2 s" by (rule ilog2_ge)
  then show ?thesis using r by (simp add: ulp_exp_def)
qed

lemma rounded_pos_mono:
  assumes "0 < r" "r \<le> s"
  shows "rounded r \<le> rounded s"
proof (cases "ulp_exp r = ulp_exp s")
  case True
  have "r / 2 powi ulp_exp s \<le> s / 2 powi ulp_exp s" using assms by (simp add: divide_right_mono)
  then have "round_half_even (r / 2 powi ulp_exp s) \<le> round_half_even (s / 2 powi ulp_exp s)" by (rule round_half_even_mono)
  then show ?thesis using assms True by (simp add: rounded_def)
next
  case False
  then have q: "ulp_exp r + 1 \<le> ulp_exp s" using ulp_exp_le [OF assms] by simp
  have "r / 2 powi ulp_exp r \<le> of_int (2 ^ 53)" using ulp_exp_bound [of r] assms(1) by (simp add: abs_if split: if_splits)
  then have "round_half_even (r / 2 powi ulp_exp r) \<le> 2 ^ 53" by (rule round_half_even_le)
  then have "of_int (round_half_even (r / 2 powi ulp_exp r)) * 2 powi ulp_exp r \<le> of_int (2 ^ 53) * (2 powi ulp_exp r :: rat)"
    by (intro mult_right_mono) (simp_all only: of_int_le_iff, simp)
  then have "rounded r \<le> of_int (2 ^ 53) * 2 powi ulp_exp r" using assms(1) by (simp add: rounded_def)
  also have "\<dots> = 2 ^ 52 * 2 powi (ulp_exp r + 1)" by (simp add: power_int_add)
  also have "\<dots> \<le> 2 ^ 52 * 2 powi ulp_exp s" using q by (intro mult_left_mono) simp_all
  also have "\<dots> \<le> rounded s"
  proof -
    have u: "ulp_exp s = ilog2 \<bar>s\<bar> - 52" using q by (auto simp: ulp_exp_def)
    have "2 powi (ulp_exp s + 52) \<le> s" using ilog2_bounds(1) [of s] assms u by simp
    then have "of_int (2 ^ 52) \<le> s / 2 powi ulp_exp s" by (simp add: power_int_add field_simps)
    then have "2 ^ 52 \<le> round_half_even (s / 2 powi ulp_exp s)" by (rule round_half_even_ge)
    then have "of_int (2 ^ 52) * 2 powi ulp_exp s \<le> of_int (round_half_even (s / 2 powi ulp_exp s)) * (2 powi ulp_exp s :: rat)"
      by (intro mult_right_mono) (simp_all only: of_int_le_iff, simp)
    then show ?thesis using assms by (simp add: rounded_def)
  qed
  finally show ?thesis .
qed

lemma rounded_mono: "r \<le> s \<Longrightarrow> rounded r \<le> rounded s"
proof -
  assume rs: "r \<le> s"
  consider "0 < r" | "r \<le> 0" "0 \<le> s" | "s < 0" by linarith
  then show ?thesis
  proof cases
    case 1
    then show ?thesis using rs by (rule rounded_pos_mono)
  next
    case 2
    then show ?thesis using rounded_nonneg [of s] rounded_nonneg [of "- r"] by (simp add: rounded_uminus)
  next
    case 3
    then show ?thesis using rounded_pos_mono [of "- s" "- r"] rs by (simp add: rounded_uminus)
  qed
qed

lemma round64_rounded:
  "round64 r = (if rounded r = 0 then (if r < 0 then NegZero else Fin 0)
     else if overflow \<le> rounded r then PInf else if rounded r \<le> - overflow then NInf else Fin (rounded r))"
  by (simp add: round64_def rounded_def Let_def)

lemma round64_mono: "r \<le> s \<Longrightarrow> num_le (round64 r) (round64 s)"
proof -
  assume "r \<le> s"
  then have m: "rounded r \<le> rounded s" by (rule rounded_mono)
  have o: "0 < overflow" by (simp add: overflow_def)
  show ?thesis using m o unfolding round64_rounded num_le_def by (auto split: if_splits)
qed

subsection \<open>Arithmetic on a column\<close>

text \<open>
  The numeric tail of \<open>handleArithmeticComparison\<close> (comparison.ts): the column side as a non-decreasing
  function of \<open>y\<close>, the column or its negation, and the interval of the column. \<open>c\<close> is the constant.
\<close>

definition is_decreasing :: "string \<Rightarrow> bool \<Rightarrow> jsnum \<Rightarrow> bool" where
  "is_decreasing arithOp fieldIsLeft c \<longleftrightarrow>
     arithOp = ''sub'' \<and> \<not> fieldIsLeft \<or> (arithOp = ''mult'' \<or> arithOp = ''div'') \<and> num_lt c (Fin 0)"

definition column_side :: "string \<Rightarrow> bool \<Rightarrow> jsnum \<Rightarrow> jsnum \<Rightarrow> jsnum" where
  "column_side arithOp fieldIsLeft c y =
     (let decreasing = is_decreasing arithOp fieldIsLeft c in
      if arithOp = ''add'' then num_add y c
      else if arithOp = ''sub'' then (if fieldIsLeft then num_sub y c else num_add c y)
      else if arithOp = ''mult'' then (if decreasing then num_mul y (num_uminus c) else num_mul y c)
      else (if decreasing then num_div y (num_uminus c) else num_div y c))"

definition solve_column :: "string \<Rightarrow> bool \<Rightarrow> jsnum \<Rightarrow> cmp_op \<Rightarrow> jsnum \<Rightarrow> DoubleInterval option" where
  "solve_column arithOp fieldIsLeft c effectiveOperator v =
     (let solved = solveMonotone (column_side arithOp fieldIsLeft c)
            (if effectiveOperator = Ne then Eq else effectiveOperator) v
      in if is_decreasing arithOp fieldIsLeft c then map_option negateInterval solved else solved)"

lemma num_add_rounds:
  assumes "is_finite x" "is_finite c"
  shows "num_le (num_add x c) (round64 (num_val x + num_val c)) \<and> num_le (round64 (num_val x + num_val c)) (num_add x c)"
  using assms round64_mono [of "num_val x + num_val c"] by (cases x; cases c) (auto simp: num_le_def round64_def)

lemma signed_zero_rounds: "num_le (signed_zero b) (round64 0) \<and> num_le (round64 0) (signed_zero b)"
  by (simp add: signed_zero_def round64_def num_le_def)

lemma num_mul_rounds:
  assumes "is_finite x" "is_finite c"
  shows "num_le (num_mul x c) (round64 (num_val x * num_val c)) \<and> num_le (round64 (num_val x * num_val c)) (num_mul x c)"
proof (cases "is_zero x \<or> is_zero c")
  case True
  then have "num_val x * num_val c = 0" by (cases x; cases c) auto
  then show ?thesis using True assms signed_zero_rounds by (cases x; cases c) (auto simp: num_mul_def)
next
  case False
  then have "num_mul x c = round64 (num_val x * num_val c)" using assms by (cases x; cases c) (auto simp: num_mul_def)
  then show ?thesis using round64_mono [of "num_val x * num_val c"] by simp
qed

lemma num_div_rounds:
  assumes "is_finite x" "is_finite c" "\<not> is_zero c"
  shows "num_le (num_div x c) (round64 (num_val x / num_val c)) \<and> num_le (round64 (num_val x / num_val c)) (num_div x c)"
proof (cases "is_zero x")
  case True
  then have "num_val x / num_val c = 0" by (cases x) auto
  then show ?thesis using True assms signed_zero_rounds by (cases x; cases c) (auto simp: num_div_def)
next
  case False
  then have "num_div x c = round64 (num_val x / num_val c)" using assms by (cases x; cases c) (auto simp: num_div_def)
  then show ?thesis using round64_mono [of "num_val x / num_val c"] by simp
qed

lemma is_finite_uminus [simp]: "is_finite (num_uminus x) = is_finite x" "num_val (num_uminus x) = - num_val x"
  "is_zero (num_uminus x) = is_zero x" "is_nan (num_uminus x) = is_nan x"
  by (cases x; simp)+

lemma nondecreasingI:
  assumes "\<And>x. is_finite x \<Longrightarrow> num_le (f x) (round64 (g (num_val x))) \<and> num_le (round64 (g (num_val x))) (f x)"
    and "\<And>a b. a \<le> b \<Longrightarrow> g a \<le> g b"
  shows "nondecreasing f"
  unfolding nondecreasing_def
proof (intro allI impI, elim conjE)
  fix x y assume x: "is_finite x" "is_finite y" "num_le x y"
  then have "num_le (round64 (g (num_val x))) (round64 (g (num_val y)))"
    by (intro round64_mono assms(2)) (simp add: num_le_finite)
  then show "num_le (f x) (f y)" using assms(1) x(1,2) num_le_trans by blast
qed

lemma add_nondecreasing: "is_finite c \<Longrightarrow> nondecreasing (\<lambda>y. num_add y c)"
  by (rule nondecreasingI [where g = "\<lambda>a. a + num_val c"]) (simp_all add: num_add_rounds)

lemma mul_nondecreasing: "is_finite c \<Longrightarrow> 0 \<le> num_val c \<Longrightarrow> nondecreasing (\<lambda>y. num_mul y c)"
  by (rule nondecreasingI [where g = "\<lambda>a. a * num_val c"]) (simp_all add: num_mul_rounds mult_right_mono)

lemma div_nondecreasing: "is_finite c \<Longrightarrow> \<not> is_zero c \<Longrightarrow> 0 \<le> num_val c \<Longrightarrow> nondecreasing (\<lambda>y. num_div y c)"
  by (rule nondecreasingI [where g = "\<lambda>a. a / num_val c"]) (simp_all add: num_div_rounds divide_right_mono)

lemma negative_num: "is_finite c \<Longrightarrow> num_lt c (Fin 0) \<longleftrightarrow> num_val c < 0"
  by (cases c) auto

lemma column_side_nondecreasing:
  assumes op: "arithOp \<in> set ARITHMETIC_OPERATORS" and c: "is_finite c" and nz: "arithOp = ''div'' \<Longrightarrow> \<not> is_zero c"
  shows "nondecreasing (column_side arithOp fieldIsLeft c)"
proof -
  consider "arithOp = ''add''" | "arithOp = ''sub''" | "arithOp = ''mult''" | "arithOp = ''div''"
    using op by (auto simp: ARITHMETIC_OPERATORS_def)
  then show ?thesis
  proof cases
    case 1
    then have "column_side arithOp fieldIsLeft c = (\<lambda>y. num_add y c)" by (simp add: column_side_def fun_eq_iff)
    then show ?thesis using add_nondecreasing [OF c] by simp
  next
    case 2
    then have "column_side arithOp fieldIsLeft c = (\<lambda>y. num_add y (if fieldIsLeft then num_uminus c else c))"
      by (simp add: column_side_def fun_eq_iff num_sub_def num_add_commute)
    then show ?thesis using add_nondecreasing [of "if fieldIsLeft then num_uminus c else c"] c by (simp split: if_splits)
  next
    case 3
    then have "column_side arithOp fieldIsLeft c = (\<lambda>y. num_mul y (if num_val c < 0 then num_uminus c else c))"
      using c by (simp add: column_side_def fun_eq_iff is_decreasing_def negative_num)
    then show ?thesis using mul_nondecreasing [of "if num_val c < 0 then num_uminus c else c"] c by (simp split: if_splits)
  next
    case 4
    then have "column_side arithOp fieldIsLeft c = (\<lambda>y. num_div y (if num_val c < 0 then num_uminus c else c))"
      using c by (simp add: column_side_def fun_eq_iff is_decreasing_def negative_num)
    then show ?thesis using div_nondecreasing [of "if num_val c < 0 then num_uminus c else c"] c nz 4 by (simp split: if_splits)
  qed
qed

text \<open>Negating the column and its constant changes neither product nor quotient.\<close>

lemma num_negative_uminus: "is_nan a \<or> num_negative (num_uminus a) = (\<not> num_negative a)"
  by (cases a) auto

lemma num_mul_uminus: "num_mul (num_uminus a) (num_uminus b) = num_mul a b"
  using num_negative_uminus [of a] num_negative_uminus [of b] by (auto simp: num_mul_def Let_def)

lemma num_div_uminus: "num_div (num_uminus a) (num_uminus b) = num_div a b"
  using num_negative_uminus [of a] num_negative_uminus [of b] by (auto simp: num_div_def Let_def)

lemma num_mul_commute: "num_mul a b = num_mul b a"
  by (cases "num_negative a"; cases "num_negative b") (auto simp: num_mul_def mult.commute)

lemma num_le_uminus: "num_le (num_uminus a) b \<longleftrightarrow> num_le (num_uminus b) a"
  by (cases a; cases b) (auto simp: num_le_def)

lemma num_le_uminus2: "num_le a (num_uminus b) \<longleftrightarrow> num_le b (num_uminus a)"
  by (cases a; cases b) (auto simp: num_le_def)

lemma in_negateInterval: "in_interval (negateInterval i) x = in_interval i (num_uminus x)"
proof (cases i)
  case (Bounds l h)
  have "num_le (num_uminus b) x = num_le (num_uminus x) b" "num_le x (num_uminus b) = num_le b (num_uminus x)" for b
    by (rule num_le_uminus num_le_uminus2)+
  then show ?thesis by (auto simp: Bounds split: option.splits)
qed simp

text \<open>The value of the arithmetic at a column.\<close>

definition arithmetic_at :: "string \<Rightarrow> bool \<Rightarrow> jsnum \<Rightarrow> jsnum \<Rightarrow> jsnum" where
  "arithmetic_at arithOp fieldIsLeft c x =
     (case number_op arithOp of Some f \<Rightarrow> if fieldIsLeft then f x c else f c x | None \<Rightarrow> NaN)"

lemma column_side_at:
  assumes "arithOp \<in> set ARITHMETIC_OPERATORS" "arithOp = ''div'' \<Longrightarrow> fieldIsLeft"
  shows "column_side arithOp fieldIsLeft c (if is_decreasing arithOp fieldIsLeft c then num_uminus x else x) =
    arithmetic_at arithOp fieldIsLeft c x"
  using assms
proof -
  have ops: "number_op ''add'' = Some num_add" "number_op ''sub'' = Some num_sub" "number_op ''mult'' = Some num_mul"
    "number_op ''div'' = Some num_div" by (simp_all add: number_op_def)
  consider "arithOp = ''add''" | "arithOp = ''sub''" | "arithOp = ''mult''" | "arithOp = ''div''" "fieldIsLeft"
    using assms by (auto simp: ARITHMETIC_OPERATORS_def)
  then show ?thesis
  proof cases
    case 1
    then show ?thesis by (simp add: column_side_def is_decreasing_def arithmetic_at_def ops num_add_commute)
  next
    case 2
    then show ?thesis by (simp add: column_side_def is_decreasing_def arithmetic_at_def ops num_sub_def)
  next
    case 3
    then show ?thesis by (simp add: column_side_def is_decreasing_def arithmetic_at_def ops num_mul_uminus num_mul_commute)
  next
    case 4
    then show ?thesis by (simp add: column_side_def is_decreasing_def arithmetic_at_def ops num_div_uminus)
  qed
qed

lemma solve_column_exact:
  assumes op: "arithOp \<in> set ARITHMETIC_OPERATORS" "arithOp = ''div'' \<Longrightarrow> fieldIsLeft \<and> \<not> is_zero c"
    and c: "is_finite c" and v: "\<not> is_nan v" and x: "wf_num x" "is_finite x"
  shows "\<exists>i. solve_column arithOp fieldIsLeft c cmp v = Some i \<and>
    compareValues cmp (VNum (arithmetic_at arithOp fieldIsLeft c x)) (VNum v) = VBool (in_interval i x \<noteq> (cmp = Ne))"
proof -
  define d y where "d = is_decreasing arithOp fieldIsLeft c" and "y = (if d then num_uminus x else x)"
  have y: "wf_num y" "is_finite y" using x by (simp_all add: y_def wf_num_uminus)
  have at: "column_side arithOp fieldIsLeft c y = arithmetic_at arithOp fieldIsLeft c x"
    using column_side_at [of arithOp fieldIsLeft c x] op by (simp add: y_def d_def)
  have mono: "nondecreasing (column_side arithOp fieldIsLeft c)" by (rule column_side_nondecreasing) (use op c in auto)
  define e where "e = (if cmp = Ne then Eq else cmp)"
  have "e \<noteq> Ne" by (simp add: e_def)
  then obtain i where i: "solveMonotone (column_side arithOp fieldIsLeft c) e v = Some i"
    "compareValues e (VNum (arithmetic_at arithOp fieldIsLeft c x)) (VNum v) = VBool (in_interval i y)"
    using solve_exact [OF mono v _ y, of e] at by auto
  have "in_interval (if d then negateInterval i else i) x = in_interval i y" by (simp add: y_def in_negateInterval)
  moreover have "solve_column arithOp fieldIsLeft c cmp v = Some (if d then negateInterval i else i)"
    by (simp add: solve_column_def e_def [symmetric] i(1) d_def [symmetric])
  moreover have "compareValues cmp (VNum (arithmetic_at arithOp fieldIsLeft c x)) (VNum v) = VBool (in_interval i y \<noteq> (cmp = Ne))"
    using i(2) by (auto simp: e_def compareValues_def isEvaluationError_def split: if_splits)
  ultimately show ?thesis by auto
qed

subsection \<open>Property\<close>

lemma cel_binary:
  assumes "op \<notin> set macro_names" "op \<notin> {''and'', ''or'', ''not'', ''if'', ''list'', ''struct'', ''size''}"
    and "cel fn attr env a = v" "cel fn attr env b = w" "v \<noteq> VError" "w \<noteq> VError" "binary_value op v w = Some u"
  shows "cel fn attr env (Expression op [a, b]) = u"
  using assms by (simp add: lambda_parts_def operator_value_def strict_value_def)

lemma cel_comparison:
  assumes "comparison_of op = Some cmp" "cel fn attr env a = v" "cel fn attr env b = w" "v \<noteq> VError" "w \<noteq> VError"
  shows "cel fn attr env (Expression op [a, b]) = compare_cel cmp v w"
  by (rule cel_binary [OF _ _ assms(2-5)])
    (use assms(1) in \<open>auto simp: binary_value_def comparison_of.simps macro_names_def split: if_splits\<close>)

lemma cel_arithmetic:
  assumes "arithOp \<in> set ARITHMETIC_OPERATORS" "number_op arithOp = Some f" "cel fn attr env a = VNum x" "cel fn attr env b = VNum y"
  shows "cel fn attr env (Expression arithOp [a, b]) = VNum (f x y)"
proof -
  consider "arithOp = ''add''" | "arithOp = ''sub''" | "arithOp = ''mult''" | "arithOp = ''div''"
    using assms(1) by (auto simp: ARITHMETIC_OPERATORS_def)
  then have "binary_value arithOp (VNum x) (VNum y) = Some (VNum (f x y)) \<and> arithOp \<notin> set macro_names \<and>
      arithOp \<notin> {''and'', ''or'', ''not'', ''if'', ''list'', ''struct'', ''size''}"
    by cases (use assms(2) in \<open>simp_all add: binary_value_def comparison_of.simps string_test_def number_op_def
      add_values_def macro_names_def\<close>)
  then show ?thesis by (intro cel_binary [OF _ _ assms(3,4)]) auto
qed

text \<open>The arithmetic in its source order.\<close>

definition arithmetic_operand :: "string \<Rightarrow> bool \<Rightarrow> jsnum \<Rightarrow> jstring \<Rightarrow> operand" where
  "arithmetic_operand arithOp fieldIsLeft c n =
     Expression arithOp (if fieldIsLeft then [Variable n, Value (VNum c)] else [Value (VNum c), Variable n])"



end
