(* ===== verification/Prisma_Expand.thy ===== *)
theory Prisma_Expand
  imports Prisma_Literals Prisma_Solve
begin

text \<open>
  \<open>expandLiteralCollections\<close> keeps the CEL value of a plan: macros over a literal list are the connectives of
  their bodies, and counts over one are membership tests.
\<close>

subsection \<open>Well-formed plans\<close>

text \<open>A struct literal's fields have constant, distinct keys.\<close>

fun field_key :: "operand \<Rightarrow> jstring option" where
  "field_key (Expression l [Value (VStr k), v]) = (if l = ''set-field'' then Some k else None)"
| "field_key _ = None"

definition struct_shape :: "operand list \<Rightarrow> bool" where
  "struct_shape args \<longleftrightarrow>
     None \<notin> set (map field_key args) \<and> distinct (map field_key args) \<and> Some (js ''__proto__'') \<notin> set (map field_key args)"

text \<open>Lambdas are the second operand of a macro and bind an identifier, which has no dot.\<close>

fun wellformed :: "operand \<Rightarrow> bool" where
  "wellformed (Value v) = plan_value v"
| "wellformed (Expression op args) =
     (case lambda_parts op args of
        Some (c, body, x) \<Rightarrow> wellformed c \<and> wellformed body \<and> dot \<notin> set x
      | None \<Rightarrow> op \<noteq> ''lambda'' \<and> list_all wellformed args \<and> (op = ''struct'' \<longrightarrow> struct_shape args))"
| "wellformed _ = True"

lemma wellformed_no_lambda: "wellformed e \<Longrightarrow> no_lambda e"
  by (cases e) (auto split: option.splits simp: macro_names_def lambda_parts_def)

lemma field_keyD: "field_key f = Some k \<Longrightarrow> \<exists>v. f = Expression ''set-field'' [Value (VStr k), v]"
  by (cases f rule: field_key.cases) (auto split: if_splits)

lemma set_field_parts [simp]: "lambda_parts ''set-field'' args = None" "lambda_parts ''struct'' args = None"
    "lambda_parts ''list'' args = None" "lambda_parts ''size'' args = None" "lambda_parts ''in'' args = None"
    "lambda_parts ''or'' args = None" "lambda_parts ''and'' args = None" "lambda_parts ''not'' args = None"
    "lambda_parts ''eq'' args = None" "lambda_parts ''ne'' args = None" "lambda_parts ''lambda'' args = None"
  by (simp_all add: lambda_parts_def macro_names_def)

subsection \<open>Literals\<close>

lemma those_Some: "those xs = Some ys \<longleftrightarrow> xs = map Some ys"
  by (induction xs arbitrary: ys) (auto split: option.splits)

lemma those_map: "those (map f xs) = Some ys \<longleftrightarrow> list_all2 (\<lambda>x y. f x = Some y) xs ys"
  by (auto simp: those_Some list_all2_conv_all_nth list_eq_iff_nth_eq)

lemma strict_list: "VError \<notin> set vs \<Longrightarrow> operator_value fn ''list'' vs = VArr vs"
  by (simp add: operator_value_def strict_value_def)

lemma set_field_value: "v \<noteq> VError \<Longrightarrow> operator_value fn ''set-field'' [VStr k, v] = VObj [(k, v)]"
  by (simp add: operator_value_def strict_value_def binary_value_def comparison_of.simps string_test_def number_op_def)

lemma struct_value_fields:
  "distinct (map fst fs) \<Longrightarrow> js ''__proto__'' \<notin> fst ` set fs \<Longrightarrow> fst ` set fs \<inter> fst ` set acc = {} \<Longrightarrow>
     struct_value acc (map (\<lambda>kv. VObj [kv]) fs) = VObj (foldl assign_field acc fs)"
proof (induction fs arbitrary: acc)
  case (Cons kv fs)
  obtain k v where kv: "kv = (k, v)" by (cases kv)
  have k: "k \<notin> fst ` set acc" "k \<noteq> js ''__proto__''" using Cons.prems by (auto simp: kv)
  then have "assign_field acc kv = add_property k v acc" by (simp add: assign_field_def kv)
  moreover have "fst ` set fs \<inter> fst ` set (add_property k v acc) = {}" using Cons.prems by (auto simp: kv)
  ultimately show ?case using Cons.IH [of "add_property k v acc"] Cons.prems k by (simp add: kv)
qed simp

lemma assign_fields_plan:
  "distinct (map fst fs) \<Longrightarrow> js ''__proto__'' \<notin> fst ` set fs \<Longrightarrow> fst ` set fs \<inter> fst ` set acc = {} \<Longrightarrow>
     plan_value (VObj acc) \<Longrightarrow> \<forall>kv \<in> set fs. plan_value (snd kv) \<Longrightarrow> plan_value (VObj (foldl assign_field acc fs))"
proof (induction fs arbitrary: acc)
  case (Cons kv fs)
  obtain k v where kv: "kv = (k, v)" by (cases kv)
  have k: "k \<notin> fst ` set acc" "k \<noteq> js ''__proto__''" using Cons.prems by (auto simp: kv)
  then have a: "assign_field acc kv = add_property k v acc" by (simp add: assign_field_def kv)
  have "plan_value (VObj (add_property k v acc))"
    using Cons.prems k by (auto simp: kv list_all_iff intro: distinct_add_property)
  moreover have "fst ` set fs \<inter> fst ` set (add_property k v acc) = {}" using Cons.prems by (auto simp: kv)
  ultimately show ?case using Cons.IH [of "add_property k v acc"] Cons.prems by (simp add: kv a [unfolded kv])
qed simp

lemma struct_fields_value:
  assumes "list_all2 (\<lambda>a kv. field_key a = Some (fst kv) \<and> cel fn attr env a = VObj [kv] \<and> plan_value (snd kv)) args fs"
    and "struct_shape args"
  shows "operator_value fn ''struct'' (map (cel fn attr env) args) = VObj (foldl assign_field [] fs) \<and>
    plan_value (VObj (foldl assign_field [] fs))"
proof -
  have keys: "map field_key args = map (\<lambda>kv. Some (fst kv)) fs" "map (cel fn attr env) args = map (\<lambda>kv. VObj [kv]) fs"
    "\<forall>kv \<in> set fs. plan_value (snd kv)"
    using assms(1) by (induction rule: list_all2_induct) auto
  have d: "distinct (map fst fs)" "js ''__proto__'' \<notin> fst ` set fs"
    using assms(2) keys(1) by (auto simp: struct_shape_def distinct_map inj_on_def) 
  have "VError \<notin> set (map (cel fn attr env) args)" using keys(2) by auto
  then have "operator_value fn ''struct'' (map (cel fn attr env) args) = struct_value [] (map (\<lambda>kv. VObj [kv]) fs)"
    using keys(2) by (simp add: operator_value_def strict_value_def)
  then show ?thesis using struct_value_fields [OF d] assign_fields_plan [OF d, of "[]"] keys(3) by simp
qed

lemma literal_value:
  "literalList e = Some xs \<Longrightarrow> wellformed e \<Longrightarrow> cel fn attr env e = VArr xs \<and> plan_value (VArr xs)"
  "literalValue e = Some v \<Longrightarrow> wellformed e \<Longrightarrow> cel fn attr env e = v \<and> plan_value v"
proof (induction e and e arbitrary: xs and v rule: literalList_literalValue.induct)
  case (2 op args)
  have op: "op = ''list''" and vs: "list_all2 (\<lambda>a v. literalValue a = Some v) args xs"
    using 2(2) by (auto simp: those_map split: if_splits)
  have wf: "\<forall>a \<in> set args. wellformed a" using 2(3) by (simp add: op list_all_iff)
  have "list_all2 (\<lambda>a v. cel fn attr env a = v \<and> plan_value v) args xs"
    by (rule list.rel_mono_strong [OF vs]) (use 2(1) [OF op] wf in blast)
  then have "map (cel fn attr env) args = xs \<and> list_all plan_value xs"
    by (induction rule: list_all2_induct) auto
  moreover have "VError \<notin> set xs" using calculation by (auto simp: list_all_iff)
  ultimately show ?case by (simp add: op strict_list)
next
  case (6 op args)
  show ?case
  proof (cases "op = ''list''")
    case True
    then show ?thesis using 6(1,3,4) by auto
  next
    case False
    then have op: "op = ''struct''" using 6(3) by (simp split: if_splits)
    define field where "field = (\<lambda>field. case field of
                Expression l [key, val] \<Rightarrow>
                  (case (literalValue val, key) of
                     (Some literal, Value (VStr k)) \<Rightarrow> if l = ''set-field'' then Some (k, literal) else None
                   | _ \<Rightarrow> None)
              | _ \<Rightarrow> None)"
    have "literalValue (Expression op args) = map_option (\<lambda>fs. VObj (foldl assign_field [] fs)) (those (map field args))"
      unfolding field_def op by (subst literalValue.simps(2)) (simp only: refl if_False not_True_eq_False list.inject char.inject simp_thms if_True HOL.simp_thms list.distinct)
    then obtain fs where fs: "list_all2 (\<lambda>a kv. field a = Some kv) args fs" and v: "v = VObj (foldl assign_field [] fs)"
      using 6(3) by (auto simp: those_map)
    have wf: "\<forall>a \<in> set args. wellformed a" "struct_shape args" using 6(4) by (simp_all add: op list_all_iff)
    have "list_all2 (\<lambda>a kv. field_key a = Some (fst kv) \<and> cel fn attr env a = VObj [kv] \<and> plan_value (snd kv)) args fs"
    proof (rule list.rel_mono_strong [OF fs])
      fix a kv assume a: "a \<in> set args" "field a = Some kv"
      have "field_key a \<noteq> None" using wf(2) a(1) by (force simp: struct_shape_def)
      then obtain k val where av: "a = Expression ''set-field'' [Value (VStr k), val]" using field_keyD by fastforce
      then obtain lit where lit: "literalValue val = Some lit" "kv = (k, lit)"
        using a(2) by (auto simp: field_def split: option.splits)
      have "wellformed val" using wf(1) a(1) av by fastforce
      then have "cel fn attr env val = lit \<and> plan_value lit"
        using 6(2) [OF False _ a(1) av refl refl] op lit(1) by auto
      then show "field_key a = Some (fst kv) \<and> cel fn attr env a = VObj [kv] \<and> plan_value (snd kv)"
        by (auto simp: av lit(2) set_field_value)
    qed
    then show ?thesis using struct_fields_value [OF _ wf(2)] by (simp add: v op)
  qed
qed (auto split: jsval.splits)


subsection \<open>Rows on which a plan is well-typed\<close>

text \<open>
  Bodies of quantifiers are booleans or errors, and the list \<open>except\<close> subtracts from is not a map. A
  missing collection, an error in a body or an operand are all allowed.
\<close>

fun subtractable :: "jsval \<Rightarrow> bool" where
  "subtractable (VObj _) = False"
| "subtractable (VArr xs) = (VError \<notin> set xs)"
| "subtractable _ = True"

fun typed :: "(string \<Rightarrow> jsval list \<Rightarrow> jsval) \<Rightarrow> (jstring \<Rightarrow> jsval) \<Rightarrow> env \<Rightarrow> operand \<Rightarrow> bool" where
  "typed fn attr env (Expression op args) =
     (case lambda_parts op args of
        Some (c, body, x) \<Rightarrow>
          typed fn attr env c \<and>
          (case items (cel fn attr env c) of
             None \<Rightarrow> True
           | Some xs \<Rightarrow>
               list_all (\<lambda>item. typed fn attr ((x, item) # env) body \<and>
                  (op = ''exists'' \<or> op = ''all'' \<longrightarrow> boolean_or_error (cel fn attr ((x, item) # env) body))) xs)
      | None \<Rightarrow>
          list_all (typed fn attr env) args \<and>
          (op = ''except'' \<longrightarrow> (case map (cel fn attr env) args of v # _ \<Rightarrow> subtractable v | _ \<Rightarrow> True)))"
| "typed fn attr env e = True"

lemma typed_macro:
  "op \<in> set macro_names \<Longrightarrow> typed fn attr env (Expression op [c, Expression ''lambda'' [body, Variable x]]) \<longleftrightarrow>
     typed fn attr env c \<and> (\<forall>xs. items (cel fn attr env c) = Some xs \<longrightarrow>
       (\<forall>item \<in> set xs. typed fn attr ((x, item) # env) body \<and>
          (op = ''exists'' \<or> op = ''all'' \<longrightarrow> boolean_or_error (cel fn attr ((x, item) # env) body))))"
  by (auto simp: list_all_iff split: option.splits)

lemma typed_plain:
  "lambda_parts op args = None \<Longrightarrow> typed fn attr env (Expression op args) \<longleftrightarrow>
     (\<forall>a \<in> set args. typed fn attr env a) \<and>
     (op = ''except'' \<longrightarrow> (case map (cel fn attr env) args of v # _ \<Rightarrow> subtractable v | _ \<Rightarrow> True))"
  by (auto simp: list_all_iff)

lemma typed_cong:
  "(\<And>n. n \<in> set (names_in e) \<Longrightarrow> look attr env n = look attr env' n) \<Longrightarrow> typed fn attr env e = typed fn attr env' e"
proof (induction "size e" arbitrary: e env env' rule: less_induct)
  case less
  show ?case
  proof (cases e)
    case (Expression op args)
    show ?thesis
    proof (cases rule: lambda_parts_cases [of op args])
      case (macro c body x)
      have n: "look attr env m = look attr env' m" if "m \<in> set (names_in c) \<or> m \<in> set (names_in body)" for m
        using less(2) that by (auto simp: Expression macro(2))
      have "cel fn attr env c = cel fn attr env' c" by (rule cel_cong) (use n in auto)
      moreover have "typed fn attr env c = typed fn attr env' c"
        by (rule less(1)) (use n in \<open>auto simp: Expression macro(2)\<close>)
      moreover have "typed fn attr ((x, i) # env) body = typed fn attr ((x, i) # env') body" for i
        by (rule less(1)) (use n in \<open>auto simp: Expression macro(2)\<close>)
      moreover have "cel fn attr ((x, i) # env) body = cel fn attr ((x, i) # env') body" for i
        by (rule cel_cong) (use n in auto)
      ultimately show ?thesis by (simp only: Expression macro(2) typed_macro [OF macro(3)])
    next
      case plain
      have n: "look attr env m = look attr env' m" if "a \<in> set args" "m \<in> set (names_in a)" for a m
        using less(2) that by (auto simp: Expression)
      have "typed fn attr env a = typed fn attr env' a" if a: "a \<in> set args" for a
        by (rule less(1)) (use n a size_operand_member [OF a, of op] in \<open>auto simp: Expression\<close>)
      moreover have "map (cel fn attr env) args = map (cel fn attr env') args"
        by (rule map_cong [OF refl], rule cel_cong) (use n in auto)
      ultimately show ?thesis by (simp only: Expression typed_plain [OF plain] cong: ball_cong)
    qed
  qed auto
qed

lemma typed_unmentioned: "\<not> mentionsVariable e x \<Longrightarrow> typed fn attr ((x, item) # env) e = typed fn attr env e"
proof (rule typed_cong)
  fix n assume "\<not> mentionsVariable e x" "n \<in> set (names_in e)"
  then have "\<not> covers x n"
    by (induction e) (auto simp: covers_def list_ex_iff)
  then show "look attr ((x, item) # env) n = look attr env n" by (rule look_cons_other)
qed

subsection \<open>Substituting an element\<close>

lemma drill_value: "drill v path = Inr w \<Longrightarrow> read_parts v path = w"
  by (induction v path rule: drill.induct) (auto split: jsval.splits option.splits)

lemma drill_plan: "drill v path = Inr w \<Longrightarrow> plan_value v \<Longrightarrow> plan_value w"
proof (induction v path rule: drill.induct)
  case (2 current segment segments)
  then obtain kvs v where v: "current = VObj kvs" "map_of kvs segment = Some v" "drill v segments = Inr w"
    by (auto split: jsval.splits option.splits)
  then have "plan_value v" using 2(3) map_of_SomeD [OF v(2)] by (fastforce simp: list_all_iff)
  then show ?case using 2(1) [OF v(1,2,3)] by blast
qed simp

lemma covers_root: "covers x n \<Longrightarrow> dot \<notin> set x \<Longrightarrow> takeWhile (\<lambda>c. c \<noteq> dot) n = x"
proof -
  assume "covers x n" "dot \<notin> set x"
  then consider "n = x" | t where "n = x @ dot # t"
    by (auto simp: covers_def startsWith_def prefix_def)
  moreover have "takeWhile (\<lambda>c. c \<noteq> dot) (x @ dot # t) = x" for t
    using \<open>dot \<notin> set x\<close> by (subst takeWhile_append2) auto
  ultimately show ?thesis using \<open>dot \<notin> set x\<close> by cases (auto simp: takeWhile_eq_all_conv)
qed

lemma look_element:
  assumes "dot \<notin> set x" "\<forall>y \<in> fst ` set env1. dot \<notin> set y \<and> y \<noteq> x"
  shows "look attr (env1 @ (x, v) # env) n =
    (if n = x then v else if covers x n then read_parts v (path_after x n) else look attr (env1 @ env) n)"
  using assms(2)
proof (induction env1)
  case (Cons yi env1)
  obtain y i where yi: "yi = (y, i)" by (cases yi)
  have "\<not> (covers x n \<and> covers y n)" using covers_root [of x n] covers_root [of y n] assms(1) Cons.prems by (auto simp: yi)
  moreover have "covers n n" by simp
  ultimately show ?case using Cons by (auto simp: yi)
qed (use covers_refl [of x] in auto)

lemma look_shadowed:
  "look attr ((x, i) # env1 @ (x, v) # env) n = look attr ((x, i) # env1 @ env) n"
proof (cases "covers x n")
  case False
  then have "look attr (env1 @ (x, v) # env) n = look attr (env1 @ env) n"
    by (induction env1) (use covers_refl [of n] in auto)
  then show ?thesis by simp
qed auto

lemma binding_names: "op \<in> set macro_names \<longleftrightarrow> op \<in> set LAMBDA_BINDING_OPERATORS"
  by (auto simp: macro_names_def LAMBDA_BINDING_OPERATORS_def COLLECTION_OPERATORS_def)

lemma starts_has_dot: "startsWith n (x @ [dot]) \<Longrightarrow> dot \<in> set n"
  by (auto simp: startsWith_def prefix_def)

lemma field_key_substitute:
  "field_key a = Some k \<Longrightarrow> substituteLambdaVariable a x el = Inr a' \<Longrightarrow> field_key a' = Some k"
  by (drule field_keyD)
    (auto simp: shadowing_def LAMBDA_BINDING_OPERATORS_def COLLECTION_OPERATORS_def bindE_eq_Inr)

lemma struct_shape_related:
  assumes "list_all2 (\<lambda>a a'. \<forall>k. field_key a = Some k \<longrightarrow> field_key a' = Some k) args args'" "struct_shape args"
  shows "struct_shape args'"
proof -
  have "None \<notin> set (map field_key args)" using assms(2) by (simp add: struct_shape_def)
  with assms(1) have "map field_key args' = map field_key args"
  proof (induction rule: list_all2_induct)
    case (Cons a as b bs)
    then show ?case by (cases "field_key a") auto
  qed simp
  then show ?thesis using assms(2) by (simp add: struct_shape_def)
qed

lemma plain_no_lambda:
  "\<forall>a \<in> set args. no_lambda a \<Longrightarrow> lambda_parts op args = None"
  by (cases "lambda_parts op args") (auto dest!: lambda_partsD)

lemma substitute_cel:
  assumes "wellformed e" "dot \<notin> set x" "\<forall>y \<in> fst ` set env1. dot \<notin> set y \<and> y \<noteq> x" "plan_value el"
    "substituteLambdaVariable e x el = Inr e'"
  shows "wellformed e' \<and> cel fn attr (env1 @ env) e' = cel fn attr (env1 @ (x, el) # env) e \<and>
    typed fn attr (env1 @ env) e' = typed fn attr (env1 @ (x, el) # env) e"
  using assms(1,3,5)
proof (induction "size e" arbitrary: e e' env1 rule: less_induct)
  case less
  show ?case
  proof (cases e)
    case (Variable n)
    consider "n = x" | "n \<noteq> x" "startsWith n (x @ [dot])" | "\<not> covers x n" by (auto simp: covers_def)
    then show ?thesis
    proof cases
      case 2
      then obtain v where "drill el (path_after x n) = Inr v" "e' = Value v"
        using less(4) by (auto simp: Variable bindE_eq_Inr path_after_def)
      then show ?thesis using 2 drill_value drill_plan [OF _ assms(4)]
        by (auto simp: Variable look_element [OF assms(2) less(3)] covers_def)
    next
      case 3
      then show ?thesis using less(4) by (auto simp: Variable look_element [OF assms(2) less(3)] covers_def)
    next
      case 1
      then have "e' = Value el" using less(4) by (simp add: Variable)
      then show ?thesis using assms(4) 1 by (simp add: Variable look_element [OF assms(2) less(3)])
    qed
  next
    case (Expression op args)
    show ?thesis
    proof (cases rule: lambda_parts_cases [of op args])
      case (macro c body y)
      have wf: "wellformed c" "wellformed body" "dot \<notin> set y" using less(2) macro(1) by (simp_all add: Expression)
      have sub: "wellformed c' \<and> cel fn attr (env1 @ env) c' = cel fn attr (env1 @ (x, el) # env) c \<and>
          typed fn attr (env1 @ env) c' = typed fn attr (env1 @ (x, el) # env) c"
        if "substituteLambdaVariable c x el = Inr c'" for c'
        by (rule less(1)) (use wf less(3) that in \<open>simp_all add: Expression macro(2)\<close>)
      show ?thesis
      proof (cases "y = x")
        case True
        then have "shadowing op args x" using macro(3) by (simp add: shadowing_def macro(2) binding_names)
        then obtain c' where c': "substituteLambdaVariable c x el = Inr c'"
          and e': "e' = Expression op [c', Expression ''lambda'' [body, Variable x]]"
          using less(4) True by (auto simp: Expression macro(2) bindE_eq_Inr)
        have "cel fn attr ((x, i) # env1 @ env) body = cel fn attr ((x, i) # env1 @ (x, el) # env) body" for i
          by (rule cel_cong) (simp only: look_shadowed)
        moreover have "typed fn attr ((x, i) # env1 @ env) body = typed fn attr ((x, i) # env1 @ (x, el) # env) body" for i
          by (rule typed_cong) (simp only: look_shadowed)
        ultimately show ?thesis using sub [OF c'] wf True macro(1,3)
          by (simp add: e' Expression macro(2) typed_macro [OF macro(3)] del: typed.simps(1))
      next
        case False
        then have ns: "\<not> shadowing op args x" "\<not> shadowing ''lambda'' ps x" for ps
          by (auto simp: shadowing_def macro(2) LAMBDA_BINDING_OPERATORS_def COLLECTION_OPERATORS_def)
        have "\<not> startsWith y (x @ [dot])" using wf(3) starts_has_dot by blast
        then obtain c' body' where c': "substituteLambdaVariable c x el = Inr c'"
          and body': "substituteLambdaVariable body x el = Inr body'"
          and e': "e' = Expression op [c', Expression ''lambda'' [body', Variable y]]"
          using less(4) False ns by (auto simp: Expression macro(2) bindE_eq_Inr simp del: substituteLambdaVariable.simps(2))
             (auto simp: bindE_eq_Inr)
        have "wellformed body' \<and> cel fn attr (((y, i) # env1) @ env) body' = cel fn attr (((y, i) # env1) @ (x, el) # env) body \<and>
            typed fn attr (((y, i) # env1) @ env) body' = typed fn attr (((y, i) # env1) @ (x, el) # env) body" for i
          by (rule less(1)) (use wf less(3) body' False in \<open>simp_all add: Expression macro(2)\<close>)
        then show ?thesis using sub [OF c'] wf(3) macro(1,3)
          by (simp add: e' Expression macro(2) typed_macro [OF macro(3)] del: typed.simps(1))
      qed
    next
      case plain
      have wf: "op \<noteq> ''lambda''" "\<forall>a \<in> set args. wellformed a" "op = ''struct'' \<longrightarrow> struct_shape args"
        using less(2) plain by (simp_all add: Expression list_all_iff)
      have "\<not> shadowing op args x"
      proof
        assume "shadowing op args x"
        then obtain c ps where "args = [c, Expression ''lambda'' ps]" by (auto dest: shadowingD)
        then show False using wf(2) wellformed_no_lambda by fastforce
      qed
      then obtain args' where m: "mapE (\<lambda>a. substituteLambdaVariable a x el) args = Inr args'" and e': "e' = Expression op args'"
        using less(4) by (auto simp: Expression bindE_eq_Inr)
      have "list_all2 (\<lambda>a a'. (wellformed a' \<and> cel fn attr (env1 @ env) a' = cel fn attr (env1 @ (x, el) # env) a \<and>
          typed fn attr (env1 @ env) a' = typed fn attr (env1 @ (x, el) # env) a) \<and>
          (\<forall>k. field_key a = Some k \<longrightarrow> field_key a' = Some k)) args args'"
        using m unfolding mapE_ok_iff
      proof (rule list.rel_mono_strong, intro conjI)
        fix a a' assume a: "a \<in> set args" "substituteLambdaVariable a x el = Inr a'"
        have "wellformed a' \<and> cel fn attr (env1 @ env) a' = cel fn attr (env1 @ (x, el) # env) a \<and>
            typed fn attr (env1 @ env) a' = typed fn attr (env1 @ (x, el) # env) a"
          by (rule less(1)) (use wf(2) less(3) a size_operand_member [OF a(1), of op] in \<open>simp_all add: Expression\<close>)
        then show "wellformed a'" "cel fn attr (env1 @ env) a' = cel fn attr (env1 @ (x, el) # env) a"
          "typed fn attr (env1 @ env) a' = typed fn attr (env1 @ (x, el) # env) a" by blast+
        show "\<forall>k. field_key a = Some k \<longrightarrow> field_key a' = Some k" using field_key_substitute a(2) by blast
      qed
      then have vals: "map (cel fn attr (env1 @ env)) args' = map (cel fn attr (env1 @ (x, el) # env)) args"
        and wf': "list_all wellformed args'"
        and ty: "(\<forall>a \<in> set args'. typed fn attr (env1 @ env) a) = (\<forall>a \<in> set args. typed fn attr (env1 @ (x, el) # env) a)"
        and keys: "list_all2 (\<lambda>a a'. \<forall>k. field_key a = Some k \<longrightarrow> field_key a' = Some k) args args'"
        by (induction rule: list_all2_induct) auto
      have "lambda_parts op args' = None" by (rule plain_no_lambda) (use wf' wellformed_no_lambda in \<open>auto simp: list_all_iff\<close>)
      then show ?thesis using plain wf wf' vals ty struct_shape_related [OF keys]
        by (simp add: e' Expression typed_plain del: typed.simps(1))
    qed
  qed (use less(4) less(2) in auto)
qed


subsection \<open>Quantifiers over a literal list\<close>

lemma junction_of_bodies:
  assumes "list_all2 (\<lambda>el a. cel fn attr env a = f el) xs args" "op = ''exists'' \<or> op = ''all''" "xs \<noteq> []"
    and "\<And>el. el \<in> set xs \<Longrightarrow> boolean_or_error (f el)"
  shows "cel fn attr env (if length args = 1 then hd args
      else Expression (if op = ''exists'' then ''or'' else ''and'') args) = macro_value op (VArr xs) f"
proof -
  have v: "map (\<lambda>a. verdict (cel fn attr env a)) args = map (\<lambda>el. verdict (f el)) xs"
    using assms(1) by (induction rule: list_all2_induct) auto
  show ?thesis
  proof (cases "length args = 1")
    case True
    then obtain a where a: "args = [a]" by (auto simp: length_Suc_conv)
    then obtain el where el: "xs = [el]" "cel fn attr env a = f el" using assms(1) by (auto simp: list_all2_Cons2)
    then show ?thesis using assms(2,4) by (auto simp: a macro_value_def of_truth_verdict)
  qed (use assms(2) v in \<open>auto simp: cel_and cel_or macro_value_def simp del: cel.simps(4)\<close>)
qed

subsection \<open>Counting\<close>

lemma scalar_valuesEqual: "plan_value v \<Longrightarrow> is_scalar v \<Longrightarrow> valuesEqual v w = scalarEqual v w \<and> valuesEqual w v = scalarEqual v w"
  by (cases v; cases w) (auto simp: scalarEqual_def)

lemma scalarEqual_euclid: "scalarEqual v w \<Longrightarrow> scalarEqual u w \<Longrightarrow> scalarEqual v u"
  using num_incomparable_trans [of "exact v" "exact w" "exact u"] by (auto simp: scalarEqual_def split: if_splits)

lemma scalarEqual_trans': "scalarEqual v u \<Longrightarrow> scalarEqual u w \<Longrightarrow> scalarEqual v w"
  using num_incomparable_trans [of "exact v" "exact u" "exact w"] by (auto simp: scalarEqual_def split: if_splits)

lemma strict_equals_scalar:
  assumes "plan_value v" "plan_value w" "is_scalar v"
  shows "strict_equals v w = scalarEqual v w"
proof (cases v)
  case (VNum a)
  then show ?thesis using assms by (cases w) (auto simp: scalarEqual_def strict_equals_def num_le_def)
qed (use assms in \<open>simp_all add: scalarEqual_def strict_equals_def\<close>)

lemma same_value_zero_scalar:
  assumes "plan_value v" "plan_value w" "is_scalar v" "same_value_zero v w" "scalarEqual w o'"
  shows "scalarEqual v o'"
proof -
  have "w \<noteq> VNum NaN" using assms(5) by (auto simp: scalarEqual_def split: if_splits)
  then have "scalarEqual v w" using assms(4) strict_equals_scalar [OF assms(1,2,3)] by (simp add: same_value_zero_def)
  then show ?thesis using assms(5) by (rule scalarEqual_trans')
qed

lemma js_distinct_subset: "set (js_distinct vs) \<subseteq> set vs"
  by (induction vs) auto

lemma js_distinct_represents:
  assumes "v \<in> set vs" "scalarEqual v w" "\<forall>v \<in> set vs. plan_value v \<and> is_scalar v"
  shows "\<exists>d \<in> set (js_distinct vs). scalarEqual d w"
  using assms
proof (induction vs)
  case (Cons a vs)
  show ?case
  proof (cases "scalarEqual a w")
    case False
    then have "v \<in> set vs" using Cons.prems by auto
    then obtain d where d: "d \<in> set (js_distinct vs)" "scalarEqual d w" using Cons by auto
    have "d \<in> set vs" using d(1) js_distinct_subset by blast
    then have "\<not> same_value_zero a d" using same_value_zero_scalar [of a d w] Cons.prems(3) d(2) False by auto
    then show ?thesis using d by auto
  qed simp
qed simp

lemma uniformComparisonD:
  assumes "uniformComparison body x = Some (op, path, other)"
  shows "(op = ''eq'' \<or> op = ''ne'') \<and> \<not> mentionsVariable other x \<and>
    (\<exists>el. element_path x el = Some path \<and> (body = Expression op [el, other] \<or> body = Expression op [other, el]))"
  using assms by (auto simp: uniformComparison_def split: operand.splits list.splits if_splits option.splits)

lemma element_value:
  "element_path x el = Some path \<Longrightarrow> cel fn attr ((x, item) # env) el = read_parts item path"
  by (cases el) (auto simp: element_path_def covers_def path_after_def split: if_splits)

lemma project_value: "project item path = Some v \<Longrightarrow> read_parts item path = v"
  by (induction item path rule: project.induct) (auto split: option.splits)

lemma project_plan: "project item path = Some v \<Longrightarrow> plan_value item \<Longrightarrow> plan_value v"
proof (induction item path rule: project.induct)
  case (2 kvs segment segments)
  then obtain w where w: "map_of kvs segment = Some w" "project w segments = Some v" by (auto split: option.splits)
  then have "plan_value w" using 2(3) map_of_SomeD [OF w(1)] by (fastforce simp: list_all_iff)
  then show ?case using 2(1) [OF w] by blast
qed simp_all

lemma cel_equality:
  assumes "op = ''eq'' \<or> op = ''ne''" "cel fn attr env a = v" "cel fn attr env b = w"
  shows "cel fn attr env (Expression op [a, b]) =
    (if v = VError \<or> w = VError then VError else VBool (valuesEqual v w = (op = ''eq'')))"
proof (cases "v = VError \<or> w = VError")
  case True
  then show ?thesis using assms by (auto simp: operator_value_def strict_value_def)
next
  case False
  have "comparison_of op = Some (if op = ''eq'' then Eq else Ne)" using assms(1) by (auto simp: comparison_of.simps)
  then show ?thesis using cel_comparison [OF _ assms(2,3)] False assms(1)
    by (auto simp: compareValues_def isEvaluationError_def simp del: cel.simps)
qed

lemma uniform_value:
  assumes "uniformComparison body x = Some (op, path, other)" "project item path = Some v" "plan_value v" "is_scalar v"
    "cel fn attr env other = w"
  shows "cel fn attr ((x, item) # env) body = (if w = VError then VError else VBool (scalarEqual v w = (op = ''eq'')))"
proof -
  note D = uniformComparisonD [OF assms(1)]
  then obtain el where el: "element_path x el = Some path" "body = Expression op [el, other] \<or> body = Expression op [other, el]" by blast
  have vals: "cel fn attr ((x, item) # env) el = v" "cel fn attr ((x, item) # env) other = w"
    using element_value [OF el(1)] project_value [OF assms(2)] cel_unmentioned [of other x fn attr item env] D assms(5) by auto
  show ?thesis
    using el(2) cel_equality [of op fn attr "(x, item) # env", OF _ vals] cel_equality [of op fn attr "(x, item) # env", OF _ vals(2,1)]
      D assms(3,4) scalar_valuesEqual [of v w] by (auto simp del: cel.simps)
qed

lemma membership_value:
  assumes "cel fn attr env other = w" "\<forall>v \<in> set vs. plan_value v \<and> is_scalar v"
  shows "cel fn attr env (membership_of other vs) = (if w = VError then VError else VBool (\<exists>v \<in> set vs. scalarEqual v w))"
proof (cases "\<exists>v. vs = [v]")
  case True
  then obtain v where v: "vs = [v]" by blast
  then have "v \<noteq> VError" using assms(2) by auto
  then show ?thesis using cel_equality [of "''eq''" fn attr env other w "Value v" v] assms v scalar_valuesEqual [of v w]
    by (auto simp: membership_of_def simp del: cel.simps(4))
next
  case False
  then have m: "membership_of other vs = Expression ''in'' [other, Value (VArr vs)]"
    by (auto simp: membership_of_def split: list.splits)
  have "contains_value vs w = (\<exists>v \<in> set vs. scalarEqual v w)" using assms(2) scalar_valuesEqual by (auto simp: contains_value_def)
  then show ?thesis using assms(1)
    by (simp add: m operator_value_def strict_value_def binary_value_def comparison_of.simps string_test_def number_op_def)
qed


text \<open>The arithmetic of the rewrite: each accepted value satisfies the count it stands for.\<close>

lemma multiplicity_of:
  assumes "\<forall>v \<in> set ps. plan_value v \<and> is_scalar v" "d \<in> set ps" "scalarEqual d w"
  shows "length (filter (\<lambda>v. strict_equals v d) ps) = length (filter (\<lambda>v. scalarEqual v w) ps)"
proof -
  have "strict_equals v d = scalarEqual v w" if "v \<in> set ps" for v
    using strict_equals_scalar [of v d] assms that scalarEqual_trans' [of v d w] scalarEqual_euclid [of v w d] by auto
  then show ?thesis by (simp cong: filter_cong)
qed

lemma count_decided:
  assumes ps: "\<forall>v \<in> set ps. plan_value v \<and> is_scalar v"
    and n_def: "n = length (filter (\<lambda>v. scalarEqual v w) ps)"
    and mult_def: "mult = (\<lambda>val. length (filter (\<lambda>v. strict_equals v val) ps))"
  shows "(\<exists>d \<in> set (js_distinct ps). P (mult d) \<and> scalarEqual d w) \<longleftrightarrow> n \<noteq> 0 \<and> P n"
proof
  assume "\<exists>d \<in> set (js_distinct ps). P (mult d) \<and> scalarEqual d w"
  then obtain d where d: "d \<in> set ps" "P (mult d)" "scalarEqual d w" using js_distinct_subset by blast
  then have "mult d = n" using multiplicity_of [OF ps d(1,3)] by (simp add: mult_def n_def)
  moreover have "n \<noteq> 0" using d by (auto simp: n_def filter_empty_conv)
  ultimately show "n \<noteq> 0 \<and> P n" using d(2) by simp
next
  assume n: "n \<noteq> 0 \<and> P n"
  then obtain v where v: "v \<in> set ps" "scalarEqual v w" by (auto simp: n_def filter_empty_conv)
  then obtain d where d: "d \<in> set (js_distinct ps)" "scalarEqual d w" using js_distinct_represents ps by blast
  then have "mult d = n" using multiplicity_of [OF ps _ d(2)] js_distinct_subset by (auto simp: mult_def n_def)
  then show "\<exists>d \<in> set (js_distinct ps). P (mult d) \<and> scalarEqual d w" using d n by auto
qed

lemma rejected_values:
  assumes ps: "\<forall>v \<in> set ps. plan_value v \<and> is_scalar v"
    and mult_def: "mult = (\<lambda>val. length (filter (\<lambda>v. strict_equals v val) ps))"
    and accepted_def: "accepted = filter (\<lambda>val. P (mult val)) (js_distinct ps)"
  shows "(\<exists>d \<in> set (filter (\<lambda>val. \<not> list_ex (\<lambda>v. same_value_zero v val) accepted) (js_distinct ps)). scalarEqual d w) \<longleftrightarrow>
    (\<exists>d \<in> set (js_distinct ps). \<not> P (mult d) \<and> scalarEqual d w)"
proof -
  have "list_ex (\<lambda>v. same_value_zero v d) accepted = P (mult d)" if d: "d \<in> set (js_distinct ps)" "scalarEqual d w" for d
  proof
    assume "list_ex (\<lambda>v. same_value_zero v d) accepted"
    then obtain v where v: "v \<in> set (js_distinct ps)" "P (mult v)" "same_value_zero v d" by (auto simp: accepted_def list_ex_iff)
    have mem: "v \<in> set ps" "d \<in> set ps" using v(1) d(1) js_distinct_subset by blast+
    have "scalarEqual v w" using same_value_zero_scalar [OF _ _ _ v(3) d(2)] ps mem by blast
    then have "mult v = mult d" using multiplicity_of [OF ps] mem d(2) by (simp add: mult_def)
    then show "P (mult d)" using v(2) by simp
  next
    assume p: "P (mult d)"
    have mem: "d \<in> set ps" using d(1) js_distinct_subset by blast
    have "scalarEqual d d" using scalarEqual_euclid [OF d(2) d(2)] .
    then have "same_value_zero d d" using strict_equals_scalar [of d d] ps mem by (simp add: same_value_zero_def)
    then show "list_ex (\<lambda>v. same_value_zero v d) accepted" using p d(1) by (auto simp: accepted_def list_ex_iff)
  qed
  then show ?thesis by auto
qed

lemma countMembership_exact:
  assumes "countMembership elements body x ok = Some e'" "list_all plan_value elements" "wellformed body"
    and ts_def: "ts = map (\<lambda>item. verdict (cel fn attr ((x, item) # env) body)) elements"
  shows "wellformed e' \<and> cel fn attr env e' =
    (if EE \<in> set ts then VError else VBool (ok (length (filter (\<lambda>t. t = TT) ts))))"
proof -
  obtain op path other ps where u: "uniformComparison body x = Some (op, path, other)" and ne: "elements \<noteq> []"
    and ps: "those (map (\<lambda>element. case project element path of
                  Some v \<Rightarrow> if is_scalar v then Some v else None | None \<Rightarrow> None) elements) = Some ps"
    using assms(1) by (auto simp: countMembership_def split: if_splits option.splits)
  define mult where "mult = (\<lambda>val. length (filter (\<lambda>v. strict_equals v val) ps))"
  define countFor where "countFor = (\<lambda>m. if op = ''eq'' then m else length ps - m)"
  define accepted where "accepted = filter (\<lambda>val. ok (countFor (mult val))) (js_distinct ps)"
  define rejected where "rejected = filter (\<lambda>val. \<not> list_ex (\<lambda>v. same_value_zero v val) accepted) (js_distinct ps)"
  define absent where "absent = ok (countFor 0)"
  have e': "e' = (if absent then Expression ''not'' [membership_of other rejected] else membership_of other accepted)"
    using assms(1) u ne ps unfolding countMembership_def
    by (auto simp: Let_def mult_def [symmetric] countFor_def [symmetric] accepted_def [symmetric] rejected_def [symmetric]
        absent_def [symmetric] split: if_splits)
  define w where "w = cel fn attr env other"
  have each: "list_all2 (\<lambda>item v. (plan_value v \<and> is_scalar v) \<and>
      verdict (cel fn attr ((x, item) # env) body) = (if w = VError then EE else truth_of (scalarEqual v w = (op = ''eq'')))) elements ps"
    using ps unfolding those_map
  proof (rule list.rel_mono_strong)
    fix item v assume item: "item \<in> set elements"
      "(case project item path of Some v \<Rightarrow> if is_scalar v then Some v else None | None \<Rightarrow> None) = Some v"
    then have p: "project item path = Some v" "is_scalar v" by (auto split: option.splits if_splits)
    have pv: "plan_value v" using project_plan [OF p(1)] assms(2) item(1) by (simp add: list_all_iff)
    show "(plan_value v \<and> is_scalar v) \<and>
      verdict (cel fn attr ((x, item) # env) body) = (if w = VError then EE else truth_of (scalarEqual v w = (op = ''eq'')))"
      using uniform_value [OF u p(1) pv p(2) w_def [symmetric]] pv p(2) by simp
  qed
  then have pss: "\<forall>v \<in> set ps. plan_value v \<and> is_scalar v"
    and ts: "ts = map (\<lambda>v. if w = VError then EE else truth_of (scalarEqual v w = (op = ''eq''))) ps"
    unfolding ts_def by (induction rule: list_all2_induct) auto
  have "ps \<noteq> []" using each ne by auto
  note D = uniformComparisonD [OF u]
  have wfo: "wellformed other" using D assms(3) by (auto simp: list_all_iff)
  have acc: "\<forall>v \<in> set accepted. plan_value v \<and> is_scalar v" "\<forall>v \<in> set rejected. plan_value v \<and> is_scalar v"
    using pss js_distinct_subset [of ps] by (auto simp: accepted_def rejected_def)
  then have wf: "wellformed e'" using wfo by (auto simp: e' membership_of_def list_all_iff split: list.splits)
  show ?thesis
  proof (cases "w = VError")
    case True
    then have "EE \<in> set ts" using ts \<open>ps \<noteq> []\<close> by (cases ps) auto
    then show ?thesis using True wf membership_value [OF _ acc(1), of fn attr env other] membership_value [OF _ acc(2), of fn attr env other]
      by (simp add: e' w_def cel_not del: cel.simps(4))
  next
    case False
    define n where "n = length (filter (\<lambda>v. scalarEqual v w) ps)"
    have eq: "(truth_of b = TT) = b" "truth_of b \<noteq> EE" "EE \<noteq> truth_of b" for b by (simp_all add: truth_of_def)
    have EE: "EE \<notin> set ts" using ts False eq by auto
    have "length (filter (\<lambda>t. t = TT) ts) = length (filter (\<lambda>v. scalarEqual v w = (op = ''eq'')) ps)"
      using ts False by (simp add: filter_map comp_def eq)
    also have "\<dots> = countFor n"
      using D sum_length_filter_compl [of "\<lambda>v. scalarEqual v w" ps] by (auto simp: countFor_def n_def)
    finally have count: "length (filter (\<lambda>t. t = TT) ts) = countFor n" .
    have a: "(\<exists>v \<in> set accepted. scalarEqual v w) \<longleftrightarrow> n \<noteq> 0 \<and> ok (countFor n)"
      using count_decided [OF pss n_def mult_def, of "\<lambda>m. ok (countFor m)"] unfolding accepted_def by auto
    have r: "(\<exists>v \<in> set rejected. scalarEqual v w) \<longleftrightarrow> n \<noteq> 0 \<and> \<not> ok (countFor n)"
      using count_decided [OF pss n_def mult_def, of "\<lambda>m. \<not> ok (countFor m)"]
        rejected_values [OF pss mult_def, of accepted "\<lambda>m. ok (countFor m)" w] accepted_def
      unfolding rejected_def by auto
    have "cel fn attr env e' = VBool (ok (countFor n))"
    proof (cases absent)
      case True
      then show ?thesis using False r membership_value [OF w_def [symmetric] acc(2)]
        by (auto simp: e' cel_not absent_def simp del: cel.simps(4))
    next
      case na: False
      then show ?thesis using False a membership_value [OF w_def [symmetric] acc(1)] by (auto simp: e' absent_def)
    qed
    then show ?thesis using wf EE count by simp
  qed
qed


lemma membership_typed: "typed fn attr env other \<Longrightarrow> typed fn attr env (membership_of other vs)"
  by (auto simp: membership_of_def split: list.splits)

lemma countMembership_typed:
  assumes "countMembership elements body x ok = Some e'"
    and "\<And>item. item \<in> set elements \<Longrightarrow> typed fn attr ((x, item) # env) body"
  shows "typed fn attr env e'"
proof -
  obtain op path other where u: "uniformComparison body x = Some (op, path, other)" and ne: "elements \<noteq> []"
    using assms(1) by (auto simp: countMembership_def split: if_splits option.splits)
  have e': "(\<exists>vs. e' = membership_of other vs) \<or> (\<exists>vs. e' = Expression ''not'' [membership_of other vs])"
    using assms(1) u ne unfolding countMembership_def Let_def by (simp split: if_splits option.splits) blast+
  note D = uniformComparisonD [OF u]
  obtain item where "item \<in> set elements" using ne by (cases elements) auto
  then have "typed fn attr ((x, item) # env) other" using assms(2) [of item] D by auto
  then have "typed fn attr env other" using typed_unmentioned D by blast
  then show ?thesis using e' by (auto simp: membership_typed)
qed

subsection \<open>Comparing a size\<close>

lemma count_holds_value:
  assumes "comparison_of op = Some cmp" "is_finite n"
  shows "compareValues cmp (VInt (int k)) (VNum n) = VBool (count_holds op n k)"
proof -
  have nan: "\<not> is_nan (Fin (of_int (int k)))" "\<not> is_nan n" using assms(2) by (cases n; simp)+
  show ?thesis using assms compareValues_numbers [OF nan, of cmp] num_linear [OF nan] num_linear [OF nan(2,1)]
    by (auto simp: comparison_of.simps count_holds_def strict_equals_def split: if_splits)
qed

lemma count_holds_mirrored:
  assumes "comparison_of op = Some cmp" "is_finite n"
  shows "compareValues cmp (VNum n) (VInt (int k)) = VBool (count_holds (mirrorOperator op) n k)"
proof -
  have nan: "\<not> is_nan (Fin (of_int (int k)))" "\<not> is_nan n" using assms(2) by (cases n; simp)+
  have "compareValues cmp (VNum n) (VInt (int k)) =
      compareValues (case cmp of Eq \<Rightarrow> Eq | Ne \<Rightarrow> Ne | Lt \<Rightarrow> Gt | Le \<Rightarrow> Ge | Gt \<Rightarrow> Lt | Ge \<Rightarrow> Le) (VInt (int k)) (VNum n)"
    unfolding compareValues_numbers [OF nan] compareValues_numbers [OF nan(2,1)]
    using num_linear [OF nan] num_linear [OF nan(2,1)] by (cases cmp) auto
  also have "\<dots> = VBool (count_holds (mirrorOperator op) n k)"
    by (rule count_holds_value [OF _ assms(2)]) (simp add: comparison_of_mirror assms(1))
  finally show ?thesis .
qed

lemma size_strict: "cel fn attr env (Expression ''size'' [a]) = (if cel fn attr env a = VError then VError else size_value (cel fn attr env a))"
  by (simp add: operator_value_def strict_value_def)

lemma sizeComparison_value:
  assumes "sizeComparison op args = Some ((counted, cargs), ok)"
  shows "cel fn attr env (Expression counted cargs) = VArr xs \<Longrightarrow> cel fn attr env (Expression op args) = VBool (ok (length xs))"
    and "cel fn attr env (Expression counted cargs) = VError \<Longrightarrow> cel fn attr env (Expression op args) = VError"
    and "\<exists>a. args = [Expression ''size'' [Expression counted cargs], a] \<or> args = [a, Expression ''size'' [Expression counted cargs]]"
proof -
  obtain n op' where a: "args = [Expression ''size'' [Expression counted cargs], Value (VNum n)] \<and> ok = count_holds op n \<or>
      args = [Value (VNum n), Expression ''size'' [Expression counted cargs]] \<and> ok = count_holds (mirrorOperator op) n"
    and n: "is_finite n" and op: "op \<in> {''eq'', ''ne'', ''lt'', ''le'', ''gt'', ''ge''}"
    using assms by (auto simp: sizeComparison_def Let_def split: if_splits list.splits operand.splits jsval.splits)
  obtain cmp where cmp: "comparison_of op = Some cmp" using op by (auto simp: comparison_of.simps)
  let ?s = "Expression ''size'' [Expression counted cargs]"
  show "cel fn attr env (Expression op args) = VBool (ok (length xs))" if "cel fn attr env (Expression counted cargs) = VArr xs"
  proof -
    have s: "cel fn attr env ?s = VInt (int (length xs))" by (simp only: size_strict that) simp
    have v: "cel fn attr env (Value (VNum n)) = VNum n" by simp
    show ?thesis using a cel_comparison [OF cmp s v] cel_comparison [OF cmp v s] count_holds_value [OF cmp n] count_holds_mirrored [OF cmp n]
      by (auto simp del: cel.simps)
  qed
  show "cel fn attr env (Expression op args) = VError" if e: "cel fn attr env (Expression counted cargs) = VError"
  proof -
    have "cel fn attr env ?s = VError" by (subst size_strict) (simp only: e refl if_True)
    then have "VError \<in> set (map (cel fn attr env) args)" using a by (auto simp del: cel.simps)
    moreover have "lambda_parts op args = None" "op \<notin> {''and'', ''or'', ''not'', ''if''}"
      using op by (auto simp: lambda_parts_def macro_names_def)
    ultimately show ?thesis by (simp add: operator_value_def strict_value_def)
  qed
  show "\<exists>a. args = [?s, a] \<or> args = [a, ?s]" using a by blast
qed

text \<open>A threshold that tells 0 from 1 and not 1 from 2 and 3 tells nothing else apart.\<close>

lemma threshold:
  assumes "is_finite n" "ok = count_holds op n" "ok 0 \<noteq> ok 1" "ok 2 = ok 1" "ok 3 = ok 1" "1 \<le> k"
  shows "ok k = ok 1"
proof -
  define r where "r = num_val n"
  have c: "num_lt (Fin a) n \<longleftrightarrow> a < r" "num_lt n (Fin a) \<longleftrightarrow> r < a" "num_le (Fin a) n \<longleftrightarrow> a \<le> r" "num_le n (Fin a) \<longleftrightarrow> r \<le> a"
    "strict_equals (VNum (Fin a)) (VNum n) \<longleftrightarrow> a = r" for a
    using assms(1) by (cases n; auto simp: r_def num_le_def strict_equals_def)+
  have k: "(1::rat) \<le> of_nat k" using assms(6) by simp
  show ?thesis using assms(3-5) k unfolding assms(2) count_holds_def Let_def c by (auto split: if_splits)
qed


subsection \<open>The rewrites of a size\<close>

lemma literalMacroD:
  "literalMacro args = Some (xs, body, x) \<Longrightarrow>
     \<exists>c. args = [c, Expression ''lambda'' [body, Variable x]] \<and> literalList c = Some xs"
  by (auto simp: literalMacro_def split: list.splits operand.splits if_splits option.splits)

lemma literal_macro_facts:
  assumes "literalMacro args = Some (xs, body, x)" "op \<in> set macro_names" "wellformed (Expression op args)"
    "typed fn attr env (Expression op args)"
  shows "cel fn attr env (Expression op args) = macro_value op (VArr xs) (\<lambda>item. cel fn attr ((x, item) # env) body)"
    "list_all plan_value xs" "wellformed body" "dot \<notin> set x"
    "\<And>item. item \<in> set xs \<Longrightarrow> typed fn attr ((x, item) # env) body \<and>
      (op = ''exists'' \<or> op = ''all'' \<longrightarrow> boolean_or_error (cel fn attr ((x, item) # env) body))"
proof -
  obtain c where args: "args = [c, Expression ''lambda'' [body, Variable x]]" and c: "literalList c = Some xs"
    using literalMacroD [OF assms(1)] by blast
  have wf: "wellformed c" "wellformed body" "dot \<notin> set x" using assms(2,3) by (simp_all add: args)
  have v: "cel fn attr env c = VArr xs" "list_all plan_value xs" using literal_value(1) [OF c wf(1)] by auto
  show "cel fn attr env (Expression op args) = macro_value op (VArr xs) (\<lambda>item. cel fn attr ((x, item) # env) body)"
    using assms(2) v by (simp add: args)
  show "list_all plan_value xs" "wellformed body" "dot \<notin> set x" using wf v by auto
  show "typed fn attr ((x, item) # env) body \<and>
      (op = ''exists'' \<or> op = ''all'' \<longrightarrow> boolean_or_error (cel fn attr ((x, item) # env) body))" if "item \<in> set xs" for item
    using assms(4) that v(1) unfolding args typed_macro [OF assms(2)] by simp
qed

lemma except_strict:
  assumes "lambda_parts ''except'' [a, b] = None"
  shows "cel fn attr env (Expression ''except'' [a, b]) =
    (if cel fn attr env a = VError \<or> cel fn attr env b = VError then VError
     else except_values (cel fn attr env a) (cel fn attr env b))"
  using assms by (auto simp: operator_value_def strict_value_def binary_value_def comparison_of.simps string_test_def number_op_def)

lemma not_lambda_parts: "\<not> is_lambda b \<Longrightarrow> lambda_parts op [a, b] = None"
  by (auto simp: lambda_parts_def is_lambda_def split: operand.splits list.splits if_splits)

lemma in_strict:
  "cel fn attr env (Expression ''in'' [a, b]) =
    (if cel fn attr env a = VError \<or> cel fn attr env b = VError then VError
     else case items (cel fn attr env b) of Some xs \<Rightarrow> VBool (contains_value xs (cel fn attr env a)) | None \<Rightarrow> VError)"
  by (auto simp: operator_value_def strict_value_def binary_value_def comparison_of.simps string_test_def number_op_def)

lemma except_singleton:
  assumes "countMembership elements (Expression ''ne'' [Variable x, removed]) x ok = Some e'" "list_all plan_value elements"
    and r: "cel fn attr env removed = r"
  shows "cel fn attr ((x, item) # env) (Expression ''ne'' [Variable x, removed]) =
      (if r = VError then VError else if item = VError then VError else VBool (\<not> valuesEqual item r))"
    and "item \<in> set elements \<Longrightarrow> valuesEqual r item = valuesEqual item r"
    and "\<not> mentionsVariable removed x"
proof -
  obtain path other where u: "uniformComparison (Expression ''ne'' [Variable x, removed]) x = Some (''ne'', path, other)"
    and ps: "those (map (\<lambda>element. case project element path of
                  Some v \<Rightarrow> if is_scalar v then Some v else None | None \<Rightarrow> None) elements) \<noteq> None"
    using assms(1) uniformComparisonD by (fastforce simp: countMembership_def split: if_splits option.splits)
  have m: "\<not> mentionsVariable removed x" and path: "path = []"
    using u by (auto simp: uniformComparison_def element_path_def split: if_splits option.splits)
  show "\<not> mentionsVariable removed x" by (rule m)
  have "cel fn attr ((x, item) # env) removed = r" using cel_unmentioned [OF m] r by simp
  then show "cel fn attr ((x, item) # env) (Expression ''ne'' [Variable x, removed]) =
      (if r = VError then VError else if item = VError then VError else VBool (\<not> valuesEqual item r))"
    using cel_equality [of "''ne''" fn attr "(x, item) # env" "Variable x" item removed r] by auto
  show "valuesEqual r item = valuesEqual item r" if "item \<in> set elements"
  proof -
    obtain ps' where "list_all2 (\<lambda>element v. (case project element path of
          Some v \<Rightarrow> if is_scalar v then Some v else None | None \<Rightarrow> None) = Some v) elements ps'"
      using ps by (auto simp: those_map)
    then have "is_scalar item" using that path by (induction rule: list_all2_induct) (auto split: if_splits)
    then show ?thesis using scalar_valuesEqual [of item r] assms(2) that by (simp add: list_all_iff)
  qed
qed

lemma literal_typed:
  "literalList e = Some xs \<Longrightarrow> typed fn attr env e"
  "literalValue e = Some v \<Longrightarrow> typed fn attr env e"
proof (induction e and e arbitrary: xs and v rule: literalList_literalValue.induct)
  case (2 op args)
  then have op: "op = ''list''" and vs: "list_all2 (\<lambda>a v. literalValue a = Some v) args xs"
    by (auto simp: those_map split: if_splits)
  have "list_all2 (\<lambda>a v. typed fn attr env a) args xs"
    by (rule list.rel_mono_strong [OF vs]) (use 2(1) [OF op] in blast)
  then have "list_all (typed fn attr env) args" by (induction rule: list_all2_induct) auto
  then show ?case by (simp add: op)
next
  case (6 op args)
  show ?case
  proof (cases "op = ''list''")
    case True
    then show ?thesis using 6(1,3) by auto
  next
    case False
    then have op: "op = ''struct''" using 6(3) by (simp split: if_splits)
    have "typed fn attr env a" if a: "a \<in> set args" for a
    proof -
      have "(case a of Expression l [key, val] \<Rightarrow>
                  (case (literalValue val, key) of
                     (Some literal, Value (VStr k)) \<Rightarrow> if l = ''set-field'' then Some (k, literal) else None
                   | _ \<Rightarrow> None)
              | _ \<Rightarrow> None) \<noteq> None"
      proof -
        obtain fs where "list_all2 (\<lambda>a kv. (case a of Expression l [key, val] \<Rightarrow>
                  (case (literalValue val, key) of
                     (Some literal, Value (VStr k)) \<Rightarrow> if l = ''set-field'' then Some (k, literal) else None
                   | _ \<Rightarrow> None)
              | _ \<Rightarrow> None) = Some kv) args fs"
          using 6(3) unfolding op by (subst (asm) literalValue.simps(2)) (auto simp: those_map)
        then show ?thesis using a by (induction rule: list_all2_induct) auto
      qed
      then obtain k val lit where av: "a = Expression ''set-field'' [Value (VStr k), val]" "literalValue val = Some lit"
        by (auto split: operand.splits list.splits option.splits jsval.splits if_splits)
      have "typed fn attr env val" using 6(2) [OF False _ a av(1) refl refl refl av(2)] op by simp
      then show ?thesis by (simp add: av(1))
    qed
    then show ?thesis by (simp add: op list_all_iff)
  qed
qed auto

lemma k_ex_truth: "k_ex (map (\<lambda>x. truth_of (P x)) xs) = truth_of (\<exists>x \<in> set xs. P x)"
  and k_all_truth: "k_all (map (\<lambda>x. truth_of (P x)) xs) = truth_of (\<forall>x \<in> set xs. P x)"
  by (auto simp: k_ex_def k_all_def truth_of_def)

lemma except_emptiness_exact:
  assumes e': "except_emptiness m s (count_holds op' n) = Some e'" and n: "is_finite n"
    and m: "wellformed m" "typed fn attr env m" "subtractable (cel fn attr env m)"
    and s: "literalList s = Some ys" "wellformed s" "\<not> is_lambda s"
  shows "wellformed e' \<and> typed fn attr env e' \<and> cel fn attr env e' =
    (case cel fn attr env (Expression ''except'' [m, s]) of VArr xs \<Rightarrow> VBool (count_holds op' n (length xs)) | _ \<Rightarrow> VError)"
proof -
  define ok where "ok = count_holds op' n"
  define member where "member = Expression ''in'' [Variable EXCEPT_VARIABLE, s]"
  define body where "body = (if ok 1 \<and> \<not> ok 0 then Expression ''not'' [member] else member)"
  define op where "op = (if ok 1 \<and> \<not> ok 0 then ''exists'' else ''all'')"
  have decided: "ok 0 \<noteq> ok 1" "ok 2 = ok 1" "ok 3 = ok 1"
    and e: "e' = Expression op [m, Expression ''lambda'' [body, Variable EXCEPT_VARIABLE]]"
    using e' by (auto simp: except_emptiness_def ok_def [symmetric] Let_def op_def body_def member_def split: if_splits)
  have op: "op \<in> set macro_names" by (simp add: op_def macro_names_def)
  have sv: "cel fn attr env' s = VArr ys" for env' using literal_value(1) [OF s(1,2)] by blast
  have mem: "cel fn attr ((EXCEPT_VARIABLE, item) # env) member = (if item = VError then VError else VBool (contains_value ys item))" for item
    unfolding member_def in_strict sv by simp
  have b: "cel fn attr ((EXCEPT_VARIABLE, item) # env) body =
      (if item = VError then VError else VBool (contains_value ys item = (\<not> (ok 1 \<and> \<not> ok 0))))" for item
    using mem [of item] by (auto simp: body_def cel_not truth_of_def simp del: cel.simps(4))
  have dotfree: "dot \<notin> set EXCEPT_VARIABLE" by (simp add: EXCEPT_VARIABLE_def js_def dot_def)
  have wfb: "wellformed body" using s(2) by (simp add: body_def member_def)
  have tm: "typed fn attr ((EXCEPT_VARIABLE, item) # env) body" for item
  proof -
    have "typed fn attr env' s" for env' using s(1) by (rule literal_typed)
    then show ?thesis by (simp add: body_def member_def)
  qed
  have "typed fn attr env e'" unfolding e typed_macro [OF op] using m(2) tm b by (simp add: boolean_or_error_def)
  moreover have "wellformed e'" using wfb m(1) op dotfree by (simp add: e)
  moreover have "cel fn attr env e' =
    (case cel fn attr env (Expression ''except'' [m, s]) of VArr xs \<Rightarrow> VBool (ok (length xs)) | _ \<Rightarrow> VError)"
  proof (cases "cel fn attr env m")
    case (VArr xs)
    define left where "left = filter (\<lambda>x. \<not> contains_value ys x) xs"
    have "VError \<notin> set xs" using m(3) [unfolded VArr] by simp
    then have vs: "map (\<lambda>item. verdict (cel fn attr ((EXCEPT_VARIABLE, item) # env) body)) xs =
        map (\<lambda>item. truth_of (contains_value ys item = (\<not> (ok 1 \<and> \<not> ok 0)))) xs"
      using b by (auto intro!: map_cong)
    have "cel fn attr env e' = VBool (if ok 1 \<and> \<not> ok 0 then left \<noteq> [] else left = [])"
    proof -
      have "cel fn attr env e' = macro_value op (VArr xs) (\<lambda>item. cel fn attr ((EXCEPT_VARIABLE, item) # env) body)"
        by (simp add: e op VArr)
      also have "\<dots> = of_truth (if op = ''exists'' then k_ex (map (\<lambda>item. verdict (cel fn attr ((EXCEPT_VARIABLE, item) # env) body)) xs)
          else k_all (map (\<lambda>item. verdict (cel fn attr ((EXCEPT_VARIABLE, item) # env) body)) xs))"
        by (simp add: macro_value_def op_def)
      finally show ?thesis unfolding vs k_ex_truth k_all_truth by (auto simp: op_def left_def filter_empty_conv)
    qed
    moreover have "(if ok 1 \<and> \<not> ok 0 then left \<noteq> [] else left = []) = ok (length left)"
      using decided(1) threshold [OF n ok_def decided, of "length left"] by (cases "left = []") (auto simp: Suc_le_eq)
    moreover have "cel fn attr env (Expression ''except'' [m, s]) = VArr left"
      using except_strict [OF not_lambda_parts [OF s(3)]] sv VArr by (simp add: except_values_def left_def)
    ultimately show ?thesis by simp
  qed (use except_strict [OF not_lambda_parts [OF s(3)], of fn attr env m] sv m(3) op in
      \<open>auto simp: e macro_value_def except_values_def\<close>)
  ultimately show ?thesis unfolding ok_def by blast
qed


lemma wellformed_plain:
  "lambda_parts op args = None \<Longrightarrow> wellformed (Expression op args) \<longleftrightarrow>
     op \<noteq> ''lambda'' \<and> (\<forall>a \<in> set args. wellformed a) \<and> (op = ''struct'' \<longrightarrow> struct_shape args)"
  by (auto simp: list_all_iff)

lemma comparison_plain: "op \<in> {''eq'', ''ne'', ''lt'', ''le'', ''gt'', ''ge''} \<Longrightarrow> lambda_parts op args = None"
  by (auto simp: lambda_parts_def macro_names_def)

lemma sizeComparison_op: "sizeComparison op args \<noteq> None \<Longrightarrow> op \<in> {''eq'', ''ne'', ''lt'', ''le'', ''gt'', ''ge''}"
  by (auto simp: sizeComparison_def split: if_splits)

lemma sizeComparison_ok: "sizeComparison op args = Some (ca, ok) \<Longrightarrow> \<exists>op' n. ok = count_holds op' n \<and> is_finite n"
  by (auto simp: sizeComparison_def Let_def split: if_splits list.splits operand.splits jsval.splits)

lemma expandSize_exact:
  assumes "expandSizeComparison op args = Some e'" "wellformed (Expression op args)" "typed fn attr env (Expression op args)"
  shows "wellformed e' \<and> typed fn attr env e' \<and> cel fn attr env e' = cel fn attr env (Expression op args)"
proof -
  obtain counted cargs ok where sc: "sizeComparison op args = Some ((counted, cargs), ok)"
    using assms(1) by (auto simp: expandSizeComparison_def split: option.splits)
  have plain: "lambda_parts op args = None" using comparison_plain sizeComparison_op [of op args] sc by simp
  obtain op' n where ok: "ok = count_holds op' n" "is_finite n" using sizeComparison_ok [OF sc] by blast
  let ?c = "Expression counted cargs"
  have mem: "Expression ''size'' [?c] \<in> set args" using sizeComparison_value(3) [OF sc] by auto
  have "wellformed (Expression ''size'' [?c])" using assms(2) mem unfolding wellformed_plain [OF plain] by blast
  then have wf: "wellformed ?c" by (simp add: wellformed_plain del: wellformed.simps(2))
  have "typed fn attr env (Expression ''size'' [?c])" using assms(3) mem unfolding typed_plain [OF plain] by blast
  then have ty: "typed fn attr env ?c" by (simp add: typed_plain del: typed.simps(1))
  note size_val = sizeComparison_value(1,2) [OF sc, of fn attr env]
  consider (filter) xs body x where "counted = ''filter''" "literalMacro cargs = Some (xs, body, x)" "countMembership xs body x ok = Some e'"
    | (literal) m removed xs where "counted = ''except''" "cargs = [m, Expression ''list'' [removed]]" "literalList m = Some xs"
        "countMembership xs (Expression ''ne'' [Variable EXCEPT_VARIABLE, removed]) EXCEPT_VARIABLE ok = Some e'"
    | (emptiness) m s where "counted = ''except''" "cargs = [m, s]" "\<not> is_lambda s" "literalList s \<noteq> None" "except_emptiness m s ok = Some e'"
    using assms(1) sc by (auto simp: expandSizeComparison_def split: if_splits option.splits list.splits operand.splits)
  then show ?thesis
  proof cases
    case filter
    have mn: "counted \<in> set macro_names" by (simp add: filter macro_names_def)
    note L = literal_macro_facts [OF filter(2) mn wf ty]
    define ts where "ts = map (\<lambda>item. verdict (cel fn attr ((x, item) # env) body)) xs"
    have f: "cel fn attr env ?c = (if EE \<in> set ts then VError else VArr (filter (\<lambda>item. verdict (cel fn attr ((x, item) # env) body) = TT) xs))"
      unfolding L(1) by (simp add: filter(1) macro_value_def ts_def Let_def)
    have "length (filter (\<lambda>t. t = TT) ts) = length (filter (\<lambda>item. verdict (cel fn attr ((x, item) # env) body) = TT) xs)"
      by (simp add: ts_def filter_map comp_def)
    then have "cel fn attr env (Expression op args) = (if EE \<in> set ts then VError else VBool (ok (length (filter (\<lambda>t. t = TT) ts))))"
      using size_val f by (cases "EE \<in> set ts") (simp_all del: cel.simps)
    then show ?thesis using countMembership_exact [OF filter(3) L(2,3) ts_def] countMembership_typed [OF filter(3)] L(5) by simp
  next
    case literal
    define r where "r = cel fn attr env removed"
    have np: "lambda_parts ''except'' cargs = None" by (simp add: literal(2) lambda_parts_def)
    have wfs: "wellformed m" "wellformed removed" using wf np by (simp_all add: literal(1,2))
    have tyr: "typed fn attr env removed" using ty np by (simp add: literal(1,2))
    have xs: "cel fn attr env m = VArr xs" "list_all plan_value xs" using literal_value(1) [OF literal(3) wfs(1)] by auto
    note S = except_singleton [OF literal(4) xs(2) r_def [symmetric]]
    define body where "body = Expression ''ne'' [Variable EXCEPT_VARIABLE, removed]"
    define ts where "ts = map (\<lambda>item. verdict (cel fn attr ((EXCEPT_VARIABLE, item) # env) body)) xs"
    have wfb: "wellformed body" using wfs by (simp add: body_def)
    have tyb: "typed fn attr ((EXCEPT_VARIABLE, item) # env) body" for item
      using typed_unmentioned [OF S(3)] tyr by (simp add: body_def)
    have ne: "xs \<noteq> []" using literal(4) by (auto simp: countMembership_def)
    have pv: "item \<noteq> VError" if "item \<in> set xs" for item using xs(2) that by (auto simp: list_all_iff)
    have target: "cel fn attr env (Expression op args) = (if EE \<in> set ts then VError else VBool (ok (length (filter (\<lambda>t. t = TT) ts))))"
    proof (cases "r = VError")
      case True
      then have "EE \<in> set ts" using ne by (cases xs) (simp_all add: ts_def body_def S(1) del: cel.simps)
      moreover have "cel fn attr env (Expression ''list'' [removed]) = VError" using True r_def by (simp add: operator_value_def strict_value_def)
      then have "cel fn attr env ?c = VError" unfolding literal(1,2) by (subst except_strict) (use np literal(2) in simp_all)
      ultimately show ?thesis using size_val(2) by simp
    next
      case False
      have ts: "ts = map (\<lambda>item. truth_of (\<not> valuesEqual item r)) xs"
        unfolding ts_def using False pv by (auto simp: body_def S(1) simp del: cel.simps)
      then have "EE \<notin> set ts" "length (filter (\<lambda>t. t = TT) ts) = length (filter (\<lambda>item. \<not> valuesEqual item r) xs)"
        by (auto simp: truth_of_def filter_map comp_def split: if_splits intro!: arg_cong [where f = length] filter_cong)
      moreover have "cel fn attr env (Expression ''list'' [removed]) = VArr [r]" using False r_def by (simp add: operator_value_def strict_value_def)
      then have "cel fn attr env ?c = VArr (filter (\<lambda>item. \<not> valuesEqual item r) xs)" unfolding literal(1,2)
        by (subst except_strict) (use np literal(2) xs(1) S(2) in \<open>auto simp: except_values_def contains_value_def intro!: filter_cong\<close>)
      ultimately show ?thesis using size_val(1) by simp
    qed
    show ?thesis using countMembership_exact [OF literal(4) xs(2) wfb [unfolded body_def] ts_def [unfolded body_def]]
        countMembership_typed [OF literal(4)] tyb target by (simp add: body_def)
  next
    case emptiness
    have np: "lambda_parts ''except'' cargs = None" using not_lambda_parts [OF emptiness(3)] by (simp add: emptiness(2))
    obtain ys where ys: "literalList s = Some ys" using emptiness(4) by blast
    have m: "wellformed m" "wellformed s" "typed fn attr env m" "subtractable (cel fn attr env m)"
      using wf ty np by (simp_all add: emptiness(1,2))
    have E: "wellformed e' \<and> typed fn attr env e' \<and> cel fn attr env e' =
      (case cel fn attr env ?c of VArr xs \<Rightarrow> VBool (ok (length xs)) | _ \<Rightarrow> VError)"
      using except_emptiness_exact [OF _ ok(2) m(1,3,4) ys m(2) emptiness(3)] emptiness(5) unfolding ok(1) emptiness(1,2) by blast
    have "cel fn attr env ?c = VError \<or> (\<exists>xs. cel fn attr env ?c = VArr xs)"
      unfolding emptiness(1,2) except_strict [OF not_lambda_parts [OF emptiness(3)]]
      by (auto simp: except_values_def split: jsval.splits)
    then show ?thesis using E size_val by (auto simp del: cel.simps)
  qed
qed


subsection \<open>The whole rewrite\<close>

lemma expandSize_wellformed:
  assumes "expandSizeComparison op args = Some e'" "wellformed (Expression op args)"
  shows "wellformed e'"
proof -
  obtain counted cargs ok where sc: "sizeComparison op args = Some ((counted, cargs), ok)"
    using assms(1) by (auto simp: expandSizeComparison_def split: option.splits)
  have plain: "lambda_parts op args = None" using comparison_plain sizeComparison_op [of op args] sc by simp
  let ?c = "Expression counted cargs"
  have "Expression ''size'' [?c] \<in> set args" using sizeComparison_value(3) [OF sc] by auto
  then have "wellformed (Expression ''size'' [?c])" using assms(2) unfolding wellformed_plain [OF plain] by blast
  then have wf: "wellformed ?c" by (simp add: wellformed_plain del: wellformed.simps(2))
  consider (filter) xs body x where "counted = ''filter''" "literalMacro cargs = Some (xs, body, x)" "countMembership xs body x ok = Some e'"
    | (literal) m removed xs where "counted = ''except''" "cargs = [m, Expression ''list'' [removed]]" "literalList m = Some xs"
        "countMembership xs (Expression ''ne'' [Variable EXCEPT_VARIABLE, removed]) EXCEPT_VARIABLE ok = Some e'"
    | (emptiness) m s where "counted = ''except''" "cargs = [m, s]" "\<not> is_lambda s" "except_emptiness m s ok = Some e'"
    using assms(1) sc by (auto simp: expandSizeComparison_def split: if_splits option.splits list.splits operand.splits)
  then show ?thesis
  proof cases
    case filter
    obtain c where c: "cargs = [c, Expression ''lambda'' [body, Variable x]]" "literalList c = Some xs" using literalMacroD [OF filter(2)] by blast
    have "wellformed c" "wellformed body" using wf by (simp_all add: c filter(1) macro_names_def)
    then show ?thesis using countMembership_exact [OF filter(3) _ _ refl] literal_value(1) [OF c(2)] by simp
  next
    case literal
    have "lambda_parts ''except'' [m, Expression ''list'' [removed]] = None" by (rule not_lambda_parts) (simp add: is_lambda_def)
    then have "wellformed m" "wellformed removed" using wf by (simp_all add: literal(1,2))
    then show ?thesis using countMembership_exact [OF literal(4) _ _ refl] literal_value(1) [OF literal(3)] by simp
  next
    case emptiness
    have "wellformed m" "wellformed s" using wf not_lambda_parts [OF emptiness(3)] by (simp_all add: emptiness(1,2))
    moreover have "dot \<notin> set EXCEPT_VARIABLE" by (simp add: EXCEPT_VARIABLE_def js_def dot_def)
    ultimately show ?thesis using emptiness(4) by (auto simp: except_emptiness_def Let_def macro_names_def split: if_splits)
  qed
qed

lemma expandMacro_wellformed:
  assumes "expandMacro op args = Inr (Some e')" "wellformed (Expression op args)"
  shows "wellformed e'"
proof -
  obtain xs body x where lm: "literalMacro args = Some (xs, body, x)" and op: "op = ''exists'' \<or> op = ''all'' \<or> op = ''exists_one''"
    using assms(1) by (auto simp: expandMacro_def split: if_splits option.splits)
  obtain c where c: "args = [c, Expression ''lambda'' [body, Variable x]]" "literalList c = Some xs" using literalMacroD [OF lm] by blast
  have wf: "wellformed c" "wellformed body" "dot \<notin> set x" using assms(2) op by (auto simp: c(1) macro_names_def)
  have xs: "list_all plan_value xs" using literal_value(1) [OF c(2) wf(1)] by simp
  show ?thesis
  proof (cases "op = ''exists_one''")
    case True
    then have "countMembership xs body x (\<lambda>count. count = 1) = Some e'" using assms(1) lm by (simp add: expandMacro_def)
    then show ?thesis using countMembership_exact [OF _ xs wf(2) refl] by blast
  next
    case False
    show ?thesis
    proof (cases "xs = []")
      case True
      then show ?thesis using assms(1) lm op False by (auto simp: expandMacro_def split: if_splits)
    next
      case ne: False
      then obtain bodies where b: "mapE (\<lambda>element. substituteLambdaVariable body x element) xs = Inr bodies"
        and e': "e' = (if length bodies = 1 then hd bodies else Expression (if op = ''exists'' then ''or'' else ''and'') bodies)"
        using assms(1) lm op False by (auto simp: expandMacro_def bindE_eq_Inr split: if_splits)
      have "list_all2 (\<lambda>el b. wellformed b) xs bodies"
        using b unfolding mapE_ok_iff
        by (rule list.rel_mono_strong)
          (use substitute_cel [OF wf(2,3), of "[]"] xs in \<open>auto simp: list_all_iff\<close>)
      then have "list_all wellformed bodies" by (induction rule: list_all2_induct) auto
      moreover have "bodies \<noteq> []" using b ne by (auto simp: mapE_ok_iff)
      ultimately show ?thesis by (cases bodies) (auto simp: e')
    qed
  qed
qed

lemma expandMacro_exact:
  assumes "expandMacro op args = Inr (Some e')" "wellformed (Expression op args)" "typed fn attr env (Expression op args)"
  shows "typed fn attr env e' \<and> cel fn attr env e' = cel fn attr env (Expression op args)"
proof -
  obtain xs body x where lm: "literalMacro args = Some (xs, body, x)" and op: "op = ''exists'' \<or> op = ''all'' \<or> op = ''exists_one''"
    using assms(1) by (auto simp: expandMacro_def split: if_splits option.splits)
  then have mn: "op \<in> set macro_names" by (auto simp: macro_names_def)
  note L = literal_macro_facts [OF lm mn assms(2,3)]
  let ?f = "\<lambda>item. cel fn attr ((x, item) # env) body"
  show ?thesis
  proof (cases "op = ''exists_one''")
    case True
    then have c: "countMembership xs body x (\<lambda>count. count = 1) = Some e'" using assms(1) lm by (simp add: expandMacro_def)
    show ?thesis using countMembership_exact [OF c L(2,3) refl, of fn attr env] countMembership_typed [OF c] L(5) unfolding L(1)
      by (simp add: True macro_value_def Let_def)
  next
    case False
    then have q: "op = ''exists'' \<or> op = ''all''" using op by blast
    show ?thesis
    proof (cases "xs = []")
      case True
      then have e': "e' = Value (VBool (op = ''all''))" using assms(1) lm q by (auto simp: expandMacro_def)
      show ?thesis using q unfolding L(1) by (auto simp: True e' macro_value_def k_ex_def k_all_def)
    next
      case ne: False
      obtain bodies where b: "mapE (\<lambda>element. substituteLambdaVariable body x element) xs = Inr bodies"
        and e': "e' = (if length bodies = 1 then hd bodies else Expression (if op = ''exists'' then ''or'' else ''and'') bodies)"
        using assms(1) lm q ne by (auto simp: expandMacro_def bindE_eq_Inr split: if_splits)
      have s: "list_all2 (\<lambda>el b. cel fn attr env b = ?f el \<and> typed fn attr env b) xs bodies"
        using b unfolding mapE_ok_iff
      proof (rule list.rel_mono_strong)
        fix el b assume "el \<in> set xs" "substituteLambdaVariable body x el = Inr b"
        then show "cel fn attr env b = ?f el \<and> typed fn attr env b"
          using substitute_cel [OF L(3,4), of "[]" el b fn attr env] L(2,5) by (simp add: list_all_iff)
      qed
      then have v: "list_all2 (\<lambda>el b. cel fn attr env b = ?f el) xs bodies" and ty: "list_all (typed fn attr env) bodies"
        by (induction rule: list_all2_induct) auto
      have "bodies \<noteq> []" using b ne by (auto simp: mapE_ok_iff)
      then have "typed fn attr env e'" using ty by (cases bodies) (auto simp: e')
      moreover have "cel fn attr env e' = macro_value op (VArr xs) ?f"
        unfolding e' by (rule junction_of_bodies [OF v q ne]) (use L(5) q in blast)
      ultimately show ?thesis using L(1) by simp
    qed
  qed
qed


lemma expand_other:
  "op \<notin> {''exists'', ''all'', ''exists_one'', ''eq'', ''ne'', ''lt'', ''le'', ''gt'', ''ge''} \<Longrightarrow>
     expandMacro op args = Inr None \<and> expandSizeComparison op args = None"
  by (auto simp: expandMacro_def expandSizeComparison_def sizeComparison_def)

lemma expand_lambda:
  "expandLiteralCollections (Expression ''lambda'' [body, Variable x]) = Inr l' \<longleftrightarrow>
     (\<exists>body'. expandLiteralCollections body = Inr body' \<and> l' = Expression ''lambda'' [body', Variable x])"
  using expand_other [of "''lambda''"] by (auto simp: bindE_eq_Inr)

lemma field_key_expand: "field_key a = Some k \<Longrightarrow> expandLiteralCollections a = Inr a' \<Longrightarrow> field_key a' = Some k"
proof -
  assume k: "field_key a = Some k" "expandLiteralCollections a = Inr a'"
  obtain v where a: "a = Expression ''set-field'' [Value (VStr k), v]" using field_keyD [OF k(1)] by blast
  show ?thesis using k(2) expand_other [of "''set-field''"] by (auto simp: a bindE_eq_Inr)
qed

text \<open>The node whose operands have been rewritten.\<close>

lemma expand_node_cases:
  assumes "expandLiteralCollections (Expression op args) = Inr e'"
  obtains ops where "mapE expandLiteralCollections args = Inr ops"
    "expandMacro op ops = Inr (Some e') \<or> expandSizeComparison op ops = Some e' \<or> e' = Expression op ops"
  using assms by (auto simp: bindE_eq_Inr split: option.splits)

lemma expand_wellformed:
  "wellformed e \<Longrightarrow> expandLiteralCollections e = Inr e' \<Longrightarrow> wellformed e'"
proof (induction "size e" arbitrary: e e' rule: less_induct)
  case less
  show ?case
  proof (cases e)
    case (Expression op args)
    obtain ops where ops: "mapE expandLiteralCollections args = Inr ops"
      and e': "expandMacro op ops = Inr (Some e') \<or> expandSizeComparison op ops = Some e' \<or> e' = Expression op ops"
      using expand_node_cases [OF less(3) [unfolded Expression]] by blast
    have "wellformed (Expression op ops)"
    proof (cases rule: lambda_parts_cases [of op args])
      case (macro c body x)
      have wf: "wellformed c" "wellformed body" "dot \<notin> set x" using less(2) macro(1) by (simp_all add: Expression)
      obtain c' body' where o: "ops = [c', Expression ''lambda'' [body', Variable x]]" "expandLiteralCollections c = Inr c'"
        "expandLiteralCollections body = Inr body'"
        using ops expand_lambda by (auto simp: macro(2) bindE_eq_Inr simp del: expandLiteralCollections.simps)
      have "wellformed c'" by (rule less(1) [OF _ wf(1) o(2)]) (simp add: Expression macro(2))
      moreover have "wellformed body'" by (rule less(1) [OF _ wf(2) o(3)]) (simp add: Expression macro(2))
      ultimately show ?thesis using wf(3) macro(3) by (simp add: o(1))
    next
      case plain
      have wf: "op \<noteq> ''lambda''" "\<forall>a \<in> set args. wellformed a" "op = ''struct'' \<longrightarrow> struct_shape args"
        using less(2) unfolding Expression wellformed_plain [OF plain] by blast+
      have "list_all2 (\<lambda>a a'. wellformed a' \<and> (\<forall>k. field_key a = Some k \<longrightarrow> field_key a' = Some k)) args ops"
        using ops unfolding mapE_ok_iff
      proof (rule list.rel_mono_strong, intro conjI)
        fix a a' assume a: "a \<in> set args" "expandLiteralCollections a = Inr a'"
        show "wellformed a'" by (rule less(1) [OF _ _ a(2)]) (use wf(2) a(1) size_operand_member [OF a(1), of op] in \<open>simp_all add: Expression\<close>)
        show "\<forall>k. field_key a = Some k \<longrightarrow> field_key a' = Some k" using field_key_expand a(2) by blast
      qed
      then have wf': "\<forall>a \<in> set ops. wellformed a"
        and keys: "list_all2 (\<lambda>a a'. \<forall>k. field_key a = Some k \<longrightarrow> field_key a' = Some k) args ops"
        by (induction rule: list_all2_induct) auto
      have "lambda_parts op ops = None" by (rule plain_no_lambda) (use wf' wellformed_no_lambda in blast)
      then show ?thesis using wf wf' struct_shape_related [OF keys] by (simp add: list_all_iff)
    qed
    then show ?thesis using e' expandMacro_wellformed expandSize_wellformed by blast
  qed (use less(2,3) in auto)
qed

lemma expand_cel:
  "wellformed e \<Longrightarrow> typed fn attr env e \<Longrightarrow> expandLiteralCollections e = Inr e' \<Longrightarrow>
     typed fn attr env e' \<and> cel fn attr env e' = cel fn attr env e"
proof (induction "size e" arbitrary: e e' env rule: less_induct)
  case less
  show ?case
  proof (cases e)
    case (Expression op args)
    obtain ops where ops: "mapE expandLiteralCollections args = Inr ops"
      and e': "expandMacro op ops = Inr (Some e') \<or> expandSizeComparison op ops = Some e' \<or> e' = Expression op ops"
      using expand_node_cases [OF less(4) [unfolded Expression]] by blast
    have node: "wellformed (Expression op ops) \<and> typed fn attr env (Expression op ops) \<and>
        cel fn attr env (Expression op ops) = cel fn attr env e"
    proof (cases rule: lambda_parts_cases [of op args])
      case (macro c body x)
      have wf: "wellformed c" "wellformed body" "dot \<notin> set x" using less(2) macro(1) by (simp_all add: Expression)
      obtain c' body' where o: "ops = [c', Expression ''lambda'' [body', Variable x]]" "expandLiteralCollections c = Inr c'"
        "expandLiteralCollections body = Inr body'"
        using ops expand_lambda by (auto simp: macro(2) bindE_eq_Inr simp del: expandLiteralCollections.simps)
      have ty: "typed fn attr env c" "\<And>xs item. items (cel fn attr env c) = Some xs \<Longrightarrow> item \<in> set xs \<Longrightarrow>
          typed fn attr ((x, item) # env) body \<and>
          (op = ''exists'' \<or> op = ''all'' \<longrightarrow> boolean_or_error (cel fn attr ((x, item) # env) body))"
        using less(3) unfolding Expression macro(2) typed_macro [OF macro(3)] by blast+
      have c: "typed fn attr env c' \<and> cel fn attr env c' = cel fn attr env c"
        by (rule less(1) [OF _ wf(1) ty(1) o(2)]) (simp add: Expression macro(2))
      have b: "typed fn attr ((x, item) # env) body' \<and> cel fn attr ((x, item) # env) body' = cel fn attr ((x, item) # env) body"
        if "items (cel fn attr env c) = Some xs" "item \<in> set xs" for item xs
        by (rule less(1) [OF _ wf(2) _ o(3)]) (use ty(2) [OF that] in \<open>simp_all add: Expression macro(2)\<close>)
      have "typed fn attr env (Expression op ops)" unfolding o(1) typed_macro [OF macro(3)] using c b ty(2) by auto
      moreover have "macro_value op (cel fn attr env c) (\<lambda>item. cel fn attr ((x, item) # env) body') =
          macro_value op (cel fn attr env c) (\<lambda>item. cel fn attr ((x, item) # env) body)"
        using b by (cases "items (cel fn attr env c)") (auto simp: macro_value_def Let_def cong: map_cong filter_cong)
      then have "cel fn attr env (Expression op ops) = cel fn attr env e"
        using c macro(1,3) by (simp add: o(1) Expression)
      moreover have "wellformed (Expression op ops)"
        using expand_wellformed [OF wf(1) o(2)] expand_wellformed [OF wf(2) o(3)] wf(3) macro(3) by (simp add: o(1))
      ultimately show ?thesis by blast
    next
      case plain
      have wf: "op \<noteq> ''lambda''" "\<forall>a \<in> set args. wellformed a" "op = ''struct'' \<longrightarrow> struct_shape args"
        using less(2) unfolding Expression wellformed_plain [OF plain] by blast+
      have ty: "\<forall>a \<in> set args. typed fn attr env a"
        "op = ''except'' \<longrightarrow> (case map (cel fn attr env) args of v # _ \<Rightarrow> subtractable v | _ \<Rightarrow> True)"
        using less(3) unfolding Expression typed_plain [OF plain] by blast+
      have "list_all2 (\<lambda>a a'. (wellformed a' \<and> typed fn attr env a' \<and> cel fn attr env a' = cel fn attr env a) \<and>
          (\<forall>k. field_key a = Some k \<longrightarrow> field_key a' = Some k)) args ops"
        using ops unfolding mapE_ok_iff
      proof (rule list.rel_mono_strong)
        fix a a' assume a: "a \<in> set args" "expandLiteralCollections a = Inr a'"
        have "typed fn attr env a' \<and> cel fn attr env a' = cel fn attr env a"
          by (rule less(1) [OF _ _ _ a(2)]) (use wf(2) ty(1) a(1) size_operand_member [OF a(1), of op] in \<open>simp_all add: Expression\<close>)
        then show "(wellformed a' \<and> typed fn attr env a' \<and> cel fn attr env a' = cel fn attr env a) \<and>
          (\<forall>k. field_key a = Some k \<longrightarrow> field_key a' = Some k)"
          using expand_wellformed [OF _ a(2)] wf(2) a(1) field_key_expand a(2) by blast
      qed
      then have wf': "\<forall>a \<in> set ops. wellformed a \<and> typed fn attr env a" and vals: "map (cel fn attr env) ops = map (cel fn attr env) args"
        and keys: "list_all2 (\<lambda>a a'. \<forall>k. field_key a = Some k \<longrightarrow> field_key a' = Some k) args ops"
        by (induction rule: list_all2_induct) auto
      have p: "lambda_parts op ops = None" by (rule plain_no_lambda) (use wf' wellformed_no_lambda in blast)
      have "typed fn attr env (Expression op ops)" unfolding typed_plain [OF p] vals using wf' ty(2) by blast
      moreover have "wellformed (Expression op ops)" unfolding wellformed_plain [OF p] using wf wf' struct_shape_related [OF keys] by blast
      ultimately show ?thesis using p plain vals by (simp add: Expression del: typed.simps(1) wellformed.simps(2))
    qed
    then show ?thesis using e' expandMacro_exact expandSize_exact by metis
  qed (use less(2,3,4) in auto)
qed

subsection \<open>Property\<close>

text \<open>
  C35. Expanding a macro over a literal list keeps the CEL value of the plan, errors included, when the
  expansion does not refuse the plan: quantifiers become the connective of their bodies, \<open>exists_one\<close> and the
  size of a \<open>filter\<close> or \<open>except\<close> become a membership test of the value that is counted, and \<open>except\<close> against an
  emptiness threshold becomes a quantifier, whatever the duplicates of the list and the threshold. The plan
  is well-formed (\<open>wellformed\<close>): its constants are JSON values, a lambda stands only as the second operand of a macro
  and binds a name without a dot, and the fields of a struct literal have distinct constant string names other
  than \<open>__proto__\<close>. It is typed on the row (\<open>typed\<close>): the bodies of \<open>exists\<close> and \<open>all\<close> are booleans or errors for every
  element, so \<open>["a"].exists(t, t)\<close> is excluded, and the first operand of a plain \<open>except\<close> is neither a
  map nor a list with an error in it.
\<close>

theorem literal_expansion_exact:
  assumes "wellformed e" "typed fn attr env e" "expandLiteralCollections e = Inr e'"
  shows "cel fn attr env e' = cel fn attr env e"
  using expand_cel [OF assms] by blast

definition sample_count :: operand where
  "sample_count = Expression ''exists_one''
     [Value (VArr [VBool True, VBool False, VBool True]),
      Expression ''lambda'' [Expression ''eq'' [Variable (js ''t''), Variable (js ''f'')], Variable (js ''t'')]]"

text \<open>Of \<open>[true, false, true]\<close> exactly one equals \<open>f\<close> when \<open>f\<close> is false.\<close>

lemma sample_expanded:
  "expandLiteralCollections sample_count = Inr (Expression ''eq'' [Variable (js ''f''), Value (VBool False)])"
  by (simp add: sample_count_def expand_other bindE_def expandMacro_def expandSizeComparison_def sizeComparison_def literalMacro_def
      countMembership_def uniformComparison_def element_path_def sample_names same_value_zero_def strict_equals_def membership_of_def
      Let_def)

theorem literal_expansion_exact_witness:
  "cel (\<lambda>_ _. VError) (sample_row VNull) [] (Expression ''eq'' [Variable (js ''f''), Value (VBool False)]) =
   cel (\<lambda>_ _. VError) (sample_row VNull) [] sample_count"
proof (rule literal_expansion_exact [OF _ _ sample_expanded])
  show "wellformed sample_count"
    by (simp add: sample_count_def macro_names_def js_def dot_def)
  show "typed (\<lambda>_ _. VError) (sample_row VNull) [] sample_count"
    by (simp add: sample_count_def macro_names_def)
qed

end
