(* ===== verification/Prisma_Timestamp.thy ===== *)
theory Prisma_Timestamp
  imports Prisma_Evaluate
begin

text \<open>
  prisma/src/timestamp.ts: timestamp literals at the millisecond a Prisma \<open>DateTime\<close> carries, and timestamp
  arithmetic solved for the column. \<open>Date\<close> is that of ECMAScript; \<open>Date.parse\<close> reads a text of the pattern as V8
  does, digits past the millisecond dropped.
\<close>

subsection \<open>The \<open>Date\<close> of a day\<close>

text \<open>\<open>YearFromTime\<close>: the largest year that has begun, searched for downwards.\<close>

function year_down :: "int \<Rightarrow> int \<Rightarrow> int" where
  "year_down y day = (if day_from_year y \<le> day then y else year_down (y - 1) day)"
  by pat_completeness auto
termination
proof (relation "measure (\<lambda>(y, day). nat (day_from_year y - day))", goal_cases)
  case (2 y day)
  have "day_from_year (y - 1) < day_from_year y" using day_from_year_Suc [of "y - 1"] by (simp split: if_splits)
  then show ?case using 2 by simp
qed simp

declare year_down.simps [simp del]

definition year_of_day :: "int \<Rightarrow> int" where
  "year_of_day day = year_down (if day < 0 then 1970 else 1970 + day div 365) day"

definition month_of_day :: "int \<Rightarrow> int \<Rightarrow> int" where
  "month_of_day year n = hd (filter (\<lambda>m. month_offset year m \<le> n) [12, 11, 10, 9, 8, 7, 6, 5, 4, 3, 2, 1])"

text \<open>\<open>getUTCFullYear\<close>, \<open>getUTCMonth\<close> (from 1) and \<open>getUTCDate\<close>.\<close>

definition date_fields :: "int \<Rightarrow> int \<times> int \<times> int" where
  "date_fields day =
     (let year = year_of_day day; n = day - day_from_year year; month = month_of_day year n
      in (year, month, n - month_offset year month + 1))"

text \<open>\<open>setUTCFullYear\<close>: a month outside the year carries over.\<close>

definition setUTCFullYear :: "int \<Rightarrow> int \<Rightarrow> int \<Rightarrow> int" where
  "setUTCFullYear year month day = make_day (year + (month - 1) div 12) ((month - 1) mod 12 + 1) day"

definition toISOString :: "int \<Rightarrow> jstring" where
  "toISOString millis =
     (let (y, mo, d) = date_fields (millis div 86400000); t = millis mod 86400000
      in pad_digits 4 (nat y) @ 45 # pad_digits 2 (nat mo) @ 45 # pad_digits 2 (nat d) @ 84 #
         pad_digits 2 (nat (t div 3600000)) @ 58 # pad_digits 2 (nat (t div 60000 mod 60)) @ 58 #
         pad_digits 2 (nat (t div 1000 mod 60)) @ 46 # pad_digits 3 (nat (t mod 1000)) @ [90])"

subsection \<open>Literals\<close>

definition MIN_INSTANT :: int where "MIN_INSTANT = - 62135596800000"
definition MAX_INSTANT :: int where "MAX_INSTANT = 253402300799999"

text \<open>Two digits no greater than \<open>high\<close>: \<open>[01]\d|2[0-3]\<close> and \<open>[0-5]\d\<close>.\<close>

definition take_field :: "nat \<Rightarrow> jstring \<Rightarrow> (jstring \<times> jstring) option" where
  "take_field high s =
     (case take_digits 2 s of
        Some (d, r) \<Rightarrow> if digits_val d \<le> high then Some (d, r) else None
      | None \<Rightarrow> None)"

definition match_offset :: "jstring \<Rightarrow> (bool \<times> jstring \<times> jstring) option option" where
  "match_offset s =
     (if s = [90] \<or> s = [122] then Some None
      else case s of
        sign # r \<Rightarrow>
          if sign = 43 \<or> sign = 45 then
            do { (h, r) \<leftarrow> take_field 23 r; r \<leftarrow> expect 58 r; (m, r) \<leftarrow> take_field 59 r;
                 if r = [] then Some (Some (sign = 43, h, m)) else None }
          else None
      | [] \<Rightarrow> None)"

text \<open>\<open>RFC3339_MILLISECOND_TIMESTAMP\<close>.\<close>

definition match_instant :: "jstring \<Rightarrow> rfc3339 option" where
  "match_instant s =
     do { (y, s) \<leftarrow> take_digits 4 s; s \<leftarrow> (if y = js ''0000'' then None else expect 45 s);
          (mo, s) \<leftarrow> take_digits 2 s; s \<leftarrow> expect 45 s;
          (d, s) \<leftarrow> take_digits 2 s;
          s \<leftarrow> (case expect 84 s of Some r \<Rightarrow> Some r | None \<Rightarrow> expect 116 s);
          (h, s) \<leftarrow> take_field 23 s; s \<leftarrow> expect 58 s;
          (mi, s) \<leftarrow> take_field 59 s; s \<leftarrow> expect 58 s;
          (sec, s) \<leftarrow> take_field 59 s;
          (fr, s) \<leftarrow> match_fraction s;
          z \<leftarrow> match_offset s;
          Some \<lparr>yearPart = y, monthPart = mo, dayPart = d, hourPart = h, minutePart = mi,
                secondPart = sec, fractionPart = fr, zonePart = z\<rparr> }"

text \<open>\<open>Date.parse\<close> of a matched text, \<open>None\<close> for \<open>NaN\<close>.\<close>

definition date_parse :: "rfc3339 \<Rightarrow> int option" where
  "date_parse m =
     (case (date_millis (int (digits_val (yearPart m))) (int (digits_val (monthPart m))) (int (digits_val (dayPart m)))
              (int (digits_val (hourPart m))) (int (digits_val (minutePart m))) (int (digits_val (secondPart m))),
            zone_offset_minutes (zonePart m)) of
        (Some t, Some offset) \<Rightarrow>
          Some (t + int (digits_val (take 3 (case_option [] id (fractionPart m) @ js ''000''))) - offset * 60000)
      | _ \<Rightarrow> None)"

definition parseRfc3339Instant :: "jstring \<Rightarrow> problem + jstring \<times> bool" where
  "parseRfc3339Instant val =
     (case match_instant val of
        None \<Rightarrow> refuse ''Invalid RFC 3339 timestamp value''
      | Some m \<Rightarrow>
          let fraction = case_option [] id (fractionPart m);
              subMillisecond = list_ex (\<lambda>digit. digit \<noteq> 48) (drop 3 fraction);
              year = int (digits_val (yearPart m)); month = int (digits_val (monthPart m)); day = int (digits_val (dayPart m))
          in if date_fields (setUTCFullYear year month day) \<noteq> (year, month, day)
             then refuse ''Invalid RFC 3339 timestamp value''
             else case date_parse m of
               None \<Rightarrow> refuse ''Invalid RFC 3339 timestamp value''
             | Some milliseconds \<Rightarrow>
                 if milliseconds < MIN_INSTANT \<or> milliseconds > MAX_INSTANT
                 then refuse ''outside CEL's supported instant range''
                 else let rounded = (if subMillisecond then milliseconds + 1 else milliseconds)
                      in if rounded > MAX_INSTANT then refuse ''outside CEL's supported instant range''
                         else Inr (toISOString rounded, subMillisecond))"

definition normalizeRfc3339Milliseconds :: "jstring \<Rightarrow> problem + jstring" where
  "normalizeRfc3339Milliseconds val =
     bindE (parseRfc3339Instant val) (\<lambda>(isoText, subMillisecond).
       if subMillisecond then refuse ''exceeds millisecond precision'' else Inr isoText)"

definition roundSubMillisecond :: "string \<Rightarrow> string option" where
  "roundSubMillisecond op =
     (if op = ''lt'' \<or> op = ''le'' then Some ''lt''
      else if op = ''gt'' \<or> op = ''ge'' then Some ''ge''
      else None)"

subsection \<open>Timestamp arithmetic, solved for the column\<close>

text \<open>\<open>timestamp(column)\<close>.\<close>

definition isTimestampColumn :: "operand \<Rightarrow> bool" where
  "isTimestampColumn operand =
     (case operand of Expression op [column] \<Rightarrow> op = ''timestamp'' \<and> isNamedOperand column | _ \<Rightarrow> False)"

definition isTemporalArithmetic :: "operand \<Rightarrow> bool" where
  "isTemporalArithmetic operand =
     (case operand of
        Expression op args \<Rightarrow> op = ''timeSince'' \<or> (op = ''add'' \<or> op = ''sub'') \<and> list_ex isTimestampColumn args
      | _ \<Rightarrow> False)"

text \<open>The one string operand of a constructor.\<close>

definition literal_text :: "string \<Rightarrow> operand \<Rightarrow> jstring option" where
  "literal_text constructor operand =
     (case operand of
        Expression op [Value (VStr s)] \<Rightarrow> if op = constructor then Some s else None
      | _ \<Rightarrow> None)"

text \<open>\<open>PROTOBUF_DURATION\<close>: sign, whole seconds, fraction.\<close>

definition match_duration :: "jstring \<Rightarrow> (bool \<times> jstring \<times> jstring) option" where
  "match_duration text =
     (let negative = (take 1 text = [45]);
          s = (if negative then drop 1 text else text);
          whole = takeWhile is_digit s; rest = dropWhile is_digit s
      in if whole = [] then None
         else case match_fraction rest of
           Some (fr, r) \<Rightarrow> if r = [115] then Some (negative, whole, case_option [] id fr) else None
         | None \<Rightarrow> None)"

text \<open>
  The seconds are read exactly here: a value past \<open>2^53\<close>, which \<open>Number\<close> rounds, stays past it and is not a
  safe integer either way.
\<close>

definition durationMilliseconds :: "operand \<Rightarrow> int option" where
  "durationMilliseconds operand =
     (case literal_text ''duration'' operand of
        None \<Rightarrow> None
      | Some text \<Rightarrow>
          (case match_duration text of
             None \<Rightarrow> None
           | Some (negative, whole, fr) \<Rightarrow>
               let fraction = fr @ replicate (9 - length fr) 48;
                   milliseconds = int (digits_val whole) * 1000 + int (digits_val (take 3 fraction))
               in if drop 3 fraction \<noteq> js ''000000'' \<or> milliseconds > max_safe then None
                  else Some (if negative then - milliseconds else milliseconds)))"

text \<open>\<open>Date.parse(iso)\<close> of the text \<open>parseRfc3339Instant\<close> returns.\<close>

definition instantMilliseconds :: "operand \<Rightarrow> int option" where
  "instantMilliseconds operand =
     (case literal_text ''timestamp'' operand of
        None \<Rightarrow> None
      | Some text \<Rightarrow>
          (case parseRfc3339Instant text of
             Inl _ \<Rightarrow> None
           | Inr (isoText, subMillisecond) \<Rightarrow>
               if subMillisecond then None
               else case match_instant isoText of Some m \<Rightarrow> date_parse m | None \<Rightarrow> None))"

definition instantLiteral :: "int \<Rightarrow> operand option" where
  "instantLiteral milliseconds =
     (if milliseconds < MIN_INSTANT \<or> milliseconds > MAX_INSTANT then None
      else Some (Expression ''timestamp'' [Value (VStr (toISOString milliseconds))]))"

definition compareInstant :: "string \<Rightarrow> operand \<Rightarrow> operand \<Rightarrow> operand" where
  "compareInstant op column instant = Expression op [column, instant]"

text \<open>The column and the duration of \<open>timestamp(x) + duration(d)\<close>, in the orders the operator allows.\<close>

definition shifted_column :: "string \<Rightarrow> operand list \<Rightarrow> (operand \<times> int) option" where
  "shifted_column op args =
     (case args of
        [a, b] \<Rightarrow>
          if isTimestampColumn a \<and> durationMilliseconds b \<noteq> None then map_option (Pair a) (durationMilliseconds b)
          else if op = ''add'' \<and> isTimestampColumn b then map_option (Pair b) (durationMilliseconds a)
          else None
      | _ \<Rightarrow> None)"

text \<open>The comparison with the arithmetic on its left.\<close>

definition solve_temporal :: "operand \<Rightarrow> operand \<Rightarrow> string \<Rightarrow> bool \<Rightarrow> int \<Rightarrow> operand option" where
  "solve_temporal left right operator positive now =
     (case left of
        Expression lop largs \<Rightarrow>
          if lop = ''timeSince'' then
            (case (largs, durationMilliseconds right) of
               ([column], Some duration) \<Rightarrow>
                 if isTimestampColumn column then
                   map_option (compareInstant (mirrorOperator operator) column) (instantLiteral (now - duration))
                 else None
             | _ \<Rightarrow> None)
          else if lop \<noteq> ''add'' \<and> lop \<noteq> ''sub'' then None
          else (case (shifted_column lop largs, instantMilliseconds right) of
            (Some (column, duration), Some instant) \<Rightarrow>
              let shift = (if lop = ''add'' then duration else - duration) in
              (case instantLiteral (instant - shift) of
                 None \<Rightarrow> None
               | Some bound \<Rightarrow>
                   let solved = compareInstant operator column bound in
                   if shift = 0 then Some solved
                   else (case instantLiteral (if shift > 0 then MAX_INSTANT - shift else MIN_INSTANT - shift) of
                     None \<Rightarrow> None
                   | Some limit \<Rightarrow>
                       let inRange = compareInstant (if shift > 0 then ''le'' else ''ge'') column limit
                       in Some (if positive then Expression ''and'' [solved, inRange]
                                else Expression ''or'' [solved, Expression ''not'' [inRange]])))
          | _ \<Rightarrow> None)
      | _ \<Rightarrow> None)"

definition rewriteTemporalComparison :: "string \<Rightarrow> operand list \<Rightarrow> bool \<Rightarrow> int \<Rightarrow> operand option" where
  "rewriteTemporalComparison op args positive now =
     (case args of
        [l, r] \<Rightarrow>
          if op \<notin> set COMPARISON_OPERATORS then None
          else if \<not> isTemporalArithmetic l \<and> isTemporalArithmetic r
          then solve_temporal r l (mirrorOperator op) positive now
          else solve_temporal l r op positive now
      | _ \<Rightarrow> None)"


subsection \<open>Reading a date back\<close>

lemma day_from_year_strict: "a < b \<Longrightarrow> day_from_year a < day_from_year b"
  using day_from_year_mono [of "a + 1" b] day_from_year_Suc [of a] by (simp split: if_splits)

lemma year_down_correct:
  "day < day_from_year (y + 1) \<Longrightarrow> day_from_year (year_down y day) \<le> day \<and> day < day_from_year (year_down y day + 1)"
proof (induction y day rule: year_down.induct)
  case (1 y day)
  show ?case
  proof (cases "day_from_year y \<le> day")
    case True
    then show ?thesis using 1(2) by (simp add: year_down.simps [of y])
  next
    case False
    then show ?thesis using 1(1) [OF False] by (simp add: year_down.simps [of y])
  qed
qed

lemma day_from_year_ge: "0 \<le> k \<Longrightarrow> 365 * k \<le> day_from_year (1970 + k)"
proof (induction k rule: int_ge_induct)
  case (step k)
  then show ?case using day_from_year_Suc [of "1970 + k"] by (simp add: add.assoc split: if_splits)
qed (simp add: day_from_year_def)

lemma year_of_day_correct: "day_from_year (year_of_day day) \<le> day \<and> day < day_from_year (year_of_day day + 1)"
  unfolding year_of_day_def
proof (rule year_down_correct)
  show "day < day_from_year ((if day < 0 then 1970 else 1970 + day div 365) + 1)"
  proof (cases "day < 0")
    case False
    then have "365 * (day div 365 + 1) \<le> day_from_year (1970 + (day div 365 + 1))" by (intro day_from_year_ge) simp
    moreover have "day < 365 * (day div 365 + 1)" by (simp add: ring_distribs)
    ultimately show ?thesis using False by (simp add: add.assoc)
  qed (simp add: day_from_year_def)
qed

lemma year_of_day_unique:
  assumes "day_from_year y \<le> day" "day < day_from_year (y + 1)"
  shows "year_of_day day = y"
proof (rule ccontr)
  assume "year_of_day day \<noteq> y"
  then consider "year_of_day day + 1 \<le> y" | "y + 1 \<le> year_of_day day" by linarith
  then show False using assms year_of_day_correct [of day] day_from_year_mono by cases fastforce+
qed

lemma year_length: "day_from_year (y + 1) = day_from_year y + (month_offset y 12 + 31)"
  using day_from_year_Suc [of y] daysInMonth_12 [of y] by simp

text \<open>The months of a year start in order.\<close>

lemma month_offsets:
  "month_offset y 1 = 0" "month_offset y 2 = 31" "month_offset y 3 = (if isLeapYear y then 60 else 59)"
  "month_offset y 4 = month_offset y 3 + 31" "month_offset y 5 = month_offset y 3 + 61"
  "month_offset y 6 = month_offset y 3 + 92" "month_offset y 7 = month_offset y 3 + 122"
  "month_offset y 8 = month_offset y 3 + 153" "month_offset y 9 = month_offset y 3 + 184"
  "month_offset y 10 = month_offset y 3 + 214" "month_offset y 11 = month_offset y 3 + 245"
  "month_offset y 12 = month_offset y 3 + 275"
  by (simp_all add: month_offset_def)

lemma month_lengths:
  "daysInMonth y 1 = 31" "daysInMonth y 2 = (if isLeapYear y then 29 else 28)" "daysInMonth y 3 = 31" "daysInMonth y 4 = 30"
  "daysInMonth y 5 = 31" "daysInMonth y 6 = 30" "daysInMonth y 7 = 31" "daysInMonth y 8 = 31"
  "daysInMonth y 9 = 30" "daysInMonth y 10 = 31" "daysInMonth y 11 = 30" "daysInMonth y 12 = 31"
  by (simp_all add: daysInMonth_def)

lemma month_of_day_unique:
  assumes "1 \<le> m" "m \<le> 12" "month_offset y m \<le> n" "n < month_offset y m + daysInMonth y m"
  shows "month_of_day y n = m"
proof -
  have r: "month_offset y 3 = (if isLeapYear y then 60 else 59)" by (rule month_offsets)
  show ?thesis using assms(3,4)
    by - (rule month_cases [OF assms(1,2)]; simp only: month_of_day_def month_offsets(4-12) month_offsets(1,2) month_lengths r filter.simps; simp split: if_splits)
qed

lemma date_fields_make_day:
  assumes "1 \<le> m" "m \<le> 12" "1 \<le> d" "d \<le> daysInMonth y m"
  shows "date_fields (make_day y m d) = (y, m, d)"
proof -
  define n where "n = month_offset y m + (d - 1)"
  have day: "make_day y m d = day_from_year y + n" by (simp add: make_day_def n_def)
  have "0 \<le> month_offset y m \<and> month_offset y m + daysInMonth y m \<le> month_offset y 12 + 31"
    by (rule month_cases [OF assms(1,2)]) (simp_all only: month_offsets month_lengths, simp_all)
  then have "0 \<le> n" "n < month_offset y 12 + 31" using assms by (auto simp: n_def)
  then have "year_of_day (make_day y m d) = y" by (intro year_of_day_unique) (simp_all add: day year_length)
  moreover have "month_of_day y n = m" by (rule month_of_day_unique) (use assms in \<open>simp_all add: n_def\<close>)
  ultimately show ?thesis by (simp add: date_fields_def day Let_def) (simp add: n_def)
qed

lemma some_month:
  "1 \<le> m \<Longrightarrow> m \<le> 12 \<Longrightarrow> 0 \<le> n \<Longrightarrow> n < month_offset y m + daysInMonth y m \<Longrightarrow>
     \<exists>k \<ge> 1. k \<le> m \<and> month_offset y k \<le> n \<and> n < month_offset y k + daysInMonth y k"
proof (induction m rule: int_ge_induct)
  case base
  then show ?case by (intro exI [of _ 1]) (simp add: daysInMonth_12)
next
  case (step m)
  show ?case
  proof (cases "n < month_offset y m + daysInMonth y m")
    case True
    then show ?thesis using step by force
  next
    case False
    then show ?thesis using step month_offset_Suc [of m y] by (intro exI [of _ "m + 1"]) simp
  qed
qed

lemma date_fields_valid:
  assumes "date_fields day = (y, m, d)"
  shows "1 \<le> m \<and> m \<le> 12 \<and> 1 \<le> d \<and> d \<le> daysInMonth y m \<and> make_day y m d = day"
proof -
  define n where "n = day - day_from_year (year_of_day day)"
  have y: "y = year_of_day day" "m = month_of_day y n" "d = n - month_offset y m + 1"
    using assms by (auto simp: date_fields_def Let_def n_def)
  have n: "0 \<le> n" "n < month_offset y 12 + 31" using year_of_day_correct [of day] by (simp_all add: n_def y(1) [symmetric] year_length)
  have "n < month_offset y 12 + daysInMonth y 12" using n(2) by (simp add: daysInMonth_12)
  then obtain k where k: "1 \<le> k" "k \<le> 12" "month_offset y k \<le> n" "n < month_offset y k + daysInMonth y k"
    using some_month [of 12 n y] n(1) by auto
  have "m = k" unfolding y(2) by (rule month_of_day_unique [OF k])
  then show ?thesis using k y by (simp add: make_day_def n_def)
qed


subsection \<open>The texts \<open>toISOString\<close> writes\<close>

lemma match_fraction_pads:
  assumes "1 \<le> k" "k \<le> 9"
  shows "match_fraction (46 # pad_digits k n @ [90]) = Some (Some (pad_digits k n), [90])"
proof -
  have "takeWhile is_digit (pad_digits k n @ [90]) = pad_digits k n"
    "dropWhile is_digit (pad_digits k n @ [90]) = [90]"
    using pad_is_digit by (simp_all add: takeWhile_append2 dropWhile_append2 is_digit_def)
  then show ?thesis using assms by (simp add: match_fraction_def)
qed

lemma take_field_pad: "n \<le> high \<Longrightarrow> n < 100 \<Longrightarrow> take_field high (pad_digits 2 n @ s) = Some (pad_digits 2 n, s)"
  by (simp add: take_field_def digits_val_pad)

lemma digits_val_zeros: "digits_val (s @ replicate k 48) = digits_val s * 10 ^ k"
proof (induction k)
  case (Suc k)
  have "digits_val (s @ replicate (Suc k) 48) = digits_val ((s @ replicate k 48) @ [48])"
    by (simp flip: replicate_append_same)
  also have "\<dots> = 10 * digits_val (s @ replicate k 48)" by (simp only: digits_val_snoc) (simp add: digit_val_def)
  finally show ?case using Suc by simp
qed simp

lemma clock_fields:
  fixes t :: int
  assumes "0 \<le> t" "t < 86400000"
  shows "t = t div 3600000 * 3600000 + t div 60000 mod 60 * 60000 + t div 1000 mod 60 * 1000 + t mod 1000"
    "t div 3600000 \<le> 23" "t div 60000 mod 60 \<le> 59" "t div 1000 mod 60 \<le> 59" "t mod 1000 \<le> 999"
    "0 \<le> t div 3600000" "0 \<le> t div 60000 mod 60" "0 \<le> t div 1000 mod 60" "0 \<le> t mod 1000"
proof -
  define a where "a = t div 1000"
  define b where "b = a div 60"
  have "t div 60000 = b" "t div 3600000 = b div 60"
    unfolding a_def b_def by (simp_all only: zdiv_zmult2_eq [symmetric]) simp_all
  moreover have "t = a * 1000 + t mod 1000" "a = b * 60 + a mod 60" "b = b div 60 * 60 + b mod 60"
    unfolding a_def b_def by (simp_all only: div_mult_mod_eq)
  ultimately show "t = t div 3600000 * 3600000 + t div 60000 mod 60 * 60000 + t div 1000 mod 60 * 1000 + t mod 1000"
    unfolding a_def [symmetric] by (simp only:)
  show "t div 3600000 \<le> 23" using zdiv_mono1 [of t 86399999 3600000] assms by simp
  show "0 \<le> t div 3600000" using assms by (simp add: pos_imp_zdiv_nonneg_iff)
  show "t div 60000 mod 60 \<le> 59" using pos_mod_bound [of 60 "t div 60000"] by simp
  show "t div 1000 mod 60 \<le> 59" using pos_mod_bound [of 60 "t div 1000"] by simp
  show "t mod 1000 \<le> 999" using pos_mod_bound [of 1000 t] by simp
  show "0 \<le> t div 60000 mod 60" "0 \<le> t div 1000 mod 60" "0 \<le> t mod 1000" by simp_all
qed

definition iso_fields :: "int \<Rightarrow> rfc3339" where
  "iso_fields millis =
     (let (y, mo, d) = date_fields (millis div 86400000); t = millis mod 86400000
      in \<lparr>yearPart = pad_digits 4 (nat y), monthPart = pad_digits 2 (nat mo), dayPart = pad_digits 2 (nat d),
          hourPart = pad_digits 2 (nat (t div 3600000)), minutePart = pad_digits 2 (nat (t div 60000 mod 60)),
          secondPart = pad_digits 2 (nat (t div 1000 mod 60)), fractionPart = Some (pad_digits 3 (nat (t mod 1000))),
          zonePart = None\<rparr>)"

lemma iso_text:
  assumes "MIN_INSTANT \<le> millis" "millis \<le> MAX_INSTANT"
  shows "match_instant (toISOString millis) = Some (iso_fields millis)"
    "match_rfc3339 (toISOString millis) = Some (iso_fields millis)"
    "date_parse (iso_fields millis) = Some millis"
    "parseRfc3339Timestamp (toISOString millis) = VBig (millis * 1000000)"
proof -
  define day t where "day = millis div 86400000" and "t = millis mod 86400000"
  obtain y mo d where f: "date_fields day = (y, mo, d)" by (metis prod_cases3)
  note D = date_fields_valid [OF f]
  have day: "- 719162 \<le> day" "day \<le> 2932896" using assms by (simp_all add: day_def MIN_INSTANT_def MAX_INSTANT_def)
  have dy: "day_from_year 1 = - 719162" "day_from_year 10000 = 2932897" by (simp_all add: day_from_year_def)
  have yy: "y = year_of_day day" using f by (auto simp: date_fields_def Let_def)
  have y1: "1 \<le> y"
  proof (rule ccontr)
    assume "\<not> 1 \<le> y"
    then have "day_from_year (y + 1) \<le> day_from_year 1" by (intro day_from_year_mono) simp
    then show False using year_of_day_correct [of day] day dy by (simp add: yy)
  qed
  have y2: "y \<le> 9999"
  proof (rule ccontr)
    assume "\<not> y \<le> 9999"
    then have "day_from_year 10000 \<le> day_from_year y" by (intro day_from_year_mono) simp
    then show False using year_of_day_correct [of day] day dy by (simp add: yy)
  qed
  have d31: "d \<le> 31" using D by - (rule month_cases [of mo], auto simp: month_lengths split: if_splits)
  define h mi sc ms where "h = t div 3600000" and "mi = t div 60000 mod 60" and "sc = t div 1000 mod 60" and "ms = t mod 1000"
  have "0 \<le> t" "t < 86400000" by (simp_all add: t_def)
  note C = clock_fields [OF this, folded h_def mi_def sc_def ms_def]
  have millis: "millis = day * 86400000 + t" by (simp add: day_def t_def)
  have tx: "toISOString millis = pad_digits 4 (nat y) @ 45 # pad_digits 2 (nat mo) @ 45 # pad_digits 2 (nat d) @ 84 #
         pad_digits 2 (nat h) @ 58 # pad_digits 2 (nat mi) @ 58 # pad_digits 2 (nat sc) @ 46 # pad_digits 3 (nat ms) @ [90]"
    by (simp add: toISOString_def day_def [symmetric] t_def [symmetric] f h_def mi_def sc_def ms_def)
  have fi: "iso_fields millis = \<lparr>yearPart = pad_digits 4 (nat y), monthPart = pad_digits 2 (nat mo), dayPart = pad_digits 2 (nat d),
          hourPart = pad_digits 2 (nat h), minutePart = pad_digits 2 (nat mi),
          secondPart = pad_digits 2 (nat sc), fractionPart = Some (pad_digits 3 (nat ms)), zonePart = None\<rparr>"
    by (simp add: iso_fields_def day_def [symmetric] t_def [symmetric] f h_def mi_def sc_def ms_def)
  have v: "int (digits_val (pad_digits 4 (nat y))) = y" "int (digits_val (pad_digits 2 (nat mo))) = mo" "int (digits_val (pad_digits 2 (nat d))) = d"
    "int (digits_val (pad_digits 2 (nat h))) = h" "int (digits_val (pad_digits 2 (nat mi))) = mi" "int (digits_val (pad_digits 2 (nat sc))) = sc"
    "int (digits_val (pad_digits 3 (nat ms))) = ms"
    using D d31 y1 y2 C by (simp_all add: digits_val_pad nat_less_iff)
  have ny: "pad_digits 4 (nat y) \<noteq> js ''0000''"
  proof
    assume "pad_digits 4 (nat y) = js ''0000''"
    then have "y = 0" using v(1) by (simp add: js_def digits_val_def digit_val_def)
    then show False using y1 by simp
  qed
  note three = match_fraction_pads [of 3 "nat ms", simplified]
  show "match_instant (toISOString millis) = Some (iso_fields millis)"
    using ny C by (simp add: match_instant_def tx fi take_field_pad nat_le_iff nat_less_iff three match_offset_def)
  show rfc: "match_rfc3339 (toISOString millis) = Some (iso_fields millis)"
    by (simp add: match_rfc3339_def tx fi three match_zone_def)
  have t: "make_day y mo d * 86400000 + h * 3600000 + mi * 60000 + sc * 1000 + ms = millis"
    using D C(1) millis by simp
  have small: "\<bar>make_day y mo d * 86400000 + h * 3600000 + mi * 60000 + sc * 1000\<bar> \<le> 8640000000000000"
    using t C assms by (simp add: MIN_INSTANT_def MAX_INSTANT_def)
  then have dm: "date_millis y mo d h mi sc = Some (millis - ms)" using t by (simp add: date_millis_def Let_def)
  show "date_parse (iso_fields millis) = Some millis"
    by (simp add: date_parse_def fi v dm zone_offset_minutes_def)
  have fn: "fraction_nanos (Some (pad_digits 3 (nat ms))) = ms * 1000000"
    using v(7) digits_val_zeros [of "pad_digits 3 (nat ms)" 6] by (simp add: fraction_nanos_def)
  show "parseRfc3339Timestamp (toISOString millis) = VBig (millis * 1000000)"
    unfolding parseRfc3339Timestamp_def rfc option.simps fi rfc3339.simps v Let_def dm fn
    using D y1 y2 C assms by (simp add: zone_offset_minutes_def MIN_TIMESTAMP_NANOS_def MAX_TIMESTAMP_NANOS_def MIN_INSTANT_def MAX_INSTANT_def algebra_simps)
qed

end
