(* ===== verification/Prisma_Temporal.thy ===== *)
theory Prisma_Temporal
  imports Prisma_Timestamp Prisma_Solve
begin

text \<open>
  What timestamp.ts promises: the instant read from a literal is CEL's, rounded up to the millisecond, a
  comparison against a rounded instant decides as the exact one does for every value a \<open>DateTime\<close> column can
  carry, and timestamp arithmetic solved for the column grants the same rows under either polarity.
\<close>

subsection \<open>The pattern of the adapter and the pattern of CEL\<close>

lemma take_field_digits: "take_field high s = Some p \<Longrightarrow> take_digits 2 s = Some p"
  by (auto simp: take_field_def split: option.splits if_splits)

lemma match_offset_zone: "match_offset s = Some z \<Longrightarrow> match_zone s = Some z' \<Longrightarrow> z = z'"
  by (auto simp: match_offset_def match_zone_def split: if_splits list.splits option.splits bind_splits dest!: take_field_digits)

lemma match_instant_cel: "match_instant s = Some m \<Longrightarrow> match_rfc3339 s = Some m' \<Longrightarrow> m = m'"
  by (auto simp: match_instant_def match_rfc3339_def split: bind_splits if_splits option.splits
      dest!: take_field_digits)
    (rule match_offset_zone)

lemma match_fraction_shape: "match_fraction s = Some (Some d, r) \<Longrightarrow> list_all is_digit d \<and> length d \<le> 9"
  by (auto simp: match_fraction_def Let_def list_all_iff split: option.splits if_splits dest: set_takeWhileD)

lemma match_instant_fraction:
  "match_instant s = Some m \<Longrightarrow>
     list_all is_digit (case_option [] id (fractionPart m)) \<and> length (case_option [] id (fractionPart m)) \<le> 9"
  by (auto simp: match_instant_def split: bind_splits if_splits option.splits dest!: match_fraction_shape)

subsection \<open>Digits past the millisecond\<close>

lemma digits_val_append: "digits_val (s @ t) = digits_val s * 10 ^ length t + digits_val t"
  using digits_val_fold [of "digits_val s" t] by (simp add: digits_val_def)

lemma digits_val_less: "list_all is_digit s \<Longrightarrow> digits_val s < 10 ^ length s"
proof (induction s rule: rev_induct)
  case (snoc c s)
  then show ?case by (auto simp: digits_val_snoc is_digit_def digit_val_def)
qed simp

lemma digit_val_eq_0: "is_digit c \<Longrightarrow> digit_val c = 0 \<longleftrightarrow> c = 48"
  by (auto simp: is_digit_def digit_val_def word_unat_eq_iff)

lemma digits_val_zero: "list_all is_digit s \<Longrightarrow> digits_val s = 0 \<longleftrightarrow> \<not> list_ex (\<lambda>d. d \<noteq> 48) s"
proof (induction s rule: rev_induct)
  case (snoc c s)
  then show ?case using digit_val_eq_0 [of c] by (auto simp: digits_val_snoc)
qed simp

lemma fraction_split:
  assumes "list_all is_digit fr" "length fr \<le> 9"
  obtains rest where "digits_val (fr @ replicate (9 - length fr) 48) = digits_val (take 3 (fr @ js ''000'')) * 1000000 + rest"
    "rest < 1000000" "rest = 0 \<longleftrightarrow> \<not> list_ex (\<lambda>d. d \<noteq> 48) (drop 3 fr)"
proof -
  define F where "F = fr @ replicate (9 - length fr) 48"
  have len: "length F = 9" using assms by (simp add: F_def)
  have t: "take 3 F = take 3 (fr @ js ''000'')"
  proof (cases "length fr \<le> 3")
    case True
    then have "take (3 - length fr) (replicate (9 - length fr) 48) = take (3 - length fr) (js ''000'')"
      by (auto simp: js_def numeral_3_eq_3 le_Suc_eq)
    then show ?thesis by (simp add: F_def)
  qed (simp add: F_def)
  have "list_ex (\<lambda>d. d \<noteq> 48) (drop 3 F) = list_ex (\<lambda>d. d \<noteq> 48) (drop 3 fr)"
    by (simp add: F_def list_ex_iff) auto
  moreover have "list_all is_digit F" using assms by (auto simp: F_def list_all_iff is_digit_def)
  then have d: "list_all is_digit (drop 3 F)" by (auto simp: list_all_iff dest: in_set_dropD)
  moreover have l: "length (drop 3 F) = 6" using len by simp
  ultimately show thesis
    using that [of "digits_val (drop 3 F)"] digits_val_append [of "take 3 F" "drop 3 F"]
      digits_val_less [OF d] digits_val_zero [OF d] unfolding l t [symmetric] F_def [symmetric] append_take_drop_id by simp
qed

lemma parse_instant_cel:
  assumes "parseRfc3339Instant s = Inr (text, sub)" "parseRfc3339Timestamp s = VBig n"
  obtains c where "MIN_INSTANT \<le> c" "c \<le> MAX_INSTANT" "text = toISOString c"
    "if sub then (c - 1) * 1000000 < n \<and> n < c * 1000000 else n = c * 1000000"
proof -
  obtain m where m: "match_instant s = Some m" using assms(1) by (auto simp: parseRfc3339Instant_def split: option.splits)
  define f where "f = case_option [] id (fractionPart m)"
  obtain p where p: "date_parse m = Some p" "MIN_INSTANT \<le> p" and sub: "sub = list_ex (\<lambda>d. d \<noteq> 48) (drop 3 f)"
    and c: "(if sub then p + 1 else p) \<le> MAX_INSTANT" "text = toISOString (if sub then p + 1 else p)"
    using assms(1) by (auto simp: parseRfc3339Instant_def m f_def Let_def split: option.splits if_splits)
  obtain m' where m': "match_rfc3339 s = Some m'" using assms(2) by (auto simp: parseRfc3339Timestamp_def split: option.splits)
  have eq: "m' = m" using match_instant_cel [OF m m'] by simp
  obtain t offset where t: "date_millis (int (digits_val (yearPart m))) (int (digits_val (monthPart m))) (int (digits_val (dayPart m)))
      (int (digits_val (hourPart m))) (int (digits_val (minutePart m))) (int (digits_val (secondPart m))) = Some t"
    "zone_offset_minutes (zonePart m) = Some offset"
    "n = (t - offset * 60000) * 1000000 + fraction_nanos (fractionPart m)"
    using assms(2) by (auto simp: parseRfc3339Timestamp_def m' eq Let_def split: option.splits if_splits)
  have shape: "list_all is_digit f" "length f \<le> 9" using match_instant_fraction [OF m] by (simp_all add: f_def)
  obtain rest where rest: "digits_val (f @ replicate (9 - length f) 48) = digits_val (take 3 (f @ js ''000'')) * 1000000 + rest"
    "rest < 1000000" "rest = 0 \<longleftrightarrow> \<not> sub" using fraction_split [OF shape] sub by metis
  have nanos: "fraction_nanos (fractionPart m) = int (digits_val (f @ replicate (9 - length f) 48))"
    by (cases "fractionPart m") (simp_all add: fraction_nanos_def f_def Let_def)
  have pt: "p = t + int (digits_val (take 3 (f @ js ''000''))) - offset * 60000"
    using p(1) by (simp add: date_parse_def t f_def)
  have n: "n = p * 1000000 + int rest" unfolding t(3) nanos rest(1) pt by simp
  show thesis
    using that [of "if sub then p + 1 else p"] p(2) c rest(2,3) n by (cases sub) (auto simp: algebra_simps)
qed

lemma parse_instant_text:
  assumes "MIN_INSTANT \<le> c" "c \<le> MAX_INSTANT"
  shows "timestamp_value (VStr (toISOString c)) = VTime (c * 1000000)"
  using iso_text(4) [OF assms] by simp

lemma between_multiples:
  fixes c :: int
  assumes "(c - 1) * unit < n" "n < c * unit" "0 < unit"
  shows "if a < c then a * unit < n else n < a * unit"
proof (cases "a < c")
  case True
  then have "a * unit \<le> (c - 1) * unit" using assms by (intro mult_right_mono) simp_all
  then show ?thesis using le_less_trans assms(1) True by auto
next
  case False
  then have "c * unit \<le> a * unit" using assms by (intro mult_right_mono) simp_all
  then show ?thesis using less_le_trans [OF assms(2)] False by simp
qed

text \<open>
  C38. A timestamp literal the adapter accepts is bound as the instant CEL reads from it; one between two
  milliseconds is bound as the later of them, and the operator \<open>roundSubMillisecond\<close> answers decides against
  that bound as the original decides against the literal, for every whole millisecond a column can hold. For an
  equality it answers none: \<open>eq\<close> never holds and \<open>ne\<close> always does.
\<close>

theorem millisecond_rounding_exact:
  assumes "parseRfc3339Instant s = Inr (text, sub)" "timestamp_value (VStr s) = VTime n" "comparison_of op = Some k"
  shows "compare_cel k (VTime (a * 1000000)) (VTime n) =
    (if sub then (case roundSubMillisecond op of
        None \<Rightarrow> VBool (op = ''ne'')
      | Some op' \<Rightarrow> compare_cel (the (comparison_of op')) (VTime (a * 1000000)) (timestamp_value (VStr text)))
     else compare_cel k (VTime (a * 1000000)) (timestamp_value (VStr text)))"
proof -
  have "parseRfc3339Timestamp s = VBig n" using assms(2) by (auto split: jsval.splits)
  from parse_instant_cel [OF assms(1) this] obtain c where c: "MIN_INSTANT \<le> c" "c \<le> MAX_INSTANT" "text = toISOString c"
    "if sub then (c - 1) * 1000000 < n \<and> n < c * 1000000 else n = c * 1000000" .
  note iso = parse_instant_text [OF c(1,2), folded c(3)]
  show ?thesis
  proof (cases sub)
    case True
    then have r: "(c - 1) * 1000000 < n" "n < c * 1000000" using c(4) by simp_all
    then have "a * 1000000 < n \<longleftrightarrow> a < c" "n < a * 1000000 \<longleftrightarrow> c \<le> a" "a * 1000000 \<noteq> n"
      using between_multiples [OF r, of a] by (auto split: if_splits)
    then show ?thesis using True assms(3) unfolding iso by (auto simp: roundSubMillisecond_def comparison_of.simps split: if_splits)
  next
    case False
    then show ?thesis using c(4) unfolding iso by simp
  qed
qed

lemma millisecond_rounding_exact_witness:
  "compare_cel Le (VTime (0 * 1000000)) (VTime 1) =
     compare_cel Lt (VTime (0 * 1000000)) (timestamp_value (VStr (js ''1970-01-01T00:00:00.001Z'')))"
proof -
  have "parseRfc3339Instant (js ''1970-01-01T00:00:00.000000001Z'') = Inr (js ''1970-01-01T00:00:00.001Z'', True)" by code_simp
  moreover have "timestamp_value (VStr (js ''1970-01-01T00:00:00.000000001Z'')) = VTime 1" by code_simp
  ultimately show ?thesis
    using millisecond_rounding_exact [where n = 1 and sub = True and op = "''le''" and k = Le and a = 0]
    by (simp add: comparison_of.simps roundSubMillisecond_def)
qed

subsection \<open>Durations\<close>

lemma scan_fraction_digits:
  assumes "list_all is_digit ds" "f < 10 ^ k" "k + length ds \<le> 9"
  shows "scan_fraction (int f) (Fin (10 ^ k)) False (ds @ [115]) =
    (int (f * 10 ^ length ds + digits_val ds), Fin (10 ^ (k + length ds)), [115])"
  using assms
proof (induction ds arbitrary: f k)
  case Nil
  then show ?case by (simp add: is_digit_def)
next
  case (Cons c ds)
  have k: "k \<le> 8" using Cons.prems(3) by simp
  have p: "(10::nat) ^ k \<le> 10 ^ 8" using k by (intro power_increasing) simp_all
  have c: "digit_val c < 10" using Cons.prems(1) by (auto simp: is_digit_def digit_val_def)
  have f: "int f * 10 + int (digit_val c) = int (f * 10 + digit_val c)" "int f \<le> 10 ^ 8" using Cons.prems(2) p by simp_all
  have "num_mul (Fin (10 ^ k)) (Fin 10) = num_of_int (10 ^ Suc k)"
    by (simp add: num_mul_def num_of_int_def mult.commute)
  also have "\<dots> = Fin (10 ^ Suc k)"
  proof -
    have "(10::int) ^ Suc k \<le> 10 ^ 9" using k by (intro power_increasing) simp_all
    then have "\<bar>(10::int) ^ Suc k\<bar> < 2 ^ 53" by simp
    then show ?thesis by (simp only: round64_int_exact) simp
  qed
  finally have sc: "num_mul (Fin (10 ^ k)) (Fin 10) = Fin (10 ^ Suc k)" .
  have "scan_fraction (int f) (Fin (10 ^ k)) False ((c # ds) @ [115]) =
      scan_fraction (int (f * 10 + digit_val c)) (Fin (10 ^ Suc k)) False (ds @ [115])"
    using Cons.prems(1) c f(2) unfolding f(1) [symmetric] by (simp add: sc Let_def INT64_MAX_def TWO_TO_63_def)
  also have "\<dots> = (int ((f * 10 + digit_val c) * 10 ^ length ds + digits_val ds), Fin (10 ^ (Suc k + length ds)), [115])"
  proof (rule Cons.IH)
    have "f * 10 + digit_val c < (f + 1) * 10" using c by simp
    also have "\<dots> \<le> 10 ^ k * 10" using Cons.prems(2) by (intro mult_right_mono) simp_all
    finally show "f * 10 + digit_val c < 10 ^ Suc k" by simp
  qed (use Cons.prems in simp_all)
  finally show ?case by (simp add: digits_val_Cons algebra_simps)
qed

lemma fraction_of_second:
  assumes "f < 10 ^ k" "k \<le> 9"
  shows "num_trunc (num_mul (num_of_int (int f)) (num_div (num_of_int 1000000000) (Fin (10 ^ k)))) = int f * 10 ^ (9 - k)"
proof -
  have ten: "(10::nat) ^ k * 10 ^ (9 - k) = 1000000000" using assms(2) by (simp flip: power_add)
  have e: "(10::int) ^ (9 - k) \<le> 10 ^ 9" by (intro power_increasing) simp_all
  have "f * 10 ^ (9 - k) < 10 ^ k * 10 ^ (9 - k)" using assms(1) by simp
  then have b: "f * 10 ^ (9 - k) < 1000000000" using ten by simp
  then have b': "int f * 10 ^ (9 - k) < 1000000000" 
    unfolding of_nat_less_iff [where 'a = int, symmetric] by simp
  have "10 ^ k \<le> (10::nat) ^ 9" using assms(2) by (intro power_increasing) simp_all
  then have f: "num_of_int (int f) = Fin (of_nat f)" using assms(1) by (subst round64_int_exact) simp_all
  have "1000000000 / (10::rat) ^ k = of_int (10 ^ (9 - k))"
    using assms(2) by (simp add: field_simps flip: power_add)
  moreover have n: "num_of_int (10 ^ (9 - k)) = Fin (of_int (10 ^ (9 - k)))"
    using e by (intro round64_int_exact) simp
  ultimately have d: "num_div (num_of_int 1000000000) (Fin (10 ^ k)) = Fin (of_int (10 ^ (9 - k)))"
    using n by (simp add: num_div_def round64_int_exact) (simp add: num_of_int_def)
  have "num_mul (Fin (of_nat f)) (Fin (of_int (10 ^ (9 - k)))) = num_of_int (int f * 10 ^ (9 - k))"
    by (cases "f = 0") (simp_all add: num_mul_def num_of_int_def signed_zero_def round64_def)
  also have "\<dots> = Fin (of_int (int f * 10 ^ (9 - k)))" using b' by (intro round64_int_exact) simp
  finally have "num_mul (num_of_int (int f)) (num_div (num_of_int 1000000000) (Fin (10 ^ k))) = Fin (of_int (int f * 10 ^ (9 - k)))"
    unfolding f d .
  moreover have "num_trunc (Fin (of_int z)) = z" for z by (simp add: num_trunc_def rat_trunc_def)
  ultimately show ?thesis by (simp only:)
qed

lemma parse_component_seconds:
  assumes "list_all is_digit whole" "whole \<noteq> []" "list_all is_digit fr" "length fr \<le> 9"
    and "parse_component (whole @ (if fr = [] then [115] else 46 # fr @ [115])) = Inr (Some (v, r))"
  shows "v = int (digits_val whole) * 1000000000 + int (digits_val (fr @ replicate (9 - length fr) 48)) \<and> r = []"
proof -
  define tail where "tail = (if fr = [] then [115] else 46 # fr @ [115] :: jstring)"
  have w: "scan_whole 0 (whole @ tail) = (if int (digits_val whole) > TWO_TO_63 then None else Some (int (digits_val whole), tail))"
    by (subst scan_whole_digits [OF assms(1)]) (use assms(2) in \<open>auto simp: tail_def Let_def is_digit_def split: if_splits\<close>)
  have small: "\<not> int (digits_val whole) > TWO_TO_63"
    using assms(5) unfolding tail_def [symmetric] by (auto simp: parse_component_def w split: if_splits)
  have unit: "takeWhile unit_char [115] = [115]" "dropWhile unit_char [115] = []" "map_of DURATION_UNITS [115] = Some 1000000000"
    by (simp_all add: unit_char_def is_digit_def js_def DURATION_UNITS_def)
  show ?thesis
  proof (cases "fr = []")
    case True
    then have t: "expect 46 tail = None" "tail = [115]" by (simp_all add: tail_def)
    show ?thesis
      using assms(2,5) small True unfolding tail_def [symmetric] parse_component_def w
      by (simp add: t unit Let_def digits_val_zeros [of "[]", simplified] split: if_splits)
  next
    case False
    then have t: "expect 46 tail = Some (fr @ [115])" by (simp add: tail_def)
    define f where "f = digits_val fr"
    have "f < 10 ^ length fr" using digits_val_less [OF assms(3)] by (simp add: f_def)
    note f = fraction_of_second [OF this assms(4)]
    have s: "scan_fraction 0 (Fin 1) False (fr @ [115]) = (int f, Fin (10 ^ length fr), [115])"
      using scan_fraction_digits [OF assms(3), of 0 0] assms(4) by (simp add: f_def)
    have z: "int (digits_val (fr @ replicate (9 - length fr) 48)) = int f * 10 ^ (9 - length fr)"
      by (simp add: digits_val_zeros f_def)
    show ?thesis
      using assms(5) small unfolding tail_def [symmetric] parse_component_def w z
      by (auto simp: t s unit f Let_def split: if_splits)
  qed
qed

lemma match_durationD:
  assumes "match_duration text = Some (neg, whole, fr)"
  shows "text = (if neg then [45] else []) @ whole @ (if fr = [] then [115] else 46 # fr @ [115])"
    "list_all is_digit whole" "whole \<noteq> []" "list_all is_digit fr" "length fr \<le> 9" "neg \<longleftrightarrow> take 1 text = [45]"
proof -
  define t where "t = (if neg then drop 1 text else text)"
  have neg: "neg \<longleftrightarrow> take 1 text = [45]" using assms by (auto simp: match_duration_def Let_def split: if_splits option.splits)
  have w: "whole = takeWhile is_digit t" "whole \<noteq> []"
    using assms by (auto simp: match_duration_def Let_def t_def split: if_splits option.splits)
  obtain fr' where f: "match_fraction (dropWhile is_digit t) = Some (fr', [115])" "fr = case_option [] id fr'"
    using assms by (auto simp: match_duration_def Let_def t_def split: if_splits option.splits)
  have "dropWhile is_digit t = (if fr = [] then [115] else 46 # fr @ [115])"
  proof (cases "expect 46 (dropWhile is_digit t)")
    case None
    then show ?thesis using f by (auto simp: match_fraction_def)
  next
    case (Some r)
    then have e: "dropWhile is_digit t = 46 # r" by (cases "dropWhile is_digit t") (auto split: if_splits)
    have r: "fr' = Some (takeWhile is_digit r)" "dropWhile is_digit r = [115]" "takeWhile is_digit r \<noteq> []"
      using f(1) Some by (auto simp: match_fraction_def Let_def split: if_splits)
    have "takeWhile is_digit r @ [115] = r" using takeWhile_dropWhile_id [of is_digit r] r(2) by simp
    then show ?thesis using r f(2) by (simp add: e)
  qed
  moreover have "whole @ dropWhile is_digit t = t" by (simp add: w)
  moreover have "text = (if neg then [45] else []) @ t" using neg by (cases "text") (auto simp: t_def)
  ultimately show "text = (if neg then [45] else []) @ whole @ (if fr = [] then [115] else 46 # fr @ [115])" by (simp only:)
  show "list_all is_digit whole" by (auto simp: w list_all_iff dest: set_takeWhileD)
  show "list_all is_digit fr" "length fr \<le> 9" using f match_fraction_shape by (auto split: option.splits)
qed (use assms in \<open>auto simp: match_duration_def Let_def split: if_splits option.splits\<close>)

lemma parseCelDuration_seconds:
  assumes "match_duration text = Some (neg, whole, fr)" "parseCelDuration text = Inr (VDur d)"
  shows "d = (if neg then - 1 else 1) *
    (int (digits_val whole) * 1000000000 + int (digits_val (fr @ replicate (9 - length fr) 48)))"
proof -
  note D = match_durationD [OF assms(1)]
  define body where "body = whole @ (if fr = [] then [115] else 46 # fr @ [115])"
  obtain c ws where c: "whole = c # ws" "is_digit c" using D(2,3) by (cases whole) auto
  then have c': "c \<noteq> 45" "c \<noteq> 43" by (auto simp: is_digit_def)
  have tx: "(if take 1 text = [45] \<or> take 1 text = [43] then drop 1 text else text) = body"
    using D(1) c c' by (auto simp: body_def split: if_splits)
  have body: "body \<noteq> [48]" "body \<noteq> []" by (simp_all add: body_def c)
  then obtain n where n: "parse_components 0 body = Inr (Some n)" "d = (if neg then - n else n)"
    using assms(2) unfolding parseCelDuration_def tx Let_def D(6) by (auto simp: bindE_eq_Inr split: option.splits if_splits)
  then obtain v r where v: "parse_component body = Inr (Some (v, r))" "parse_components v r = Inr (Some n)"
    using body by (subst (asm) parse_components.simps) (auto split: sum.splits option.splits if_splits)
  have "v = int (digits_val whole) * 1000000000 + int (digits_val (fr @ replicate (9 - length fr) 48)) \<and> r = []"
    by (rule parse_component_seconds) (use D v(1) in \<open>simp_all add: body_def\<close>)
  then show ?thesis using n(2) v(2) by (simp add: parse_components.simps [of _ "[]"])
qed

lemma durationMilliseconds_nanos:
  assumes "durationMilliseconds operand = Some ms" "literal_text ''duration'' operand = Some s" "parseCelDuration s = Inr (VDur d)"
  shows "d = ms * 1000000"
proof -
  obtain neg whole fr where m: "match_duration s = Some (neg, whole, fr)"
    using assms(1,2) by (auto simp: durationMilliseconds_def split: option.splits)
  define F where "F = fr @ replicate (9 - length fr) 48"
  have z: "drop 3 F = js ''000000''" and ms: "ms = (if neg then - 1 else 1) * (int (digits_val whole) * 1000 + int (digits_val (take 3 F)))"
    using assms(1,2) m by (auto simp: durationMilliseconds_def F_def Let_def split: if_splits)
  have "digits_val (drop 3 F) = 0" unfolding z by (simp add: js_def digits_val_def digit_val_def)
  moreover have "length (drop 3 F) = 6" using z by (simp add: js_def)
  ultimately have "digits_val F = digits_val (take 3 F) * 1000000"
    using digits_val_append [of "take 3 F" "drop 3 F"] by simp
  then show ?thesis using parseCelDuration_seconds [OF m assms(3)] by (simp add: ms F_def [symmetric] algebra_simps)
qed

subsection \<open>Operands of a temporal comparison\<close>

lemma cel_unary:
  assumes "op \<notin> {''and'', ''or'', ''not'', ''if'', ''list'', ''struct'', ''size''}"
  shows "cel fn attr env (Expression op [a]) =
    (if cel fn attr env a = VError then VError
     else if op = ''timestamp'' then timestamp_value (cel fn attr env a)
     else if op = ''duration'' then duration_value (cel fn attr env a)
     else fn op [cel fn attr env a])"
  using assms by (auto simp: lambda_parts_def operator_value_def strict_value_def)

lemma literal_cel:
  "cel fn attr env (Expression ''timestamp'' [Value (VStr s)]) = timestamp_value (VStr s)"
  "cel fn attr env (Expression ''duration'' [Value (VStr s)]) = duration_value (VStr s)"
  by (subst cel_unary; simp)+

lemma literal_textD: "literal_text c operand = Some s \<Longrightarrow> operand = Expression c [Value (VStr s)]"
  by (auto simp: literal_text_def split: operand.splits list.splits jsval.splits if_splits)

lemma instantLiteral_cel:
  assumes "instantLiteral ms = Some e"
  shows "cel fn attr env e = VTime (ms * 1000000)" "MIN_INSTANT \<le> ms" "ms \<le> MAX_INSTANT"
  using assms parse_instant_text [of ms]
  by (auto simp: instantLiteral_def literal_cel simp del: timestamp_value.simps cel.simps split: if_splits)

lemma instantMilliseconds_cel:
  assumes "instantMilliseconds e = Some ms" "cel fn attr env e \<noteq> VError"
  shows "cel fn attr env e = VTime (ms * 1000000)"
proof -
  obtain s where s: "literal_text ''timestamp'' e = Some s" using assms(1) by (auto simp: instantMilliseconds_def split: option.splits)
  then obtain t m where t: "parseRfc3339Instant s = Inr (t, False)" "match_instant t = Some m" "date_parse m = Some ms"
    using assms(1) by (auto simp: instantMilliseconds_def split: option.splits sum.splits if_splits)
  have e: "cel fn attr env e = timestamp_value (VStr s)" by (simp only: literal_textD [OF s] literal_cel)
  then obtain n where n: "parseRfc3339Timestamp s = VBig n" using assms(2) by (auto split: jsval.splits)
  from parse_instant_cel [OF t(1) n] obtain c
    where c: "MIN_INSTANT \<le> c" "c \<le> MAX_INSTANT" "t = toISOString c" "n = c * 1000000" by auto
  have "ms = c" using iso_text(1,3) [OF c(1,2)] t(2,3) by (simp add: c(3))
  then show ?thesis by (simp add: e n c)
qed

lemma durationMilliseconds_cel:
  assumes "durationMilliseconds e = Some ms" "cel fn attr env e \<noteq> VError"
  shows "cel fn attr env e = VDur (ms * 1000000)" "inInt64 (ms * 1000000)"
proof -
  obtain s where s: "literal_text ''duration'' e = Some s" using assms(1) by (auto simp: durationMilliseconds_def split: option.splits)
  have e: "cel fn attr env e = duration_value (VStr s)" by (simp only: literal_textD [OF s] literal_cel)
  then obtain d where d: "parseCelDuration s = Inr (VDur d)" using assms(2) by (auto split: sum.splits jsval.splits)
  show "cel fn attr env e = VDur (ms * 1000000)" "inInt64 (ms * 1000000)"
    using durationMilliseconds_nanos [OF assms(1) s d] parseCelDuration_range [OF d] by (simp_all add: e d)
qed

text \<open>A column that holds a \<open>DateTime\<close>: missing, or a whole millisecond.\<close>

definition date_time :: "jsval \<Rightarrow> bool" where
  "date_time v \<longleftrightarrow> timestamp_value v = VError \<or>
     (\<exists>x. MIN_INSTANT \<le> x \<and> x \<le> MAX_INSTANT \<and> timestamp_value v = VTime (x * 1000000))"

lemma column_cel:
  assumes "isTimestampColumn e" "\<And>n. date_time (look attr env n)"
  obtains (missing) "cel fn attr env e = VError"
  | (present) x where "MIN_INSTANT \<le> x" "x \<le> MAX_INSTANT" "cel fn attr env e = VTime (x * 1000000)"
proof -
  obtain n where e: "e = Expression ''timestamp'' [Variable n]"
    using assms(1) by (auto simp: isTimestampColumn_def isNamedOperand_def split: operand.splits list.splits)
  have v: "cel fn attr env e = timestamp_value (look attr env n)" unfolding e by (subst cel_unary) auto
  show thesis using assms(2) [of n] missing present unfolding date_time_def v by blast
qed

lemma cel_binary_strict:
  assumes "op \<notin> set macro_names" "op \<notin> {''and'', ''or'', ''not'', ''if'', ''list'', ''struct'', ''size''}"
  shows "cel fn attr env (Expression op [a, b]) =
    (if cel fn attr env a = VError \<or> cel fn attr env b = VError then VError
     else case binary_value op (cel fn attr env a) (cel fn attr env b) of
       Some v \<Rightarrow> v | None \<Rightarrow> fn op [cel fn attr env a, cel fn attr env b])"
proof -
  have "lambda_parts op [a, b] = None" using assms(1) by (simp add: lambda_parts_def)
  then show ?thesis using assms(2) by (simp add: operator_value_def strict_value_def eq_commute [of VError])
qed

lemma cel_compare:
  assumes "comparison_of op = Some k"
  shows "cel fn attr env (Expression op [a, b]) =
    (if cel fn attr env a = VError \<or> cel fn attr env b = VError then VError
     else compare_cel k (cel fn attr env a) (cel fn attr env b))"
proof -
  have "op \<notin> set macro_names" "op \<notin> {''and'', ''or'', ''not'', ''if'', ''list'', ''struct'', ''size''}"
    using assms by (auto simp: comparison_of.simps macro_names_def split: if_splits)
  then show ?thesis by (simp add: cel_binary_strict binary_value_def assms del: cel.simps)
qed

lemma compare_durations: "compare_cel k (VDur a) (VDur b) = VBool (int_compare k a b)"
  by (cases k) (auto simp: compare_cel_def compareValues_def isEvaluationError_def ordering_keys_def
      num_le_def valuesEqual.simps)

lemma comparison_operator: "op \<in> set COMPARISON_OPERATORS \<Longrightarrow> comparison_of op \<noteq> None"
  by (auto simp: COMPARISON_OPERATORS_def CERBOS_TO_PRISMA_OPERATOR_def comparison_of.simps)

lemma int_compare_mirror:
  assumes "comparison_of op = Some k"
  obtains k' where "comparison_of (mirrorOperator op) = Some k'" "\<And>a b. int_compare k' a b = int_compare k b a"
  using assms that
  by (auto simp: comparison_of.simps mirrorOperator_def MIRRORED_OPERATOR_def split: if_splits)

text \<open>Values the two sides of a temporal comparison take.\<close>

definition same_kind :: "jsval \<Rightarrow> jsval \<Rightarrow> bool" where
  "same_kind v w \<longleftrightarrow> v = VError \<or> w = VError \<or> (\<exists>a b. v = VTime a \<and> w = VTime b) \<or> (\<exists>a b. v = VDur a \<and> w = VDur b)"

lemma swap_sides:
  assumes "comparison_of op = Some k" "same_kind (cel fn attr env l) (cel fn attr env r)"
  shows "cel fn attr env (Expression (mirrorOperator op) [r, l]) = cel fn attr env (Expression op [l, r])"
proof -
  obtain k' where k: "comparison_of (mirrorOperator op) = Some k'" "\<And>a b. int_compare k' a b = int_compare k b a"
    using int_compare_mirror [OF assms(1)] by blast
  show ?thesis using assms(2) unfolding cel_compare [OF assms(1)] cel_compare [OF k(1)] same_kind_def
    by (auto simp: compare_durations k(2))
qed

lemma checked_time_ms:
  "checked_time (ms * 1000000) = (if MIN_INSTANT \<le> ms \<and> ms \<le> MAX_INSTANT then VTime (ms * 1000000) else VError)"
proof -
  have "MIN_TIMESTAMP_NANOS \<le> ms * 1000000 \<longleftrightarrow> MIN_INSTANT \<le> ms"
    unfolding MIN_TIMESTAMP_NANOS_def MIN_INSTANT_def by linarith
  moreover have "ms * 1000000 \<le> MAX_TIMESTAMP_NANOS \<longleftrightarrow> ms \<le> MAX_INSTANT"
    unfolding MAX_TIMESTAMP_NANOS_def MAX_INSTANT_def by linarith
  ultimately show ?thesis by (simp add: checked_time_def)
qed

lemma saturated_compare:
  assumes "inInt64 (d * 1000000)"
  shows "compare_cel k (timeSince n t) (VDur (d * 1000000)) = VBool (int_compare k (n - t) (d * 1000000))"
proof -
  have "INT64_MAX mod 1000000 \<noteq> 0" "INT64_MIN mod 1000000 \<noteq> 0" by (simp_all add: INT64_MAX_def INT64_MIN_def)
  then have "d * 1000000 \<noteq> INT64_MAX" "d * 1000000 \<noteq> INT64_MIN" using mod_mult_self2_is_0 by metis+
  then have d: "INT64_MIN < d * 1000000" "d * 1000000 < INT64_MAX" using assms by (simp_all add: inInt64_def)
  then show ?thesis unfolding timeSince_def Let_def compare_durations by (cases k) auto
qed

lemma int_compare_shift: "int_compare k (a * 1000000) (b * 1000000) = int_compare k a b"
  "int_compare k (a + c) (b + c) = int_compare k a b"
  by (cases k; simp)+

subsection \<open>Solving for the column\<close>

text \<open>
  A rewrite under an even (\<open>positive\<close>) or odd number of negations: a value is kept, and where the original is an
  error the rewritten condition never is the verdict that would select the row.
\<close>

definition polarity_sound :: "bool \<Rightarrow> jsval \<Rightarrow> jsval \<Rightarrow> bool" where
  "polarity_sound positive original rewritten \<longleftrightarrow>
     (if original = VError then verdict rewritten \<noteq> (if positive then TT else FF) else rewritten = original)"

fun operands_of :: "operand \<Rightarrow> operand list" where
  "operands_of (Expression op args) = args"
| "operands_of _ = []"

definition temporal_literals :: "operand list \<Rightarrow> operand list" where
  "temporal_literals args =
     filter (\<lambda>a. literal_text ''timestamp'' a \<noteq> None \<or> literal_text ''duration'' a \<noteq> None)
       (args @ concat (map operands_of args))"

lemma literal_of_ms:
  "durationMilliseconds e = Some d \<Longrightarrow> literal_text ''duration'' e \<noteq> None"
  "instantMilliseconds e = Some m \<Longrightarrow> literal_text ''timestamp'' e \<noteq> None"
  by (auto simp: durationMilliseconds_def instantMilliseconds_def split: option.splits)

lemma cel_shifted:
  assumes "shifted_column lop largs = Some (column, d)" "lop = ''add'' \<or> lop = ''sub''"
    and "\<And>n. date_time (look attr env n)" "\<And>e. e \<in> set largs \<Longrightarrow> literal_text ''duration'' e \<noteq> None \<Longrightarrow> cel fn attr env e \<noteq> VError"
  shows "isTimestampColumn column"
    "cel fn attr env (Expression lop largs) =
      (case cel fn attr env column of
         VTime t \<Rightarrow> checked_time (t + (if lop = ''add'' then d else - d) * 1000000) | _ \<Rightarrow> VError)"
proof -
  consider (left) b where "largs = [column, b]" "isTimestampColumn column" "durationMilliseconds b = Some d"
    | (right) a where "lop = ''add''" "largs = [a, column]" "isTimestampColumn column" "durationMilliseconds a = Some d"
    using assms(1) by (auto simp: shifted_column_def split: list.splits if_splits)
  note shapes = this
  then show column: "isTimestampColumn column" by cases
  have val: "cel fn attr env e = VDur (d * 1000000)" if "e \<in> set largs" "durationMilliseconds e = Some d" for e
    using durationMilliseconds_cel(1) [OF that(2)] assms(4) [OF that(1)] literal_of_ms(1) [OF that(2)] by blast
  have strict: "cel fn attr env (Expression lop [a, b]) =
      (if cel fn attr env a = VError \<or> cel fn attr env b = VError then VError
       else add_values lop (cel fn attr env a) (cel fn attr env b))" for a b
    using assms(2) by (elim disjE) (simp_all add: cel_binary_strict macro_names_def binary_value_def comparison_of.simps
        string_test_def number_op_def del: cel.simps)
  from column assms(3) have cv: "cel fn attr env column = VError \<or> (\<exists>t. cel fn attr env column = VTime t)"
    by (elim column_cel) auto
  from shapes show "cel fn attr env (Expression lop largs) =
      (case cel fn attr env column of
         VTime t \<Rightarrow> checked_time (t + (if lop = ''add'' then d else - d) * 1000000) | _ \<Rightarrow> VError)"
  proof cases
    case (left b)
    have "cel fn attr env b = VDur (d * 1000000)" by (rule val) (simp_all add: left)
    then show ?thesis using cv assms(2) unfolding left(1) strict by (auto simp: add_values_def)
  next
    case (right a)
    have "cel fn attr env a = VDur (d * 1000000)" by (rule val) (simp_all add: right)
    then show ?thesis using cv unfolding right(2) strict by (auto simp: add_values_def right(1) add.commute)
  qed
qed

lemma timeSince_case:
  assumes "comparison_of op = Some k" "isTimestampColumn column" "durationMilliseconds r = Some d" "cel fn attr env r \<noteq> VError"
    and "instantLiteral (now - d) = Some bound" "\<And>n. date_time (look attr env n)"
    and "\<And>t. fn ''timeSince'' [VTime t] = timeSince (now * 1000000) t"
  shows "same_kind (cel fn attr env (Expression ''timeSince'' [column])) (cel fn attr env r)"
    "polarity_sound positive (cel fn attr env (Expression op [Expression ''timeSince'' [column], r]))
      (cel fn attr env (compareInstant (mirrorOperator op) column bound))"
proof -
  note R = durationMilliseconds_cel [OF assms(3,4)]
  note B = instantLiteral_cel(1) [OF assms(5), of fn attr env]
  obtain k' where k': "comparison_of (mirrorOperator op) = Some k'" "\<And>a b. int_compare k' a b = int_compare k b a"
    using int_compare_mirror [OF assms(1)] by blast
  have L: "cel fn attr env (Expression ''timeSince'' [column]) =
      (if cel fn attr env column = VError then VError else fn ''timeSince'' [cel fn attr env column])"
    by (subst cel_unary) simp_all
  let ?L = "cel fn attr env (Expression ''timeSince'' [column])"
  note unfolded = compareInstant_def cel_compare [OF assms(1)] cel_compare [OF k'(1)] R(1) B
  have "same_kind ?L (cel fn attr env r) \<and>
    polarity_sound positive (cel fn attr env (Expression op [Expression ''timeSince'' [column], r]))
      (cel fn attr env (compareInstant (mirrorOperator op) column bound))" (is ?goal)
  proof (rule column_cel [OF assms(2,6)])
    assume c: "cel fn attr env column = VError"
    then have "?L = VError" by (simp add: L del: cel.simps)
    then show ?goal unfolding unfolded by (simp add: c same_kind_def polarity_sound_def)
  next
    fix x assume c: "cel fn attr env column = VTime (x * 1000000)"
    have eq: "int_compare k (now * 1000000 - x * 1000000) (d * 1000000) = int_compare k ((now - d) * 1000000) (x * 1000000)"
      using int_compare_shift(2) [of k "now * 1000000 - x * 1000000" "x * 1000000 - d * 1000000" "d * 1000000"]
      by (simp add: algebra_simps)
    have L: "?L = timeSince (now * 1000000) (x * 1000000)" by (simp add: L c assms(7) del: cel.simps)
    have ne: "timeSince (now * 1000000) (x * 1000000) \<noteq> VError" by (simp add: timeSince_def Let_def)
    have "same_kind ?L (cel fn attr env r)" unfolding L R(1) by (simp add: timeSince_def Let_def same_kind_def)
    then show ?goal unfolding unfolded L saturated_compare [OF R(2)] by (simp add: c ne eq k'(2) polarity_sound_def)
  qed
  then show "same_kind ?L (cel fn attr env r)"
    "polarity_sound positive (cel fn attr env (Expression op [Expression ''timeSince'' [column], r]))
      (cel fn attr env (compareInstant (mirrorOperator op) column bound))" by simp_all
qed

text \<open>The rewritten comparison of a shifted column.\<close>

definition solved_shift :: "string \<Rightarrow> operand \<Rightarrow> int \<Rightarrow> operand \<Rightarrow> operand \<Rightarrow> bool \<Rightarrow> operand" where
  "solved_shift op column shift bound limit positive =
     (let solved = compareInstant op column bound;
          inRange = compareInstant (if shift > 0 then ''le'' else ''ge'') column limit
      in if shift = 0 then solved
         else if positive then Expression ''and'' [solved, inRange]
         else Expression ''or'' [solved, Expression ''not'' [inRange]])"

lemma cel_connectives:
  "cel fn attr env (Expression ''and'' [a, b]) = of_truth (k_all [verdict (cel fn attr env a), verdict (cel fn attr env b)])"
  "cel fn attr env (Expression ''or'' [a, b]) = of_truth (k_ex [verdict (cel fn attr env a), verdict (cel fn attr env b)])"
  "cel fn attr env (Expression ''not'' [a]) = of_truth (k_not (verdict (cel fn attr env a)))"
  by (simp_all add: lambda_parts_def macro_names_def operator_value_def)

lemma shifted_case:
  assumes "comparison_of op = Some k" "shifted_column lop largs = Some (column, d)" "lop = ''add'' \<or> lop = ''sub''"
    and "instantMilliseconds r = Some m" "cel fn attr env r \<noteq> VError" "\<And>n. date_time (look attr env n)"
    and "\<And>e. e \<in> set largs \<Longrightarrow> literal_text ''duration'' e \<noteq> None \<Longrightarrow> cel fn attr env e \<noteq> VError"
    and "shift = (if lop = ''add'' then d else - d)" "instantLiteral (m - shift) = Some bound"
    and "shift \<noteq> 0 \<Longrightarrow> instantLiteral (if shift > 0 then MAX_INSTANT - shift else MIN_INSTANT - shift) = Some limit"
  shows "same_kind (cel fn attr env (Expression lop largs)) (cel fn attr env r)"
    "polarity_sound positive (cel fn attr env (Expression op [Expression lop largs, r]))
      (cel fn attr env (solved_shift op column shift bound limit positive))"
proof -
  note R = instantMilliseconds_cel [OF assms(4,5)]
  note B = instantLiteral_cel(1) [OF assms(9), of fn attr env]
  note S = cel_shifted [OF assms(2,3,6,7), folded assms(8)]
  note unfolded = compareInstant_def cel_compare [OF assms(1)] R B
  let ?L = "cel fn attr env (Expression lop largs)"
  let ?original = "cel fn attr env (Expression op [Expression lop largs, r])"
  let ?rewritten = "cel fn attr env (solved_shift op column shift bound limit positive)"
  have range: "cel fn attr env (compareInstant (if shift > 0 then ''le'' else ''ge'') column limit) =
      (if cel fn attr env column = VError then VError
       else compare_cel (if shift > 0 then Le else Ge) (cel fn attr env column)
         (VTime ((if shift > 0 then MAX_INSTANT - shift else MIN_INSTANT - shift) * 1000000)))" if "shift \<noteq> 0"
  proof -
    have "comparison_of (if shift > 0 then ''le'' else ''ge'') = Some (if shift > 0 then Le else Ge)"
      by (simp add: comparison_of.simps)
    from cel_compare [OF this, of fn attr env column limit] show ?thesis
      unfolding compareInstant_def instantLiteral_cel(1) [OF assms(10) [OF that], of fn attr env] by simp
  qed
  have "same_kind ?L (cel fn attr env r) \<and> polarity_sound positive ?original ?rewritten" (is ?goal)
  proof (rule column_cel [OF S(1) assms(6)])
    assume c: "cel fn attr env column = VError"
    then have L: "?L = VError" by (simp add: S(2) del: cel.simps)
    have solved: "cel fn attr env (compareInstant op column bound) = VError" unfolding unfolded c by simp
    have original: "?original = VError" unfolding unfolded L by simp
    have inside: "cel fn attr env (compareInstant (if shift > 0 then ''le'' else ''ge'') column limit) = VError"
      if "shift \<noteq> 0" unfolding range [OF that] c by simp
    show ?goal unfolding original L solved_shift_def Let_def
      by (auto simp: same_kind_def polarity_sound_def cel_connectives solved inside k_all_def k_ex_def simp del: cel.simps)
  next
    fix x assume x: "MIN_INSTANT \<le> x" "x \<le> MAX_INSTANT" and c: "cel fn attr env column = VTime (x * 1000000)"
    have L: "?L = (if MIN_INSTANT \<le> x + shift \<and> x + shift \<le> MAX_INSTANT then VTime ((x + shift) * 1000000) else VError)"
      using checked_time_ms [of "x + shift"] by (simp add: S(2) c ring_distribs del: cel.simps)
    have eq: "int_compare k (x + shift) m = int_compare k x (m - shift)"
      using int_compare_shift(2) [of k x shift "m - shift"] by simp
    have solved: "cel fn attr env (compareInstant op column bound) = VBool (int_compare k (x + shift) m)"
      unfolding unfolded c eq int_compare_shift(1) [of k x, symmetric] by simp
    have original: "?original = (if ?L = VError then VError else VBool (int_compare k (x + shift) m))"
      unfolding unfolded L using int_compare_shift(1) [of k "x + shift" m] by simp
    have inside: "cel fn attr env (compareInstant (if shift > 0 then ''le'' else ''ge'') column limit) = VBool (?L \<noteq> VError)"
      if "shift \<noteq> 0" unfolding range [OF that] L c using x that by (auto simp: int_compare_shift(1))
    have "same_kind ?L (cel fn attr env r)" unfolding L R by (simp add: same_kind_def)
    moreover have "?L \<noteq> VError" if "shift = 0" using x that unfolding L by simp
    then have "polarity_sound positive ?original ?rewritten"
      unfolding original solved_shift_def Let_def
      by (cases "int_compare k (x + shift) m"; cases "?L = VError")
        (auto simp: polarity_sound_def cel_connectives solved inside k_all_def k_ex_def truth_of_def simp del: cel.simps)
    ultimately show ?goal by simp
  qed
  then show "same_kind ?L (cel fn attr env r)" "polarity_sound positive ?original ?rewritten" by simp_all
qed

lemma solve_temporal_sound:
  assumes "solve_temporal left right op positive now = Some e'" "comparison_of op = Some k"
    and "\<And>n. date_time (look attr env n)" "\<And>t. fn ''timeSince'' [VTime t] = timeSince (now * 1000000) t"
    and "\<And>e. e \<in> set (right # operands_of left) \<Longrightarrow> literal_text ''timestamp'' e \<noteq> None \<or> literal_text ''duration'' e \<noteq> None \<Longrightarrow>
      cel fn attr env e \<noteq> VError"
  shows "same_kind (cel fn attr env left) (cel fn attr env right) \<and>
    polarity_sound positive (cel fn attr env (Expression op [left, right])) (cel fn attr env e')"
proof -
  obtain lop largs where left: "left = Expression lop largs"
    using assms(1) by (auto simp: solve_temporal_def split: operand.splits)
  note rewrite = assms(1) [unfolded solve_temporal_def left operand.case]
  show ?thesis
  proof (cases "lop = ''timeSince''")
    case True
    then obtain column d bound where e: "largs = [column]" "durationMilliseconds right = Some d" "isTimestampColumn column"
      "instantLiteral (now - d) = Some bound" "e' = compareInstant (mirrorOperator op) column bound"
      using rewrite by (auto split: list.splits option.splits if_splits)
    have "cel fn attr env right \<noteq> VError" by (rule assms(5)) (use literal_of_ms(1) [OF e(2)] in simp_all)
    from timeSince_case [OF assms(2) e(3,2) this e(4) assms(3,4)] show ?thesis
      unfolding left True e(1,5) by blast
  next
    case False
    then have lop: "lop = ''add'' \<or> lop = ''sub''" using rewrite by (auto split: if_splits)
    have "shifted_column lop largs \<noteq> None" "instantMilliseconds right \<noteq> None"
      using rewrite False lop by (auto split: option.splits prod.splits)
    then obtain column d m where c: "shifted_column lop largs = Some (column, d)" "instantMilliseconds right = Some m" by auto
    define shift where "shift = (if lop = ''add'' then d else - d)"
    have "\<not> (lop \<noteq> ''add'' \<and> lop \<noteq> ''sub'')" using lop by blast
    note solved = rewrite [unfolded if_not_P [OF False] if_not_P [OF this] c prod.case option.case, folded shift_def, unfolded Let_def]
    obtain bound where b: "instantLiteral (m - shift) = Some bound" using solved by (auto split: option.splits)
    obtain limit where l: "shift \<noteq> 0 \<Longrightarrow> instantLiteral (if shift > 0 then MAX_INSTANT - shift else MIN_INSTANT - shift) = Some limit"
      "e' = solved_shift op column shift bound limit positive"
    proof (cases "shift = 0")
      case True
      then show thesis using solved that [of bound] unfolding b by (simp add: solved_shift_def)
    next
      case False
      then show thesis using solved that unfolding b by (cases "instantLiteral (if shift > 0 then MAX_INSTANT - shift else MIN_INSTANT - shift)")
        (simp_all add: solved_shift_def Let_def)
    qed
    have "cel fn attr env right \<noteq> VError" by (rule assms(5)) (use literal_of_ms(2) [OF c(2)] in simp_all)
    moreover have "\<And>e. e \<in> set largs \<Longrightarrow> literal_text ''duration'' e \<noteq> None \<Longrightarrow> cel fn attr env e \<noteq> VError"
      using assms(5) by (simp add: left)
    ultimately show ?thesis
      unfolding left l(2) using shifted_case [OF assms(2) c(1) lop c(2) _ assms(3) _ shift_def b l(1)] by blast
  qed
qed

text \<open>Five seconds before the end of time, shifted by nine.\<close>

definition late_shift :: "operand list" where
  "late_shift =
     [Expression ''add'' [Expression ''timestamp'' [Variable (js ''t'')], Expression ''duration'' [Value (VStr (js ''9s''))]],
      Expression ''timestamp'' [Value (VStr (js ''1970-01-01T00:00:00Z''))]]"

definition late_row :: "jstring \<Rightarrow> jsval" where
  "late_row n = VTime 253402300795000000000"

definition fixed_clock :: "int \<Rightarrow> string \<Rightarrow> jsval list \<Rightarrow> jsval" where
  "fixed_clock now op vs = (case vs of [VTime t] \<Rightarrow> timeSince (now * 1000000) t | _ \<Rightarrow> VError)"

lemma fixed_clock_eq: "\<forall>t. fixed_clock now ''timeSince'' [VTime t] = timeSince (now * 1000000) t"
  by (simp add: fixed_clock_def)

text \<open>
  The condition on literals is not idle: a duration past int64 nanoseconds is an error in CEL, while the adapter
  takes it as a number of milliseconds and shifts the instant by it.
\<close>

lemma long_duration_rewritten:
  "durationMilliseconds (Expression ''duration'' [Value (VStr (js ''10000000000s''))]) = Some 10000000000000"
  "duration_value (VStr (js ''10000000000s'')) = VError"
proof -
  have n: "nat_to_string 10000000000 = js ''10000000000''"
    by (simp add: nat_to_string.simps js_def digit_char_def)
  have "parseCelDuration (nat_to_string 10000000000 @ js ''s'') = Inr (checkedDuration 10000000000000000000)"
    using parseCelDuration_units [of "js ''s''" 1000000000 False 10000000000] by (simp add: DURATION_UNITS_def)
  then show "duration_value (VStr (js ''10000000000s'')) = VError"
    by (simp add: n checkedDuration_def inInt64_def INT64_MIN_def INT64_MAX_def js_def)
  have "digits_val (js ''10000000000'') = 10000000000" using digits_val_to_string [of 10000000000] by (simp only: n)
  moreover have "match_duration (js ''10000000000s'') = Some (False, js ''10000000000'', [])"
    "digits_val (take 3 ([] @ replicate (9 - length ([] :: jstring)) 48)) = 0"
    "drop 3 ([] @ replicate (9 - length ([] :: jstring)) 48) = js ''000000''" by code_simp+
  ultimately show "durationMilliseconds (Expression ''duration'' [Value (VStr (js ''10000000000s''))]) = Some 10000000000000"
    by (simp add: durationMilliseconds_def literal_text_def max_safe_def Let_def)
qed

text \<open>
  C37. A comparison over timestamp arithmetic, solved for the column: where the rewrite applies, the rewritten
  condition has the value of the original; where the original is an evaluation error (the column is missing, or
  the shifted instant leaves the years 1 to 9999) it is not the verdict that selects the row, true under an even
  number of negations and false under an odd one. The conditions: every attribute and lambda variable reads as a
  timestamp of whole milliseconds in the years 1 to 9999, which is what a \<open>DateTime\<close> column stores, or is no
  timestamp at all (a missing column); every timestamp and duration literal of the comparison is a value in CEL
  and not an error (a duration past int64 nanoseconds is an error there, and the rewrite takes it); and
  \<open>timeSince\<close> is Go's saturating subtraction from the clock the rewrite reads, a whole millisecond \<open>now\<close>.
\<close>

theorem temporal_rewrite_sound:
  assumes "rewriteTemporalComparison op args positive now = Some e'"
    and "\<forall>n. date_time (look attr env n)"
    and "\<forall>e \<in> set (temporal_literals args). cel fn attr env e \<noteq> VError"
    and "\<forall>t. fn ''timeSince'' [VTime t] = timeSince (now * 1000000) t"
  shows "polarity_sound positive (cel fn attr env (Expression op args)) (cel fn attr env e')"
proof -
  obtain l r where args: "args = [l, r]" and op: "op \<in> set COMPARISON_OPERATORS"
    using assms(1) by (auto simp: rewriteTemporalComparison_def split: list.splits if_splits)
  obtain k where k: "comparison_of op = Some k" using comparison_operator [OF op] by blast
  obtain k' where k': "comparison_of (mirrorOperator op) = Some k'" by (rule int_compare_mirror [OF k])
  have literals: "cel fn attr env e \<noteq> VError"
    if "e \<in> set (r # operands_of l) \<or> e \<in> set (l # operands_of r)" "literal_text ''timestamp'' e \<noteq> None \<or> literal_text ''duration'' e \<noteq> None" for e
    using assms(3) that by (auto simp: temporal_literals_def args)
  consider "solve_temporal l r op positive now = Some e'" | "solve_temporal r l (mirrorOperator op) positive now = Some e'"
    using assms(1) op by (auto simp: rewriteTemporalComparison_def args split: if_splits)
  then show ?thesis
  proof cases
    case 1
    show ?thesis unfolding args using solve_temporal_sound [OF 1 k] assms(2,4) literals by blast
  next
    case 2
    have s: "same_kind (cel fn attr env r) (cel fn attr env l) \<and>
        polarity_sound positive (cel fn attr env (Expression (mirrorOperator op) [r, l])) (cel fn attr env e')"
      using solve_temporal_sound [OF 2 k'] assms(2,4) literals by blast
    then have "same_kind (cel fn attr env l) (cel fn attr env r)" by (auto simp: same_kind_def)
    from swap_sides [OF k this] s show ?thesis unfolding args by simp
  qed
qed

lemma temporal_rewrite_sound_witness:
  "\<exists>e'. rewriteTemporalComparison ''gt'' late_shift True 0 = Some e' \<and>
     polarity_sound True (cel (fixed_clock 0) late_row [] (Expression ''gt'' late_shift))
       (cel (fixed_clock 0) late_row [] e')"
proof -
  have "durationMilliseconds (Expression ''duration'' [Value (VStr (js ''9s''))]) = Some 9000"
    "instantMilliseconds (Expression ''timestamp'' [Value (VStr (js ''1970-01-01T00:00:00Z''))]) = Some 0"
    "''gt'' \<in> set COMPARISON_OPERATORS" by code_simp+
  then have "rewriteTemporalComparison ''gt'' late_shift True 0 \<noteq> None"
    by (simp add: rewriteTemporalComparison_def late_shift_def solve_temporal_def shifted_column_def isTemporalArithmetic_def
      isTimestampColumn_def instantLiteral_def MIN_INSTANT_def MAX_INSTANT_def Let_def)
  then obtain e' where e: "rewriteTemporalComparison ''gt'' late_shift True 0 = Some e'" by blast
  have "date_time (VTime 253402300795000000000)"
    unfolding date_time_def by (intro disjI2 exI [of _ 253402300795000]) (simp add: MIN_INSTANT_def MAX_INSTANT_def)
  then have a: "\<forall>n. date_time (look late_row [] n)" by (simp add: late_row_def)
  have "parseCelDuration (nat_to_string 9 @ js ''s'') = Inr (checkedDuration 9000000000)"
    using parseCelDuration_units [of "js ''s''" 1000000000 False 9] by (simp add: DURATION_UNITS_def)
  moreover have "nat_to_string 9 = js ''9''" by code_simp
  ultimately have "duration_value (VStr (js ''9s'')) = VDur 9000000000"
    by (simp add: checkedDuration_def inInt64_def INT64_MIN_def INT64_MAX_def js_def)
  moreover have "timestamp_value (VStr (js ''1970-01-01T00:00:00Z'')) = VTime 0" by code_simp
  moreover have "temporal_literals late_shift =
      [Expression ''timestamp'' [Value (VStr (js ''1970-01-01T00:00:00Z''))], Expression ''duration'' [Value (VStr (js ''9s''))]]"
    by (simp add: temporal_literals_def late_shift_def literal_text_def)
  ultimately have b: "\<forall>e \<in> set (temporal_literals late_shift). cel (fixed_clock 0) late_row [] e \<noteq> VError"
    by (simp add: literal_cel del: cel.simps timestamp_value.simps duration_value.simps)
  have "polarity_sound True (cel (fixed_clock 0) late_row [] (Expression ''gt'' late_shift)) (cel (fixed_clock 0) late_row [] e')"
    by (rule temporal_rewrite_sound [where fn = "fixed_clock 0" and attr = late_row and env = "[]", OF e a b fixed_clock_eq])
  with e show ?thesis by blast
qed

end
