(* ===== verification/Spec2Isabelle.thy ===== *)
theory Spec2Isabelle
  imports Convex_Correct Chroma_Correct Chroma_Types Prisma_Expand Prisma_Temporal
begin

text \<open>
  A verification library for the query plan adapters: the packages that turn the query plan of a Cerbos
  policy decision point (an expression over the attributes of a resource, in CEL) into the query language of
  a store, so that the rows the query selects are the rows the policy grants.

  \<^bold>\<open>The program.\<close> Each adapter takes a plan (\<open>ALWAYS_ALLOWED\<close>, \<open>ALWAYS_DENIED\<close> or \<open>CONDITIONAL\<close> with an
  operand tree) and a mapper from plan references to columns or keys. The Convex and the ChromaDB adapter
  share a design: what the store can express is pushed down as its filter, and
  what it cannot is a post-filter, a CEL evaluator of the package that runs over the rows the store returned.
  The security property of both is that the composition of the two decides as the CEL semantics does, with
  an evaluation error denied under every polarity.

  \<^bold>\<open>Shared theories.\<close> \<open>JS_Prelude\<close> holds the error monad (\<open>bindE\<close>, \<open>mapE\<close>) and generic list lemmas;
  \<open>JS_Number\<close> the finite and non-finite JavaScript numbers with exact rational values (rounding to binary64 is
  where the source relies on it: \<open>Number(text)\<close>, arithmetic); \<open>JS_String\<close> strings as lists of UTF-16 code
  units, their search operations and decimal texts; \<open>JS_Value\<close> the values and the plan operands of
  \<open>@cerbos/core\<close>, in an AST of the four shapes the code tells apart.

  \<^bold>\<open>Convex\<close> (convex/src). \<open>Convex_Errors\<close>: errors.ts, the exceptions of a translation. \<open>Convex_Cel\<close>: cel.ts,
  equality, ordering, hierarchies. \<open>Convex_Time\<close>: cel.ts, timestamps and durations. \<open>Convex_Convert\<close>: cel.ts,
  \<open>string()\<close>, \<open>int()\<close>, \<open>double()\<close> and int64 arithmetic. \<open>Convex_Regex\<close>: regex.ts, with RE2's semantics of the
  subset as its specification. \<open>Convex_Operands\<close>: operands.ts and the mapper of index.ts. \<open>Convex_Evaluate\<close>:
  evaluate.ts, the evaluator. \<open>Convex_Validate\<close>: validate.ts. \<open>Convex_Pushdown\<close>: pushdown.ts, with Convex's
  filter builder as the record \<open>FilterQ\<close> of functions. \<open>Convex_Plan\<close>: index.ts, the entry point.
  \<open>Convex_Logic\<close> shows that connectives and macros compute Kleene's three-valued logic. \<open>Convex_Engine\<close>
  states the laws Convex documents for its filter engine as the locale \<open>convex_engine\<close>, interprets it on a
  tree of filters that meets them, and proves pushdown exact inside it. \<open>Convex_Correct\<close> holds the
  end-to-end properties.

  \<^bold>\<open>ChromaDB\<close> (langchain-chromadb/src). \<open>Chroma_Cel\<close>: cel.ts, with the lemmas that relate it to Convex's copy.
  \<open>Chroma_Where\<close>: errors.ts and the walk of index.ts that builds a \<open>Where\<close> filter. \<open>Chroma_PostFilter\<close>:
  postFilter.ts, the compiler of static types and closures: an operand compiles to a static type and a
  function of the record and the lambda variables, the exceptions of compilation and of the compiled code
  kept apart. \<open>Chroma_Plan\<close>: the entry point. \<open>Chroma_Server\<close> states the documented laws of Chroma's filters
  as the locale \<open>chroma_server\<close>, with a reference server as its interpretation. \<open>Chroma_Exact\<close> proves the
  translation exact, \<open>Chroma_Types\<close> the soundness of the static types, \<open>Chroma_Correct\<close> the end-to-end
  properties.

  \<^bold>\<open>Prisma\<close> (prisma/src). This adapter has no post-filter: it rewrites the plan until every leaf is a Prisma
  filter. \<open>Cel_Semantics\<close> is the specification of the rewrites, a compositional CEL semantics of plan operands
  (\<open>cel\<close>) with errors as values and the order \<open>approx\<close> (an error or the same value), in which every operator is
  monotone. \<open>Prisma_Plan\<close>: errors.ts and plan.ts. \<open>Prisma_Evaluate\<close>: evaluate.ts, folding constants, and
  its agreement with CEL. \<open>Prisma_Rewrite\<close>: rewrite.ts, substitution of lambda variables, hoisting of references
  to an enclosing scope, constant folding. \<open>Prisma_Literals\<close>: literals.ts, macros and sizes over literal lists.
  \<open>Prisma_Solve\<close>: solve.ts and the part of comparison.ts that solves numeric arithmetic on a column with it, by a
  binary search over the bit patterns of the doubles; the search and the rounding are proved exact there.
  \<open>Prisma_Timestamp\<close>: timestamp.ts, instants at the millisecond of a \<open>DateTime\<close> column and timestamp arithmetic
  solved for the column. \<open>Prisma_Hoist\<close>, \<open>Prisma_Fold\<close>, \<open>Prisma_Expand\<close> and \<open>Prisma_Temporal\<close> prove the rewrites
  sound against \<open>cel\<close>. Their hypotheses on the row are functions of the plan and the row (\<open>present\<close>, \<open>regular\<close>,
  \<open>typed\<close>); for the collection that must be there and for sums of mixed types, a plan and a row show that
  the hypothesis is needed.

  \<^bold>\<open>State.\<close> None of the packages keeps state between calls. The clock that \<open>timeSince\<close> reads is an argument (\<open>now\<close>,
  milliseconds) where the code calls \<open>Date.now()\<close>. Closures are HOL functions.

  \<^bold>\<open>Bounds and fuel.\<close> No model takes fuel; every function is total. The recursions are over the plan tree or over
  the text that is left, where the termination proof is not structural by a measure: the component loops of the
  duration parsers consume at least a character each, the walks of evaluate.ts, validate.ts and literals.ts descend
  to smaller operands. Two loops run on numbers: the binary search of solve.ts narrows the interval of keys
  between its bounds, and the search for the year of a day goes down towards the day.

  \<^bold>\<open>Parameters.\<close> Convex's filter builder and Chroma's server are outside the repository; what the code relies
  on are the assumptions of the two locales. \<open>Math.random\<close>, the network and the file system are not used. The
  regular expressions of the supported subset are run by the JavaScript engine in the code and by
  \<open>matchesSafeRegexPattern\<close> here.

  \<^bold>\<open>Not modelled.\<close> The rest of the Prisma adapter, which builds Prisma filter objects: the entry point and the
  translation (index.ts, translate.ts), the remaining comparisons (comparison.ts), the mapping and the fields of a
  schema, relations and collections, hierarchies, functions, ternaries, strings and regular expressions; what
  they produce has a meaning only in Prisma's query engine, over a schema of the caller. The Drizzle and the
  Mongoose adapters, which build queries for an ORM and have no post-filter. The adapters in other languages,
  the conformance harness with its corpus, the demos and the examples are not TypeScript adapter code.
\<close>

end
